(* ===== verification/Prelude.thy ===== *)
theory Prelude
  imports Main "HOL-Library.Word"
begin

text \<open>
  Shared vocabulary of the development: Go's 64-bit integers and instants, errors as values, the
  collections of rewrite rules that the component proofs use, a few facts about lists that several
  components need, and the generic contract of a component that runs in steps (a locale that turns
  "every step keeps the invariant" into "every reachable state satisfies it").
\<close>

section \<open>Rewrite collections\<close>

named_theorems op_inv \<open>every operation of the store keeps the schema constraints\<close>
named_theorems grow \<open>no operation of the store takes a retired tenant id into use again\<close>
named_theorems page_defs \<open>what the admin pages are put together from\<close>

section \<open>Go integers and instants\<close>

text \<open>
  Go's \<open>int64\<close> (and \<open>int\<close>, which is 64 bits wide on every target of the build) is an
  \<^typ>\<open>int\<close>; every addition or multiplication that can leave the range passes through
  \<open>wrap64\<close>, the two's complement reading of the low 64 bits. An instant is the number of
  nanoseconds since the Unix epoch.
\<close>

type_synonym int64 = int
type_synonym time = int

definition wrap64 :: "int \<Rightarrow> int64" where
  "wrap64 x = (x + 2 ^ 63) mod 2 ^ 64 - 2 ^ 63"

definition in_int64 :: "int \<Rightarrow> bool" where
  "in_int64 x \<longleftrightarrow> - (2 ^ 63) \<le> x \<and> x < 2 ^ 63"

abbreviation second :: time where "second \<equiv> 1000000000"
abbreviation minute :: time where "minute \<equiv> 60000000000"
abbreviation hour :: time where "hour \<equiv> 3600000000000"

definition unix :: "time \<Rightarrow> int64" where
  "unix t = t div second"

lemma wrap64_in_range: "in_int64 (wrap64 x)"
  by (simp add: wrap64_def in_int64_def) 

lemma wrap64_id [simp]: "in_int64 x \<Longrightarrow> wrap64 x = x"
  by (simp add: wrap64_def in_int64_def)

lemma wrap64_sint: "wrap64 x = sint (word_of_int x :: 64 word)"
  by (simp add: wrap64_def sint_sbintrunc' signed_take_bit_eq_take_bit_shift take_bit_eq_mod)

lemma wrap64_cong: "wrap64 x mod 2 ^ 64 = x mod 2 ^ 64"
  by (simp add: wrap64_def mod_diff_left_eq)

lemma wrap64_eq_iff: "wrap64 x = wrap64 y \<longleftrightarrow> x mod 2 ^ 64 = y mod 2 ^ 64"
proof
  assume "wrap64 x = wrap64 y"
  then show "x mod 2 ^ 64 = y mod 2 ^ 64" by (metis wrap64_cong)
next
  assume "x mod 2 ^ 64 = y mod 2 ^ 64"
  then have "(x + 2 ^ 63) mod 2 ^ 64 = (y + 2 ^ 63) mod 2 ^ 64" by (rule mod_add_cong) simp
  then show "wrap64 x = wrap64 y" by (simp add: wrap64_def)
qed

lemma wrap64_wrap_left [simp]: "wrap64 (wrap64 x + y) = wrap64 (x + y)"
  by (simp only: wrap64_eq_iff mod_add_left_eq [of "wrap64 x", symmetric] wrap64_cong mod_add_left_eq)

lemma wrap64_wrap_right [simp]: "wrap64 (x + wrap64 y) = wrap64 (x + y)"
  using wrap64_wrap_left [of y x] by (simp add: add.commute)

lemma wrap64_wrap [simp]: "wrap64 (wrap64 x) = wrap64 x"
  using wrap64_wrap_left [of x 0] by simp

section \<open>Errors as values\<close>

text \<open>
  A Go function that returns \<open>(T, error)\<close> returns \<open>go_error + T\<close> here. The constructors
  separate the failures that callers tell apart; \<open>Msg\<close> is any other error, with its text.
\<close>

datatype go_error =
    DBError              \<comment> \<open>the driver failed: I/O, cancelled context, closed database\<close>
  | ConstraintError      \<comment> \<open>a UNIQUE, PRIMARY KEY or FOREIGN KEY constraint refused the row\<close>
  | MaxBytesError        \<comment> \<open>http.MaxBytesReader hit its limit\<close>
  | Timeout              \<comment> \<open>a net.Error whose Timeout() is true\<close>
  | EOF                  \<comment> \<open>io.EOF\<close>
  | UnexpectedEOF        \<comment> \<open>io.ErrUnexpectedEOF\<close>
  | Msg string

type_synonym 'a result = "go_error + 'a"

definition ok_of :: "'a result \<Rightarrow> 'a option" where
  "ok_of r = (case r of Inl _ \<Rightarrow> None | Inr x \<Rightarrow> Some x)"

lemma ok_of_simps [simp]: "ok_of (Inl e) = None" "ok_of (Inr x) = Some x"
  by (simp_all add: ok_of_def)

section \<open>Lists\<close>

lemma filter_map_id:
  "(\<And>x. x \<in> set xs \<Longrightarrow> P x \<Longrightarrow> f x = x) \<Longrightarrow> (\<And>x. x \<in> set xs \<Longrightarrow> P (f x) = P x)
    \<Longrightarrow> filter P (map f xs) = filter P xs"
  by (induction xs) auto

lemma find_append: "find P (xs @ ys) = (case find P xs of None \<Rightarrow> find P ys | Some x \<Rightarrow> Some x)"
  by (induction xs) auto

lemma find_distinct_key: "distinct (map f xs) \<Longrightarrow> x \<in> set xs \<Longrightarrow> f x = k \<Longrightarrow> find (\<lambda>y. f y = k) xs = Some x"
  by (induction xs) auto

lemma find_Some_mem: "find P xs = Some x \<Longrightarrow> x \<in> set xs \<and> P x"
  by (induction xs) (auto split: if_splits)

section \<open>Components that run in steps\<close>

text \<open>
  The contract of a component with a state and a step function over events: an invariant that holds
  at the start and that every admissible step keeps. \<open>run\<close> folds a sequence of events; the
  lemma is proved once and used by every component that interprets the locale.
\<close>

locale step_machine =
  fixes step :: "'e \<Rightarrow> 's \<Rightarrow> 's"
    and inv :: "'s \<Rightarrow> bool"
  assumes inv_step: "inv s \<Longrightarrow> inv (step e s)"
begin

lemma inv_run: "inv s \<Longrightarrow> inv (fold step es s)"
  by (induction es arbitrary: s) (auto intro: inv_step)

end

text \<open>The same contract for a component whose steps are a relation, where several things can happen next.\<close>

locale transitions =
  fixes step :: "'s \<Rightarrow> 's \<Rightarrow> bool" and I :: "'s \<Rightarrow> bool"
  assumes step_keeps: "step s s' \<Longrightarrow> I s \<Longrightarrow> I s'"
begin

lemma run_keeps: "step\<^sup>*\<^sup>* s s' \<Longrightarrow> I s \<Longrightarrow> I s'"
  by (induction rule: rtranclp_induct) (auto intro: step_keeps)

end

end
