(* ===== verification/Go_Strings.thy ===== *)
theory Go_Strings
  imports Prelude
begin

text \<open>
  The part of Go's standard library that the program applies to strings and numbers: \<open>strings\<close>
  (\<open>IndexByte\<close>, \<open>HasPrefix\<close>, \<open>SplitN\<close>, \<open>TrimLeft\<close>, \<open>TrimRight\<close>, \<open>TrimSpace\<close>, \<open>EqualFold\<close>,
  \<open>Contains\<close>), \<open>strconv\<close> (\<open>FormatInt\<close>, \<open>ParseInt\<close>, \<open>Atoi\<close>) and \<open>encoding/hex\<close>. A Go string is a
  sequence of bytes, and so is a \<^typ>\<open>string\<close> (a list of 8-bit characters).
  The main results are the round trips \<open>ParseInt (FormatInt n) = n\<close> and
  \<open>DecodeString (EncodeToString bs) = bs\<close>, and the laws of the separators.
\<close>

section \<open>Package strings\<close>

text \<open>\<open>strings.IndexByte\<close>: the first index of a byte; \<open>None\<close> stands for \<open>-1\<close>.\<close>

fun index_byte :: "string \<Rightarrow> char \<Rightarrow> nat option" where
  "index_byte [] c = None"
| "index_byte (x # xs) c = (if x = c then Some 0 else map_option Suc (index_byte xs c))"

fun has_prefix :: "string \<Rightarrow> string \<Rightarrow> bool" where
  "has_prefix s [] = True"
| "has_prefix [] (p # ps) = False"
| "has_prefix (x # xs) (p # ps) = (x = p \<and> has_prefix xs ps)"

definition has_suffix :: "string \<Rightarrow> string \<Rightarrow> bool" where
  "has_suffix s p = has_prefix (rev s) (rev p)"

fun contains :: "string \<Rightarrow> string \<Rightarrow> bool" where
  "contains [] p = (p = [])"
| "contains (x # xs) p = (has_prefix (x # xs) p \<or> contains xs p)"

text \<open>\<open>strings.SplitN (s, sep, n)\<close> for a separator of one byte and a count \<open>n > 0\<close>.\<close>

fun split_n :: "nat \<Rightarrow> char \<Rightarrow> string \<Rightarrow> string list" where
  "split_n 0 c s = []"
| "split_n (Suc 0) c s = [s]"
| "split_n (Suc (Suc n)) c s =
     (case index_byte s c of None \<Rightarrow> [s]
      | Some i \<Rightarrow> take i s # split_n (Suc n) c (drop (Suc i) s))"

text \<open>\<open>strings.Cut (s, sep)\<close>: what comes before the separator, or all of \<open>s\<close>.\<close>

definition cut_before :: "string \<Rightarrow> char \<Rightarrow> string" where
  "cut_before s c = (case index_byte s c of None \<Rightarrow> s | Some i \<Rightarrow> take i s)"

definition trim_left :: "string \<Rightarrow> char \<Rightarrow> string" where
  "trim_left s c = dropWhile (\<lambda>x. x = c) s"

definition trim_right :: "string \<Rightarrow> char \<Rightarrow> string" where
  "trim_right s c = rev (dropWhile (\<lambda>x. x = c) (rev s))"

text \<open>
  The UTF-8 forms of the code points for which \<open>unicode.IsSpace\<close> holds, which is what
  \<open>strings.TrimSpace\<close> removes at both ends.
\<close>

definition space_forms :: "string list" where
  "space_forms =
     map (\<lambda>b. [char_of (b::nat)]) [9, 10, 11, 12, 13, 32] @
     map (map (\<lambda>b. char_of (b::nat)))
       ([[194, 133], [194, 160], [225, 154, 128], [226, 128, 168], [226, 128, 169],
         [226, 128, 175], [226, 129, 159], [227, 128, 128]] @
        map (\<lambda>k. [226, 128, 128 + k]) [0..<11])"

fun strip_one :: "string list \<Rightarrow> string \<Rightarrow> string option" where
  "strip_one [] s = None"
| "strip_one (p # ps) s = (if has_prefix s p \<and> p \<noteq> [] then Some (drop (length p) s) else strip_one ps s)"

lemma strip_one_shorter: "strip_one ps s = Some t \<Longrightarrow> length t < length s"
proof (induction ps)
  case (Cons p ps)
  show ?case
  proof (cases "has_prefix s p \<and> p \<noteq> []")
    case True
    then have "t = drop (length p) s" and "s \<noteq> []" using Cons.prems by (auto elim: has_prefix.elims)
    with True show ?thesis by simp
  next
    case False
    then show ?thesis using Cons by auto
  qed
qed simp

function strip_all :: "string list \<Rightarrow> string \<Rightarrow> string" where
  "strip_all ps s = (case strip_one ps s of None \<Rightarrow> s | Some t \<Rightarrow> strip_all ps t)"
  by pat_completeness auto
termination
  by (relation "measure (\<lambda>(ps, s). length s)") (auto dest: strip_one_shorter)

declare strip_all.simps [simp del]

definition trim_space :: "string \<Rightarrow> string" where
  "trim_space s =
     rev (strip_all (map rev space_forms) (rev (strip_all space_forms s)))"

text \<open>
  \<open>strings.EqualFold (s, t)\<close> for an ASCII \<open>t\<close>: simple case folding identifies the ASCII letters of
  either case, the Kelvin sign (bytes 226 132 170) with \<open>k\<close> and the long s (bytes 197 191) with
  \<open>s\<close>; no other code point folds to ASCII.
\<close>

definition lower_ascii :: "char \<Rightarrow> char" where
  "lower_ascii c = (if 65 \<le> (of_char c :: nat) \<and> (of_char c :: nat) \<le> 90
                    then char_of (of_char c + 32 :: nat) else c)"

definition to_lower :: "string \<Rightarrow> string" where
  "to_lower = map lower_ascii"

fun fold_case :: "string \<Rightarrow> string" where
  "fold_case (a # b # c # xs) =
     (if of_char a = (226::nat) \<and> of_char b = (132::nat) \<and> of_char c = (170::nat)
      then CHR ''k'' # fold_case xs
      else if of_char a = (197::nat) \<and> of_char b = (191::nat) then CHR ''s'' # fold_case (c # xs)
      else lower_ascii a # fold_case (b # c # xs))"
| "fold_case [a, b] =
     (if of_char a = (197::nat) \<and> of_char b = (191::nat) then [CHR ''s'']
      else [lower_ascii a, lower_ascii b])"
| "fold_case [a] = [lower_ascii a]"
| "fold_case [] = []"

definition equal_fold :: "string \<Rightarrow> string \<Rightarrow> bool" where
  "equal_fold s t \<longleftrightarrow> fold_case s = fold_case t"

section \<open>Package strconv\<close>

definition is_digit :: "char \<Rightarrow> bool" where
  "is_digit c \<longleftrightarrow> 48 \<le> (of_char c :: nat) \<and> (of_char c :: nat) \<le> 57"

definition digit_char :: "int \<Rightarrow> char" where
  "digit_char d = char_of (nat (48 + d))"

definition digit_val :: "char \<Rightarrow> int" where
  "digit_val c = int (of_char c) - 48"

function format_uint :: "int \<Rightarrow> string" where
  "format_uint n = (if n < 10 then [digit_char n] else format_uint (n div 10) @ [digit_char (n mod 10)])"
  by pat_completeness auto
termination
  by (relation "measure nat") auto

declare format_uint.simps [simp del]

text \<open>\<open>strconv.FormatInt (n, 10)\<close> and \<open>strconv.Itoa\<close>.\<close>

definition format_int :: "int \<Rightarrow> string" where
  "format_int n = (if n < 0 then CHR ''-'' # format_uint (- n) else format_uint n)"

fun parse_digits :: "int \<Rightarrow> string \<Rightarrow> int option" where
  "parse_digits acc [] = Some acc"
| "parse_digits acc (c # cs) = (if is_digit c then parse_digits (10 * acc + digit_val c) cs else None)"

definition parse_uint :: "string \<Rightarrow> int option" where
  "parse_uint s = (if s = [] then None else parse_digits 0 s)"

text \<open>
  \<open>strconv.ParseInt (s, 10, 64)\<close> and \<open>strconv.Atoi\<close>: an optional sign and at least one digit, and
  an error (\<open>None\<close>) when the value does not fit in 64 bits.
\<close>

definition parse_int :: "string \<Rightarrow> int64 option" where
  "parse_int s =
     (case s of
        [] \<Rightarrow> None
      | c # cs \<Rightarrow>
          (case (if c = CHR ''-'' then map_option uminus (parse_uint cs)
                 else if c = CHR ''+'' then parse_uint cs
                 else parse_uint s) of
             None \<Rightarrow> None
           | Some v \<Rightarrow> if in_int64 v then Some v else None))"

section \<open>Package encoding/hex\<close>

definition hex_digit :: "nat \<Rightarrow> char" where
  "hex_digit d = (if d < 10 then char_of (48 + d) else char_of (87 + d))"

definition hex_encode :: "8 word list \<Rightarrow> string" where
  "hex_encode bs = concat (map (\<lambda>b. [hex_digit (unat b div 16), hex_digit (unat b mod 16)]) bs)"

definition hex_val :: "char \<Rightarrow> nat option" where
  "hex_val c =
     (let n = of_char c :: nat in
      if 48 \<le> n \<and> n \<le> 57 then Some (n - 48)
      else if 97 \<le> n \<and> n \<le> 102 then Some (n - 87)
      else if 65 \<le> n \<and> n \<le> 70 then Some (n - 55) else None)"

fun hex_decode :: "string \<Rightarrow> 8 word list option" where
  "hex_decode [] = Some []"
| "hex_decode [c] = None"
| "hex_decode (a # b # cs) =
     (case (hex_val a, hex_val b, hex_decode cs) of
        (Some x, Some y, Some bs) \<Rightarrow> Some (word_of_nat (16 * x + y) # bs)
      | _ \<Rightarrow> None)"

text \<open>A Go \<open>[]byte(s)\<close> conversion and back.\<close>

definition bytes_of :: "string \<Rightarrow> 8 word list" where
  "bytes_of s = map (\<lambda>c. word_of_nat (of_char c)) s"

definition string_of :: "8 word list \<Rightarrow> string" where
  "string_of bs = map (\<lambda>b. char_of (unat b)) bs"

section \<open>Separators\<close>

lemma index_byte_append: "c \<notin> set p \<Longrightarrow> index_byte (p @ c # q) c = Some (length p)"
  by (induction p) auto

lemma index_byte_Some:
  "index_byte s c = Some i \<Longrightarrow> i < length s \<and> s ! i = c \<and> c \<notin> set (take i s)"
proof (induction s arbitrary: i)
  case (Cons x xs)
  then show ?case by (cases "x = c") auto
qed simp

lemma index_byte_split: "index_byte s c = Some i \<Longrightarrow> s = take i s @ c # drop (Suc i) s"
  using id_take_nth_drop [of i s] index_byte_Some [of s c i] by auto

lemma has_prefix_iff: "has_prefix s p \<longleftrightarrow> (\<exists>r. s = p @ r)"
  by (induction s p rule: has_prefix.induct) auto

lemma has_prefix_append [simp]: "has_prefix (p @ r) p"
  by (auto simp: has_prefix_iff)

lemma split_n_hit: "c \<notin> set p \<Longrightarrow> split_n (Suc (Suc n)) c (p @ c # q) = p # split_n (Suc n) c q"
  by (simp add: index_byte_append)

lemma split_n_two: "c \<notin> set p \<Longrightarrow> split_n 2 c (p @ c # q) = [p, q]"
  by (simp add: numeral_2_eq_2 index_byte_append)

lemma length_split_n: "length (split_n n c s) \<le> n"
  by (induction n c s rule: split_n.induct) (auto split: option.splits)

text \<open>Joining what \<open>SplitN\<close> returns with the separator gives the string back.\<close>

fun join :: "char \<Rightarrow> string list \<Rightarrow> string" where
  "join c [] = []"
| "join c [s] = s"
| "join c (s # t # ts) = s @ c # join c (t # ts)"

lemma split_n_nonempty: "split_n (Suc n) c s \<noteq> []"
  by (cases n) (auto split: option.splits)

lemma join_split_n: "join c (split_n (Suc n) c s) = s"
proof (induction "Suc n" c s arbitrary: n rule: split_n.induct)
  case (3 n c s)
  show ?case
  proof (cases "index_byte s c")
    case (Some i)
    obtain t ts where ts: "split_n (Suc n) c (drop (Suc i) s) = t # ts"
      using split_n_nonempty by (meson list.exhaust)
    then have "join c (t # ts) = drop (Suc i) s" using "3" [OF Some] by simp
    with Some ts index_byte_split [OF Some] show ?thesis by simp
  qed simp
qed simp

lemma split_n_parts:
  "i < length (split_n n c s) - 1 \<Longrightarrow> c \<notin> set (split_n n c s ! i)"
proof (induction n c s arbitrary: i rule: split_n.induct)
  case (3 n c s)
  show ?case
  proof (cases "index_byte s c")
    case (Some j)
    then show ?thesis
      using "3.IH" [OF Some] "3.prems" index_byte_Some [OF Some]
      by (cases i) (auto simp: less_diff_conv)
  qed (use "3.prems" in simp)
qed auto

lemma trim_left_no_lead: "trim_left s c = [] \<or> hd (trim_left s c) \<noteq> c"
  using hd_dropWhile [of "\<lambda>x. x = c" s] by (auto simp: trim_left_def)

lemma trim_left_id: "s = [] \<or> hd s \<noteq> c \<Longrightarrow> trim_left s c = s"
  by (cases s) (auto simp: trim_left_def)

section \<open>Numbers: printing then parsing\<close>

lemma digit_char_props:
  assumes "0 \<le> d" "d < 10"
  shows "is_digit (digit_char d)" and "digit_val (digit_char d) = d"
proof -
  have "(of_char (digit_char d) :: nat) = nat (48 + d)"
    using assms by (simp add: digit_char_def)
  with assms show "is_digit (digit_char d)" "digit_val (digit_char d) = d"
    by (auto simp: is_digit_def digit_val_def)
qed

lemma parse_digits_append:
  "parse_digits acc (xs @ ys) =
     (case parse_digits acc xs of None \<Rightarrow> None | Some a \<Rightarrow> parse_digits a ys)"
  by (induction xs arbitrary: acc) auto

lemma parse_digits_format: "0 \<le> n \<Longrightarrow> parse_digits 0 (format_uint n) = Some n"
proof (induction n rule: format_uint.induct)
  case (1 n)
  then show ?case
    by (cases "n < 10") (simp_all add: format_uint.simps [of n] parse_digits_append digit_char_props)
qed

lemma format_uint_digits: "c \<in> set (format_uint n) \<Longrightarrow> 0 \<le> n \<Longrightarrow> is_digit c"
proof (induction n rule: format_uint.induct)
  case (1 n)
  then show ?case
    by (cases "n < 10") (auto simp: format_uint.simps [of n] digit_char_props)
qed

lemma format_uint_nonempty [simp]: "format_uint n \<noteq> []"
  by (subst format_uint.simps) simp

lemma parse_uint_format [simp]: "0 \<le> n \<Longrightarrow> parse_uint (format_uint n) = Some n"
  by (simp add: parse_uint_def parse_digits_format)

lemma format_uint_hd_digit: "0 \<le> n \<Longrightarrow> is_digit (hd (format_uint n))"
  by (rule format_uint_digits [of _ n]) simp_all

lemma not_digit_signs [simp]: "\<not> is_digit CHR ''-''" "\<not> is_digit CHR ''+''" "\<not> is_digit CHR ''_''"
  "\<not> is_digit CHR '' ''" "\<not> is_digit CHR '']''" "\<not> is_digit CHR ''[''"
  by (simp_all add: is_digit_def)

lemma parse_int_unsigned:
  assumes "is_digit (hd s)" "s \<noteq> []"
  shows "parse_int s = (case parse_uint s of None \<Rightarrow> None
           | Some n \<Rightarrow> if in_int64 n then Some n else None)"
  using assms by (cases s) (auto simp: parse_int_def split: option.splits)

lemma parse_format_int: "in_int64 n \<Longrightarrow> parse_int (format_int n) = Some n"
  by (cases "n < 0")
    (simp_all add: format_int_def parse_int_def [of "_ # _"] parse_int_unsigned format_uint_hd_digit)

lemma format_int_nonempty [simp]: "format_int n \<noteq> []"
  by (simp add: format_int_def)

lemma format_int_chars: "c \<in> set (format_int n) \<Longrightarrow> is_digit c \<or> c = CHR ''-''"
  by (cases "n < 0") (auto simp: format_int_def dest: format_uint_digits)

lemma format_int_no_sep:
  "CHR ''_'' \<notin> set (format_int n)" "CHR '' '' \<notin> set (format_int n)" "CHR '']'' \<notin> set (format_int n)"
  by (auto dest: format_int_chars)

lemma parse_int_in_range: "parse_int s = Some v \<Longrightarrow> in_int64 v"
  by (auto simp: parse_int_def split: list.splits option.splits if_splits)

section \<open>Hexadecimal\<close>

lemma hex_val_digit: "d < 16 \<Longrightarrow> hex_val (hex_digit d) = Some d"
  by (simp add: hex_val_def hex_digit_def)

lemma hex_roundtrip: "hex_decode (hex_encode bs) = Some bs"
proof (induction bs)
  case (Cons b bs)
  have "unat b div 16 < 16" using unsigned_less [of b, where ?'a = nat] by simp
  with Cons show ?case by (simp add: hex_encode_def hex_val_digit)
qed (simp add: hex_encode_def)

lemma length_hex_encode [simp]: "length (hex_encode bs) = 2 * length bs"
  by (induction bs) (simp_all add: hex_encode_def)

lemma hex_encode_inj: "hex_encode a = hex_encode b \<longleftrightarrow> a = b"
  by (metis hex_roundtrip option.inject)

lemma hex_decode_length: "hex_decode s = Some bs \<Longrightarrow> length s = 2 * length bs"
  by (induction s arbitrary: bs rule: hex_decode.induct) (auto split: option.splits)

lemma string_bytes [simp]: "string_of (bytes_of s) = s"
  by (simp add: string_of_def bytes_of_def comp_def take_bit_eq_mod unsigned_of_nat map_idI)

lemma bytes_string [simp]: "bytes_of (string_of bs) = bs"
proof -
  have "word_of_nat (of_char (char_of (unat b))) = b" for b :: "8 word"
    using unsigned_less [of b, where ?'a = nat] by simp
  then show ?thesis by (simp add: string_of_def bytes_of_def comp_def map_idI)
qed

lemma strip_one_Nil [simp]: "strip_one ps [] = None"
proof (induction ps)
  case (Cons p ps)
  then show ?case by (cases p) auto
qed simp

lemma trim_space_Nil [simp]: "trim_space [] = []"
  by (simp add: trim_space_def strip_all.simps [of _ "[]"])

end
