(* ===== verification/Go_Crypto.thy ===== *)
theory Go_Crypto
  imports Go_Strings
begin

text \<open>
  The cryptographic and encoding part of Go's standard library that the program uses:
  \<open>crypto/sha256\<close> (FIPS 180-4), \<open>crypto/hmac\<close> over it (RFC 2104), \<open>crypto/subtle\<close> and
  \<open>encoding/base64\<close> with the unpadded URL alphabet. The hash is a computing definition, so a key's
  stored hash is a function of the key and not an uninterpreted symbol. Random bytes
  (\<open>crypto/rand\<close>) are arguments of the operations that draw them.
\<close>

unbundle bit_operations_syntax

type_synonym u8 = "8 word"
type_synonym u32 = "32 word"

section \<open>SHA-256\<close>

definition sha_k :: "u32 list" where
  "sha_k =
    [1116352408, 1899447441, 3049323471, 3921009573, 961987163, 1508970993, 2453635748,
     2870763221, 3624381080, 310598401, 607225278, 1426881987, 1925078388, 2162078206,
     2614888103, 3248222580, 3835390401, 4022224774, 264347078, 604807628, 770255983,
     1249150122, 1555081692, 1996064986, 2554220882, 2821834349, 2952996808, 3210313671,
     3336571891, 3584528711, 113926993, 338241895, 666307205, 773529912, 1294757372,
     1396182291, 1695183700, 1986661051, 2177026350, 2456956037, 2730485921, 2820302411,
     3259730800, 3345764771, 3516065817, 3600352804, 4094571909, 275423344, 430227734,
     506948616, 659060556, 883997877, 958139571, 1322822218, 1537002063, 1747873779,
     1955562222, 2024104815, 2227730452, 2361852424, 2428436474, 2756734187, 3204031479,
     3329325298]"

type_synonym sha_state = "u32 \<times> u32 \<times> u32 \<times> u32 \<times> u32 \<times> u32 \<times> u32 \<times> u32"

definition sha_h0 :: sha_state where
  "sha_h0 = (1779033703, 3144134277, 1013904242, 2773480762, 1359893119, 2600822924, 528734635, 1541459225)"

definition big_sigma0 :: "u32 \<Rightarrow> u32" where
  "big_sigma0 x = word_rotr 2 x XOR word_rotr 13 x XOR word_rotr 22 x"

definition big_sigma1 :: "u32 \<Rightarrow> u32" where
  "big_sigma1 x = word_rotr 6 x XOR word_rotr 11 x XOR word_rotr 25 x"

definition small_sigma0 :: "u32 \<Rightarrow> u32" where
  "small_sigma0 x = word_rotr 7 x XOR word_rotr 18 x XOR drop_bit 3 x"

definition small_sigma1 :: "u32 \<Rightarrow> u32" where
  "small_sigma1 x = word_rotr 17 x XOR word_rotr 19 x XOR drop_bit 10 x"

definition sha_ch :: "u32 \<Rightarrow> u32 \<Rightarrow> u32 \<Rightarrow> u32" where
  "sha_ch x y z = (x AND y) XOR (NOT x AND z)"

definition sha_maj :: "u32 \<Rightarrow> u32 \<Rightarrow> u32 \<Rightarrow> u32" where
  "sha_maj x y z = (x AND y) XOR (x AND z) XOR (y AND z)"

text \<open>The message schedule, kept newest first: \<open>n\<close> more words on top of the sixteen of the block.\<close>

fun sha_extend :: "nat \<Rightarrow> u32 list \<Rightarrow> u32 list" where
  "sha_extend 0 w = w"
| "sha_extend (Suc n) w =
     sha_extend n ((small_sigma1 (w ! 1) + w ! 6 + small_sigma0 (w ! 14) + w ! 15) # w)"

fun sha_rounds :: "(u32 \<times> u32) list \<Rightarrow> sha_state \<Rightarrow> sha_state" where
  "sha_rounds [] st = st"
| "sha_rounds ((k, w) # kws) (a, b, c, d, e, f, g, h) =
     (let t1 = h + big_sigma1 e + sha_ch e f g + k + w;
          t2 = big_sigma0 a + sha_maj a b c
      in sha_rounds kws (t1 + t2, a, b, c, d + t1, e, f, g))"

definition sha_add :: "sha_state \<Rightarrow> sha_state \<Rightarrow> sha_state" where
  "sha_add s t =
     (case s of (a, b, c, d, e, f, g, h) \<Rightarrow> case t of (a', b', c', d', e', f', g', h') \<Rightarrow>
        (a + a', b + b', c + c', d + d', e + e', f + f', g + g', h + h'))"

definition sha_block :: "sha_state \<Rightarrow> u32 list \<Rightarrow> sha_state" where
  "sha_block st blk = sha_add st (sha_rounds (zip sha_k (rev (sha_extend 48 (rev blk)))) st)"

definition sha_words :: "sha_state \<Rightarrow> u32 list" where
  "sha_words s = (case s of (a, b, c, d, e, f, g, h) \<Rightarrow> [a, b, c, d, e, f, g, h])"

definition word32_be :: "u8 list \<Rightarrow> u32" where
  "word32_be bs = foldl (\<lambda>acc b. acc * 256 + ucast b) 0 bs"

definition bytes_be :: "nat \<Rightarrow> int \<Rightarrow> u8 list" where
  "bytes_be n x = map (\<lambda>i. word_of_int (x div 256 ^ i)) (rev [0..<n])"

fun chunks :: "nat \<Rightarrow> nat \<Rightarrow> 'a list \<Rightarrow> 'a list list" where
  "chunks 0 n xs = []"
| "chunks (Suc k) n xs = take n xs # chunks k n (drop n xs)"

definition sha_pad :: "u8 list \<Rightarrow> u8 list" where
  "sha_pad m =
     m @ [0x80] @ replicate ((119 - length m mod 64) mod 64) 0 @ bytes_be 8 (8 * int (length m))"

definition sha256 :: "u8 list \<Rightarrow> u8 list" where
  "sha256 m =
     (let p = sha_pad m;
          blks = map (\<lambda>b. map word32_be (chunks 16 4 b)) (chunks (length p div 64) 64 p)
      in concat (map (\<lambda>w. bytes_be 4 (uint w)) (sha_words (foldl sha_block sha_h0 blks))))"

section \<open>HMAC-SHA256\<close>

definition hmac_key :: "u8 list \<Rightarrow> u8 list" where
  "hmac_key k = (let k' = (if length k > 64 then sha256 k else k) in k' @ replicate (64 - length k') 0)"

definition hmac_sha256 :: "u8 list \<Rightarrow> u8 list \<Rightarrow> u8 list" where
  "hmac_sha256 k m =
     sha256 (map (\<lambda>b. b XOR 0x5c) (hmac_key k) @ sha256 (map (\<lambda>b. b XOR 0x36) (hmac_key k) @ m))"

text \<open>\<open>subtle.ConstantTimeCompare\<close> and \<open>hmac.Equal\<close>: one exactly when the contents are equal.\<close>

definition constant_time_compare :: "'a list \<Rightarrow> 'a list \<Rightarrow> int" where
  "constant_time_compare a b =
     (if length a \<noteq> length b then 0 else if list_all2 (=) a b then 1 else 0)"

lemma constant_time_compare_iff [simp]: "constant_time_compare a b = 1 \<longleftrightarrow> a = b"
  by (auto simp: constant_time_compare_def list.rel_eq)

section \<open>Base64, raw URL alphabet\<close>

definition b64_char :: "nat \<Rightarrow> char" where
  "b64_char v =
     (if v < 26 then char_of (65 + v) else if v < 52 then char_of (71 + v)
      else if v < 62 then char_of (v - 4) else if v = 62 then CHR ''-'' else CHR ''_'')"

definition b64_val :: "char \<Rightarrow> nat option" where
  "b64_val c =
     (let n = of_char c :: nat in
      if 65 \<le> n \<and> n \<le> 90 then Some (n - 65)
      else if 97 \<le> n \<and> n \<le> 122 then Some (n - 71)
      else if 48 \<le> n \<and> n \<le> 57 then Some (n + 4)
      else if n = 45 then Some 62 else if n = 95 then Some 63 else None)"

fun b64_encode :: "u8 list \<Rightarrow> string" where
  "b64_encode [] = []"
| "b64_encode [x] = map b64_char [unat x div 4, (unat x mod 4) * 16]"
| "b64_encode [x, y] =
     map b64_char [unat x div 4, (unat x mod 4) * 16 + unat y div 16, (unat y mod 16) * 4]"
| "b64_encode (x # y # z # bs) =
     map b64_char [unat x div 4, (unat x mod 4) * 16 + unat y div 16,
                   (unat y mod 16) * 4 + unat z div 64, unat z mod 64] @ b64_encode bs"

fun b64_quads :: "nat list \<Rightarrow> u8 list option" where
  "b64_quads [] = Some []"
| "b64_quads [a] = None"
| "b64_quads [a, b] = Some [word_of_nat (a * 4 + b div 16)]"
| "b64_quads [a, b, c] = Some [word_of_nat (a * 4 + b div 16), word_of_nat (b mod 16 * 16 + c div 4)]"
| "b64_quads (a # b # c # d # vs) =
     map_option (\<lambda>bs. word_of_nat (a * 4 + b div 16) # word_of_nat (b mod 16 * 16 + c div 4)
                       # word_of_nat (c mod 4 * 64 + d) # bs) (b64_quads vs)"

fun traverse :: "('a \<Rightarrow> 'b option) \<Rightarrow> 'a list \<Rightarrow> 'b list option" where
  "traverse f [] = Some []"
| "traverse f (x # xs) =
     (case f x of None \<Rightarrow> None | Some y \<Rightarrow> map_option (Cons y) (traverse f xs))"

text \<open>\<open>DecodeString\<close> skips carriage returns and newlines, and rejects any other foreign byte.\<close>

definition b64_decode :: "string \<Rightarrow> u8 list option" where
  "b64_decode s =
     (case traverse b64_val (filter (\<lambda>c. of_char c \<noteq> (10::nat) \<and> of_char c \<noteq> (13::nat)) s) of
        None \<Rightarrow> None | Some vs \<Rightarrow> b64_quads vs)"

section \<open>Laws\<close>

lemma b64_val_char: "v < 64 \<Longrightarrow> b64_val (b64_char v) = Some v"
  by (auto simp: b64_val_def b64_char_def Let_def)

fun sextets :: "u8 list \<Rightarrow> nat list" where
  "sextets [] = []"
| "sextets [x] = [unat x div 4, (unat x mod 4) * 16]"
| "sextets [x, y] = [unat x div 4, (unat x mod 4) * 16 + unat y div 16, (unat y mod 16) * 4]"
| "sextets (x # y # z # bs) =
     [unat x div 4, (unat x mod 4) * 16 + unat y div 16,
      (unat y mod 16) * 4 + unat z div 64, unat z mod 64] @ sextets bs"

lemma unat_u8: "unat (x :: u8) < 256"
  using unsigned_less [of x, where ?'a = nat] by simp

lemma u8_div_small: "unat (x :: u8) div 4 < 64" "unat x div 16 < 16" "unat x div 64 < 4"
  using unat_u8 [of x] by auto

lemma b64_encode_sextets: "b64_encode bs = map b64_char (sextets bs)"
  by (induction bs rule: b64_encode.induct) simp_all

lemma mod_mult_small: "k < 16 \<Longrightarrow> (n::nat) mod 4 * 16 + k < 64" "k < 4 \<Longrightarrow> n mod 16 * 4 + k < 64"
proof -
  have "n mod 4 < 4" "n mod 16 < 16" by simp_all
  then show "k < 16 \<Longrightarrow> n mod 4 * 16 + k < 64" "k < 4 \<Longrightarrow> n mod 16 * 4 + k < 64"
    by linarith+
qed

lemma sextets_small: "list_all (\<lambda>v. v < 64) (sextets bs)"
  using mod_mult_small(1) [of 0] mod_mult_small(2) [of 0]
  by (induction bs rule: sextets.induct) (simp_all only: sextets.simps append.simps list.pred_inject
      u8_div_small mod_mult_small add_0_right zero_less_numeral mod_less_divisor simp_thms)

lemma sextets_less: "v \<in> set (sextets bs) \<Longrightarrow> v < 64"
  using sextets_small by (auto simp: list_all_iff)

lemma merge_div_mod:
  "k < 16 \<Longrightarrow> ((m::nat) * 16 + k) div 16 = m" "k < 16 \<Longrightarrow> ((m::nat) * 16 + k) mod 16 = k"
  "k < 4 \<Longrightarrow> ((m::nat) * 4 + k) div 4 = m" "k < 4 \<Longrightarrow> ((m::nat) * 4 + k) mod 4 = k"
  by simp_all

lemma byte_of_sextets:
  fixes x y z :: u8
  shows "word_of_nat (unat x div 4 * 4 + (unat x mod 4 * 16) div 16) = x"
    and "word_of_nat (unat x div 4 * 4 + (unat x mod 4 * 16 + unat y div 16) div 16) = x"
    and "word_of_nat ((unat x mod 4 * 16 + unat y div 16) mod 16 * 16 + (unat y mod 16 * 4) div 4) = y"
    and "word_of_nat ((unat x mod 4 * 16 + unat y div 16) mod 16 * 16
                        + (unat y mod 16 * 4 + unat z div 64) div 4) = y"
    and "word_of_nat ((unat y mod 16 * 4 + unat z div 64) mod 4 * 64 + unat z mod 64) = z"
proof -
  have a: "unat x div 4 * 4 + (unat x mod 4 * 16) div 16 = unat x"
    and b: "unat x div 4 * 4 + (unat x mod 4 * 16 + unat y div 16) div 16 = unat x"
    and c: "(unat x mod 4 * 16 + unat y div 16) mod 16 * 16 + (unat y mod 16 * 4) div 4 = unat y"
    and d: "(unat x mod 4 * 16 + unat y div 16) mod 16 * 16
              + (unat y mod 16 * 4 + unat z div 64) div 4 = unat y"
    and e: "(unat y mod 16 * 4 + unat z div 64) mod 4 * 64 + unat z mod 64 = unat z"
    by (simp_all only: merge_div_mod u8_div_small mult_0_right add_0_right div_mult_self_is_m
        zero_less_numeral div_mult_mod_eq)
  show "word_of_nat (unat x div 4 * 4 + (unat x mod 4 * 16) div 16) = x" unfolding a by simp
  show "word_of_nat (unat x div 4 * 4 + (unat x mod 4 * 16 + unat y div 16) div 16) = x"
    unfolding b by simp
  show "word_of_nat ((unat x mod 4 * 16 + unat y div 16) mod 16 * 16 + (unat y mod 16 * 4) div 4) = y"
    unfolding c by simp
  show "word_of_nat ((unat x mod 4 * 16 + unat y div 16) mod 16 * 16
                        + (unat y mod 16 * 4 + unat z div 64) div 4) = y" unfolding d by simp
  show "word_of_nat ((unat y mod 16 * 4 + unat z div 64) mod 4 * 64 + unat z mod 64) = z"
    unfolding e by simp
qed

lemma b64_quads_sextets: "b64_quads (sextets bs) = Some bs"
  by (induction bs rule: sextets.induct)
    (simp_all only: sextets.simps b64_quads.simps append.simps byte_of_sextets option.map)

lemma traverse_map: "(\<And>x. x \<in> set xs \<Longrightarrow> f (g x) = Some x) \<Longrightarrow> traverse f (map g xs) = Some xs"
  by (induction xs) auto

lemma b64_encode_chars: "c \<in> set (b64_encode bs) \<Longrightarrow> b64_val c \<noteq> None"
  by (auto simp: b64_encode_sextets b64_val_char dest: sextets_less)

lemma b64_encode_no_dot: "CHR ''.'' \<notin> set (b64_encode bs)"
proof
  assume "CHR ''.'' \<in> set (b64_encode bs)"
  then have "b64_val CHR ''.'' \<noteq> None" by (rule b64_encode_chars)
  then show False by (simp add: b64_val_def)
qed

lemma b64_encode_no_newline:
  "filter (\<lambda>c. of_char c \<noteq> (10::nat) \<and> of_char c \<noteq> (13::nat)) (b64_encode bs) = b64_encode bs"
proof (rule filter_True, rule ballI)
  fix c assume "c \<in> set (b64_encode bs)"
  then have "b64_val c \<noteq> None" by (rule b64_encode_chars)
  then show "of_char c \<noteq> (10::nat) \<and> of_char c \<noteq> (13::nat)"
    by (auto simp: b64_val_def Let_def split: if_splits)
qed

lemma b64_roundtrip: "b64_decode (b64_encode bs) = Some bs"
proof -
  have "traverse b64_val (b64_encode bs) = Some (sextets bs)"
    unfolding b64_encode_sextets by (rule traverse_map) (simp add: b64_val_char sextets_less)
  then show ?thesis by (simp add: b64_decode_def b64_encode_no_newline b64_quads_sextets)
qed

lemma length_bytes_be [simp]: "length (bytes_be n x) = n"
  by (simp add: bytes_be_def)

lemma length_concat_const: "(\<And>x. x \<in> set xs \<Longrightarrow> length (f x) = k) \<Longrightarrow> length (concat (map f xs)) = k * length xs"
  by (induction xs) auto

lemma length_sha_words: "length (sha_words s) = 8"
  by (simp add: sha_words_def split: prod.splits)

lemma length_sha256 [simp]: "length (sha256 m) = 32"
  by (simp add: sha256_def Let_def length_concat_const [where k = 4] length_sha_words)

lemma length_hmac_sha256 [simp]: "length (hmac_sha256 k m) = 32"
  by (simp add: hmac_sha256_def)

end
