(* ===== verification/App_Config.thy ===== *)
theory App_Config
  imports Go_Crypto
begin

text \<open>
  \<open>internal/config\<close>: reading and validating the environment. The environment and the file system are
  arguments (\<open>getenv\<close>, \<open>stat\<close>). \<open>time.ParseDuration\<close> is modelled up to its fractions, which are computed
  in floating point: what a fraction of a unit adds is the argument \<open>frac\<close>.
\<close>

section \<open>Durations\<close>

text \<open>\<open>leadingInt\<close>: the leading digits as a number, refused beyond \<open>2 ^ 63\<close>.\<close>

fun leadingInt :: "int \<Rightarrow> string \<Rightarrow> (int \<times> string) option" where
  "leadingInt x [] = Some (x, [])"
| "leadingInt x (c # cs) =
     (if \<not> is_digit c then Some (x, c # cs)
      else if x > 2 ^ 63 div 10 then None
      else let y = x * 10 + digit_val c in if y > 2 ^ 63 then None else leadingInt y cs)"

text \<open>\<open>leadingFraction\<close>: the digits after the point and the power of ten they are divided by; digits that
  no longer fit are skipped.\<close>

fun leadingFraction :: "int \<Rightarrow> int \<Rightarrow> bool \<Rightarrow> string \<Rightarrow> int \<times> int \<times> string" where
  "leadingFraction x scale full [] = (x, scale, [])"
| "leadingFraction x scale full (c # cs) =
     (if \<not> is_digit c then (x, scale, c # cs)
      else if full \<or> x > (2 ^ 63 - 1) div 10 \<or> x * 10 + digit_val c > 2 ^ 63 then leadingFraction x scale True cs
      else leadingFraction (x * 10 + digit_val c) (scale * 10) False cs)"

definition unitMap :: "(string \<times> int) list" where
  "unitMap =
     [(''ns'', 1), (''us'', 1000), ([CHR 0xC2, CHR 0xB5, CHR ''s''], 1000), ([CHR 0xCE, CHR 0xBC, CHR ''s''], 1000),
      (''ms'', 1000000), (''s'', second), (''m'', minute), (''h'', hour)]"

text \<open>One number with its unit; the rest is shorter, so the loop ends.\<close>

definition duration_item :: "(int \<Rightarrow> int \<Rightarrow> int \<Rightarrow> int) \<Rightarrow> string \<Rightarrow> (int \<times> string) option" where
  "duration_item frac s =
     (if s = [] \<or> \<not> (hd s = CHR ''.'' \<or> is_digit (hd s)) then None
      else case leadingInt 0 s of
        None \<Rightarrow> None
      | Some (v, s1) \<Rightarrow>
          (let pre = (length s1 \<noteq> length s);
               point = (s1 \<noteq> [] \<and> hd s1 = CHR ''.'');
               (f, scale, s2) = (if point then leadingFraction 0 1 False (tl s1) else (0, 1, s1));
               post = (point \<and> length s2 \<noteq> length (tl s1));
               u = takeWhile (\<lambda>c. \<not> (c = CHR ''.'' \<or> is_digit c)) s2
           in if \<not> pre \<and> \<not> post then None
              else if u = [] then None
              else case map_of unitMap u of
                None \<Rightarrow> None
              | Some unit \<Rightarrow>
                  if v > 2 ^ 63 div unit then None
                  else (let w = (if f > 0 then v * unit + frac f scale unit else v * unit) in
                        if f > 0 \<and> w > 2 ^ 63 then None else Some (w, drop (length u) s2))))"

lemma leadingInt_shorter: "leadingInt x s = Some (v, s') \<Longrightarrow> length s' \<le> length s"
  by (induction x s rule: leadingInt.induct) (auto simp: Let_def split: if_splits)

lemma leadingFraction_shorter: "leadingFraction x scale full s = (f, sc, s') \<Longrightarrow> length s' \<le> length s"
  by (induction x scale full s rule: leadingFraction.induct) (auto split: if_splits)

lemma duration_item_shorter: "duration_item frac s = Some (v, s') \<Longrightarrow> length s' < length s"
proof -
  assume a: "duration_item frac s = Some (v, s')"
  then obtain v1 s1 where 1: "leadingInt 0 s = Some (v1, s1)" by (auto simp: duration_item_def split: if_splits option.splits)
  define x where "x = (if s1 \<noteq> [] \<and> hd s1 = CHR ''.'' then leadingFraction 0 1 False (tl s1) else (0, 1, s1))"
  obtain f scale s2 where 2: "x = (f, scale, s2)" by (cases x)
  have "length s2 \<le> length s1" using 2 leadingFraction_shorter [of 0 1 False "tl s1"] by (auto simp: x_def split: if_splits)
  moreover have "\<exists>u. u \<noteq> [] \<and> u = takeWhile (\<lambda>c. \<not> (c = CHR ''.'' \<or> is_digit c)) s2 \<and> s' = drop (length u) s2"
    using a 1 2 by (auto simp: duration_item_def Let_def x_def [symmetric] split: if_splits option.splits)
  ultimately show ?thesis using leadingInt_shorter [OF 1] by (cases s2) auto
qed

text \<open>\<open>d += v\<close> is unsigned 64-bit addition: two terms of \<open>2 ^ 63\<close> add up to zero.\<close>

function duration_sum :: "(int \<Rightarrow> int \<Rightarrow> int \<Rightarrow> int) \<Rightarrow> int \<Rightarrow> string \<Rightarrow> int option" where
  "duration_sum frac d s =
     (if s = [] then Some d
      else case duration_item frac s of
        None \<Rightarrow> None
      | Some (v, s') \<Rightarrow> let d' = (d + v) mod 2 ^ 64 in if d' > 2 ^ 63 then None else duration_sum frac d' s')"
  by pat_completeness auto
termination
  by (relation "measure (\<lambda>(frac, d, s). length s)") (auto dest: duration_item_shorter)

definition ParseDuration :: "(int \<Rightarrow> int \<Rightarrow> int \<Rightarrow> int) \<Rightarrow> string \<Rightarrow> time option" where
  "ParseDuration frac s0 =
     (let signed = (s0 \<noteq> [] \<and> (hd s0 = CHR ''-'' \<or> hd s0 = CHR ''+'')); neg = (signed \<and> hd s0 = CHR ''-'');
          s = (if signed then tl s0 else s0)
      in if s = ''0'' then Some 0
         else if s = [] then None
         else case duration_sum frac 0 s of
           None \<Rightarrow> None
         | Some d \<Rightarrow> if neg then Some (- d) else if d > 2 ^ 63 - 1 then None else Some d)"

section \<open>Configuration\<close>

record app_config =
  SigNozEndpoint :: string
  SigNozIngestKey :: string
  ProxyPort :: string
  AdminPort :: string
  AdminListenAddr :: string
  DBPath :: string
  SessionSigningKey :: "u8 list"
  AdminCookieSecure :: bool
  MaxBodyBytes :: int64
  UsageRetentionDays :: int64
  TrustProxyHeaders :: bool
  SyslogEnabled :: bool
  SyslogListenAddr :: string
  SyslogServerCertFile :: string
  SyslogServerKeyFile :: string
  SyslogClientCAFile :: string
  SyslogMaxFrameBytes :: int64
  SyslogMaxConnections :: int64
  SyslogMaxConnsPerTenant :: int64
  SyslogConnIdleTimeout :: time
  SyslogCollectorAddr :: string
  CAEnabled :: bool
  CAEndpoint :: string
  CAProvisionerName :: string
  CAProvisionerKey :: string
  CAProvisionerKeyFile :: string
  CARootCertFile :: string
  CACertLifetime :: string
  CARenewalListenAddr :: string
  CAExternalHostname :: string
  CASyslogRelayPort :: int64

type_synonym getenv = "string \<Rightarrow> string"

definition envOrDefault :: "getenv \<Rightarrow> string \<Rightarrow> string \<Rightarrow> string" where
  "envOrDefault getenv key fallback = (let v = getenv key in if v \<noteq> '''' then v else fallback)"

text \<open>\<open>strconv.Atoi\<close> and \<open>ParseInt\<close> agree on 64-bit platforms.\<close>

definition envOrDefaultInt :: "getenv \<Rightarrow> string \<Rightarrow> int64 \<Rightarrow> int64" where
  "envOrDefaultInt getenv key fallback =
     (let v = getenv key in
      if v = '''' then fallback
      else case parse_int v of None \<Rightarrow> fallback | Some n \<Rightarrow> if n \<le> 0 then fallback else n)"

definition envOrDefaultInt64 :: "getenv \<Rightarrow> string \<Rightarrow> int64 \<Rightarrow> int64" where
  "envOrDefaultInt64 getenv key fallback =
     (let v = getenv key in
      if v = '''' then fallback
      else case parse_int v of None \<Rightarrow> fallback | Some n \<Rightarrow> if n \<le> 0 then fallback else n)"

definition defaultAdminListen :: string where
  "defaultAdminListen = ''127.0.0.1:8080''"

definition admin_listen :: "getenv \<Rightarrow> string" where
  "admin_listen getenv =
     (let listenAddr = getenv ''ADMIN_LISTEN_ADDR'' in
      if listenAddr \<noteq> '''' \<and> listenAddr \<noteq> defaultAdminListen then listenAddr
      else if getenv ''ADMIN_PORT'' \<noteq> '''' then '':'' @ envOrDefault getenv ''ADMIN_PORT'' ''8080''
      else defaultAdminListen)"

text \<open>The struct literal at the start, every other field at its zero value.\<close>

definition initial_config :: "getenv \<Rightarrow> app_config" where
  "initial_config getenv =
     \<lparr>SigNozEndpoint = getenv ''SIGNOZ_ENDPOINT'', SigNozIngestKey = getenv ''SIGNOZ_INGESTION_KEY'',
      ProxyPort = envOrDefault getenv ''PROXY_PORT'' ''4318'', AdminPort = envOrDefault getenv ''ADMIN_PORT'' ''8080'',
      AdminListenAddr = admin_listen getenv, DBPath = envOrDefault getenv ''DB_PATH'' ''./tenants.db'', SessionSigningKey = [],
      AdminCookieSecure = False, MaxBodyBytes = envOrDefaultInt64 getenv ''MAX_BODY_BYTES'' 4194304,
      UsageRetentionDays = envOrDefaultInt getenv ''USAGE_RETENTION_DAYS'' 90, TrustProxyHeaders = False,
      SyslogEnabled = False, SyslogListenAddr = '''', SyslogServerCertFile = '''', SyslogServerKeyFile = '''', SyslogClientCAFile = '''',
      SyslogMaxFrameBytes = 0, SyslogMaxConnections = 0, SyslogMaxConnsPerTenant = 0, SyslogConnIdleTimeout = 0, SyslogCollectorAddr = '''',
      CAEnabled = False, CAEndpoint = '''', CAProvisionerName = '''', CAProvisionerKey = '''', CAProvisionerKeyFile = '''',
      CARootCertFile = '''', CACertLifetime = '''', CARenewalListenAddr = '''', CAExternalHostname = '''', CASyslogRelayPort = 0\<rparr>"

definition signing_key_of :: "string \<Rightarrow> u8 list result" where
  "signing_key_of keyHex =
     (if keyHex = '''' then Inl (Msg ''SESSION_SIGNING_KEY is required (generate: openssl rand -hex 32)'')
      else case hex_decode keyHex of
        None \<Rightarrow> Inl (Msg ''SESSION_SIGNING_KEY must be valid hex'')
      | Some key \<Rightarrow>
          if length key < 32 then Inl (Msg ''SESSION_SIGNING_KEY must be at least 32 bytes (64 hex chars)'') else Inr key)"

definition syslog_settings :: "getenv \<Rightarrow> app_config \<Rightarrow> app_config" where
  "syslog_settings getenv c = c\<lparr>CAEnabled := (getenv ''CA_ENABLED'' = ''true''), SyslogEnabled := (getenv ''SYSLOG_ENABLED'' = ''true''),
     SyslogListenAddr := envOrDefault getenv ''SYSLOG_LISTEN_ADDR'' '':6514'',
     SyslogCollectorAddr := envOrDefault getenv ''SYSLOG_COLLECTOR_ADDR'' ''127.0.0.1:5140'',
     SyslogMaxFrameBytes := envOrDefaultInt getenv ''SYSLOG_MAX_FRAME_BYTES'' 65536,
     SyslogMaxConnections := envOrDefaultInt getenv ''SYSLOG_MAX_CONNECTIONS'' 1000,
     SyslogMaxConnsPerTenant := envOrDefaultInt getenv ''SYSLOG_MAX_CONNS_PER_TENANT'' 50\<rparr>"

text \<open>The certificate authority's variables, and the checks they have to pass, in the source's order.\<close>

definition ca_settings :: "getenv \<Rightarrow> app_config \<Rightarrow> app_config" where
  "ca_settings getenv c = c\<lparr>CAEndpoint := getenv ''CA_ENDPOINT'', CAProvisionerName := getenv ''CA_PROVISIONER_NAME'',
     CAProvisionerKey := getenv ''CA_PROVISIONER_KEY'', CAProvisionerKeyFile := getenv ''CA_PROVISIONER_KEY_FILE'',
     CARootCertFile := getenv ''CA_ROOT_CERT_FILE'', CACertLifetime := envOrDefault getenv ''CA_CERT_LIFETIME'' ''2160h'',
     CARenewalListenAddr := envOrDefault getenv ''CA_RENEWAL_LISTEN_ADDR'' '':6543'', CAExternalHostname := getenv ''CA_EXTERNAL_HOSTNAME'',
     CASyslogRelayPort := envOrDefaultInt getenv ''CA_SYSLOG_RELAY_PORT'' 6514\<rparr>"

definition ca_check :: "(string \<Rightarrow> unit result) \<Rightarrow> app_config \<Rightarrow> app_config result" where
  "ca_check stat c =
     (if CAEndpoint c = '''' then Inl (Msg ''CA_ENABLED=true requires CA_ENDPOINT'')
      else if CAProvisionerName c = '''' then Inl (Msg ''CA_ENABLED=true requires CA_PROVISIONER_NAME'')
      else if CAProvisionerKey c = '''' \<and> CAProvisionerKeyFile c = ''''
      then Inl (Msg ''CA_ENABLED=true requires CA_PROVISIONER_KEY or CA_PROVISIONER_KEY_FILE'')
      else if CARootCertFile c = '''' then Inl (Msg ''CA_ENABLED=true requires CA_ROOT_CERT_FILE'')
      else if CAExternalHostname c = '''' then Inl (Msg ''CA_ENABLED=true requires CA_EXTERNAL_HOSTNAME'')
      else case stat (CARootCertFile c) of
        Inl _ \<Rightarrow> Inl (Msg (''cannot access CA_ROOT_CERT_FILE '' @ CARootCertFile c))
      | Inr _ \<Rightarrow> Inr c)"

definition tls_files :: "app_config \<Rightarrow> string list" where
  "tls_files c = [SyslogServerCertFile c, SyslogServerKeyFile c, SyslogClientCAFile c]"

fun stat_all :: "(string \<Rightarrow> unit result) \<Rightarrow> string list \<Rightarrow> unit result" where
  "stat_all stat [] = Inr ()"
| "stat_all stat (f # fs) = (case stat f of Inl _ \<Rightarrow> Inl (Msg (''cannot access '' @ f)) | Inr _ \<Rightarrow> stat_all stat fs)"

definition tls_check :: "getenv \<Rightarrow> (string \<Rightarrow> unit result) \<Rightarrow> app_config \<Rightarrow> app_config result" where
  "tls_check getenv stat c0 =
     (let c = c0\<lparr>SyslogServerCertFile := getenv ''SYSLOG_SERVER_CERT_FILE'', SyslogServerKeyFile := getenv ''SYSLOG_SERVER_KEY_FILE'',
            SyslogClientCAFile := getenv ''SYSLOG_CLIENT_CA_FILE''\<rparr>
      in if '''' \<in> set (tls_files c)
         then Inl (Msg (if CAEnabled c \<and> \<not> SyslogEnabled c
                then ''CA_ENABLED=true requires SYSLOG_SERVER_CERT_FILE, SYSLOG_SERVER_KEY_FILE, SYSLOG_CLIENT_CA_FILE (used by the renewal listener)''
                else ''SYSLOG_ENABLED=true requires SYSLOG_SERVER_CERT_FILE, SYSLOG_SERVER_KEY_FILE, SYSLOG_CLIENT_CA_FILE''))
         else case stat_all stat (tls_files c) of Inl e \<Rightarrow> Inl e | Inr _ \<Rightarrow> Inr c)"

text \<open>\<open>strings.ToLower\<close> on the one comparison made: no other character lowers to a letter of \<open>false\<close>.\<close>

definition Load :: "(int \<Rightarrow> int \<Rightarrow> int \<Rightarrow> int) \<Rightarrow> getenv \<Rightarrow> (string \<Rightarrow> unit result) \<Rightarrow> app_config result" where
  "Load frac getenv stat =
     (case signing_key_of (getenv ''SESSION_SIGNING_KEY'') of
        Inl e \<Rightarrow> Inl e
      | Inr key \<Rightarrow>
          (let c = (initial_config getenv)\<lparr>SessionSigningKey := key,
                     AdminCookieSecure := (to_lower (getenv ''ADMIN_COOKIE_SECURE'') \<noteq> ''false''),
                     TrustProxyHeaders := (getenv ''TRUST_PROXY_HEADERS'' = ''true'')\<rparr>
           in if SigNozEndpoint c = '''' then Inl (Msg ''SIGNOZ_ENDPOINT is required'')
              else (let c1 = syslog_settings getenv c in
                    case ParseDuration frac (envOrDefault getenv ''SYSLOG_CONN_IDLE_TIMEOUT'' ''300s'') of
                      None \<Rightarrow> Inl (Msg ''SYSLOG_CONN_IDLE_TIMEOUT'')
                    | Some timeout \<Rightarrow>
                        (let c2 = c1\<lparr>SyslogConnIdleTimeout := timeout\<rparr> in
                         case (if CAEnabled c2 then ca_check stat (ca_settings getenv c2) else Inr c2) of
                           Inl e \<Rightarrow> Inl e
                         | Inr c3 \<Rightarrow> if SyslogEnabled c3 \<or> CAEnabled c3 then tls_check getenv stat c3 else Inr c3))))"

section \<open>Ranges\<close>

lemma envOrDefaultInt_range:
  "0 < fallback \<Longrightarrow> in_int64 fallback \<Longrightarrow> 0 < envOrDefaultInt g k fallback \<and> in_int64 (envOrDefaultInt g k fallback)"
  "0 < fallback \<Longrightarrow> in_int64 fallback \<Longrightarrow> 0 < envOrDefaultInt64 g k fallback \<and> in_int64 (envOrDefaultInt64 g k fallback)"
  by (auto simp: envOrDefaultInt_def envOrDefaultInt64_def Let_def split: option.splits dest: parse_int_in_range)

lemma signing_key_of_ok: "signing_key_of s = Inr key \<Longrightarrow> 32 \<le> length key \<and> hex_decode s = Some key"
  by (auto simp: signing_key_of_def split: if_splits option.splits)

lemma duration_sum_range: "duration_sum frac d s = Some x \<Longrightarrow> 0 \<le> d \<Longrightarrow> d \<le> 2 ^ 63 \<Longrightarrow> 0 \<le> x \<and> x \<le> 2 ^ 63"
proof (induction frac d s rule: duration_sum.induct)
  case (1 frac d s)
  show ?case
  proof (cases "s = []")
    case True then show ?thesis using "1.prems" by simp
  next
    case False
    with "1.prems"(1) obtain v s' where i: "duration_item frac s = Some (v, s')" and le: "\<not> (d + v) mod 2 ^ 64 > 2 ^ 63"
      and rest: "duration_sum frac ((d + v) mod 2 ^ 64) s' = Some x"
      by (subst (asm) duration_sum.simps) (auto simp del: duration_sum.simps simp: Let_def split: option.splits if_splits)
    show ?thesis using "1.IH" [OF False i refl refl le rest] le by simp
  qed
qed

text \<open>A parsed duration is a 64-bit number of nanoseconds.\<close>

lemma ParseDuration_range: "ParseDuration frac s = Some t \<Longrightarrow> in_int64 t"
  by (auto simp: ParseDuration_def Let_def in_int64_def simp del: duration_sum.simps split: if_splits option.splits
      dest!: duration_sum_range)

lemma stat_all_ok: "stat_all stat fs = Inr u \<Longrightarrow> f \<in> set fs \<Longrightarrow> stat f = Inr ()"
  by (induction stat fs rule: stat_all.induct) (auto split: sum.splits)

lemma ca_check_ok:
  "ca_check stat c = Inr c' \<Longrightarrow> c' = c \<and> CAEndpoint c \<noteq> '''' \<and> CAProvisionerName c \<noteq> '''' \<and>
     (CAProvisionerKey c \<noteq> '''' \<or> CAProvisionerKeyFile c \<noteq> '''') \<and> CAExternalHostname c \<noteq> '''' \<and>
     CARootCertFile c \<noteq> '''' \<and> stat (CARootCertFile c) = Inr ()"
  by (auto simp: ca_check_def split: if_splits sum.splits)

lemma tls_check_ok:
  assumes "tls_check getenv stat c = Inr c'"
  shows "(\<forall>f \<in> set (tls_files c'). f \<noteq> '''' \<and> stat f = Inr ()) \<and>
    c' = c\<lparr>SyslogServerCertFile := SyslogServerCertFile c', SyslogServerKeyFile := SyslogServerKeyFile c',
      SyslogClientCAFile := SyslogClientCAFile c'\<rparr>"
proof -
  let ?c = "c\<lparr>SyslogServerCertFile := getenv ''SYSLOG_SERVER_CERT_FILE'', SyslogServerKeyFile := getenv ''SYSLOG_SERVER_KEY_FILE'',
            SyslogClientCAFile := getenv ''SYSLOG_CLIENT_CA_FILE''\<rparr>"
  from assms have c': "c' = ?c" "'''' \<notin> set (tls_files ?c)" "stat_all stat (tls_files ?c) = Inr ()"
    by (auto simp: tls_check_def Let_def split: if_splits sum.splits)
  then show ?thesis using stat_all_ok [OF c'(3)] by auto
qed

definition config_ok :: "(string \<Rightarrow> unit result) \<Rightarrow> app_config \<Rightarrow> bool" where
  "config_ok stat c \<longleftrightarrow>
     32 \<le> length (SessionSigningKey c) \<and> SigNozEndpoint c \<noteq> '''' \<and> AdminListenAddr c \<noteq> '''' \<and> DBPath c \<noteq> '''' \<and>
     list_all (\<lambda>n. 0 < n \<and> in_int64 n) [MaxBodyBytes c, UsageRetentionDays c, SyslogMaxFrameBytes c, SyslogMaxConnections c,
       SyslogMaxConnsPerTenant c] \<and>
     in_int64 (SyslogConnIdleTimeout c) \<and>
     (SyslogEnabled c \<or> CAEnabled c \<longrightarrow> (\<forall>f \<in> set (tls_files c). f \<noteq> '''' \<and> stat f = Inr ())) \<and>
     (CAEnabled c \<longrightarrow> CAEndpoint c \<noteq> '''' \<and> CAProvisionerName c \<noteq> '''' \<and>
        (CAProvisionerKey c \<noteq> '''' \<or> CAProvisionerKeyFile c \<noteq> '''') \<and> CAExternalHostname c \<noteq> '''' \<and>
        CARootCertFile c \<noteq> '''' \<and> stat (CARootCertFile c) = Inr ())"

lemma loaded_config:
  assumes "Load frac getenv stat = Inr c"
  shows "config_ok stat c \<and> (AdminCookieSecure c \<longleftrightarrow> to_lower (getenv ''ADMIN_COOKIE_SECURE'') \<noteq> ''false'') \<and>
    (TrustProxyHeaders c \<longleftrightarrow> getenv ''TRUST_PROXY_HEADERS'' = ''true'')"
proof -
  from assms obtain key timeout b c3 where k: "signing_key_of (getenv ''SESSION_SIGNING_KEY'') = Inr key"
    and e: "getenv ''SIGNOZ_ENDPOINT'' \<noteq> ''''"
    and t: "ParseDuration frac (envOrDefault getenv ''SYSLOG_CONN_IDLE_TIMEOUT'' ''300s'') = Some timeout"
    and b: "b = (syslog_settings getenv ((initial_config getenv)\<lparr>SessionSigningKey := key,
                     AdminCookieSecure := (to_lower (getenv ''ADMIN_COOKIE_SECURE'') \<noteq> ''false''),
                     TrustProxyHeaders := (getenv ''TRUST_PROXY_HEADERS'' = ''true'')\<rparr>))\<lparr>SyslogConnIdleTimeout := timeout\<rparr>"
    and c3: "(if CAEnabled b then ca_check stat (ca_settings getenv b) else Inr b) = Inr c3"
    and c: "(if SyslogEnabled c3 \<or> CAEnabled c3 then tls_check getenv stat c3 else Inr c3) = Inr c"
    by (auto simp: Load_def Let_def initial_config_def split: sum.splits option.splits if_splits)
  let ?base = "\<lambda>c :: app_config. 32 \<le> length (SessionSigningKey c) \<and> SigNozEndpoint c \<noteq> '''' \<and> AdminListenAddr c \<noteq> '''' \<and> DBPath c \<noteq> '''' \<and>
     list_all (\<lambda>n. 0 < n \<and> in_int64 n) [MaxBodyBytes c, UsageRetentionDays c, SyslogMaxFrameBytes c, SyslogMaxConnections c,
       SyslogMaxConnsPerTenant c] \<and> in_int64 (SyslogConnIdleTimeout c) \<and>
     (AdminCookieSecure c \<longleftrightarrow> to_lower (getenv ''ADMIN_COOKIE_SECURE'') \<noteq> ''false'') \<and>
     (TrustProxyHeaders c \<longleftrightarrow> getenv ''TRUST_PROXY_HEADERS'' = ''true'')"
  have defaults: "in_int64 4194304" "in_int64 90" "in_int64 65536" "in_int64 1000" "in_int64 50" by (simp_all add: in_int64_def)
  have base: "?base b"
    using signing_key_of_ok [OF k] ParseDuration_range [OF t] e
    by (simp add: b initial_config_def syslog_settings_def admin_listen_def envOrDefault_def defaultAdminListen_def Let_def
        envOrDefaultInt_range defaults)
  have ca: "?base c3 \<and> (CAEnabled c3 \<longrightarrow> CAEndpoint c3 \<noteq> '''' \<and> CAProvisionerName c3 \<noteq> '''' \<and>
        (CAProvisionerKey c3 \<noteq> '''' \<or> CAProvisionerKeyFile c3 \<noteq> '''') \<and> CAExternalHostname c3 \<noteq> '''' \<and>
        CARootCertFile c3 \<noteq> '''' \<and> stat (CARootCertFile c3) = Inr ())"
  proof (cases "CAEnabled b")
    case True
    with c3 have x: "ca_check stat (ca_settings getenv b) = Inr c3" by simp
    from ca_check_ok [OF x] base show ?thesis by (auto simp: ca_settings_def)
  qed (use c3 base in auto)
  show ?thesis
  proof (cases "SyslogEnabled c3 \<or> CAEnabled c3")
    case True
    with c have x: "tls_check getenv stat c3 = Inr c" by simp
    note ok = tls_check_ok [OF x]
    obtain p q r where "c = c3\<lparr>SyslogServerCertFile := p, SyslogServerKeyFile := q, SyslogClientCAFile := r\<rparr>" using ok by blast
    with ok ca show ?thesis by (auto simp: config_ok_def)
  qed (use c ca in \<open>auto simp: config_ok_def\<close>)
qed

section \<open>Properties\<close>

text \<open>C33. A configuration that loads is complete: the signing key has at least 32 bytes, every number is
  positive and fits its type, the idle timeout is a 64-bit duration (of any sign), an optional
  subsystem has all its variables and its files exist; cookies are secure and forwarded headers are
  ignored unless the environment says otherwise.\<close>

theorem loaded_config_ok:
  assumes "Load frac getenv stat = Inr c"
  shows "config_ok stat c \<and> (AdminCookieSecure c \<longleftrightarrow> to_lower (getenv ''ADMIN_COOKIE_SECURE'') \<noteq> ''false'') \<and>
    (TrustProxyHeaders c \<longleftrightarrow> getenv ''TRUST_PROXY_HEADERS'' = ''true'')"
  by (rule loaded_config [OF assms])

definition demo_getenv :: getenv where
  "demo_getenv k =
     (if k = ''SESSION_SIGNING_KEY'' then replicate 64 CHR ''a'' else if k = ''SIGNOZ_ENDPOINT'' then ''http://signoz:4318''
      else if k = ''SYSLOG_ENABLED'' then ''true'' else if k = ''SYSLOG_SERVER_CERT_FILE'' then ''c''
      else if k = ''SYSLOG_SERVER_KEY_FILE'' then ''k'' else if k = ''SYSLOG_CLIENT_CA_FILE'' then ''ca'' else '''')"

lemma default_idle_timeout: "ParseDuration frac ''300s'' = Some (300 * second)"
proof -
  have "leadingInt 0 ''300s'' = Some (300, ''s'')" by code_simp
  moreover have "takeWhile (\<lambda>c. \<not> (c = CHR ''.'' \<or> is_digit c)) ''s'' = ''s''" by code_simp
  moreover have "is_digit CHR ''3''" by code_simp
  ultimately have "duration_item frac ''300s'' = Some (300 * second, [])" by (simp add: duration_item_def unitMap_def)
  then show ?thesis by (simp add: ParseDuration_def)
qed

lemma demo_config:
  "\<exists>c. Load (\<lambda>_ _ _. 0) demo_getenv (\<lambda>_. Inr ()) = Inr c \<and> SyslogEnabled c \<and> SyslogServerKeyFile c = ''k'' \<and> \<not> CAEnabled c"
proof -
  have "hex_decode (replicate 64 CHR ''a'') \<noteq> None" by code_simp
  then obtain key where k: "hex_decode (replicate 64 CHR ''a'') = Some key" by blast
  then have "length key = 32" using hex_decode_length by fastforce
  with k have "signing_key_of (replicate 64 CHR ''a'') = Inr key" by (simp add: signing_key_of_def)
  then show ?thesis
    by (simp add: Load_def demo_getenv_def initial_config_def syslog_settings_def envOrDefault_def default_idle_timeout Let_def
        tls_check_def tls_files_def)
qed

theorem loaded_config_ok_witness:
  "\<exists>c. Load (\<lambda>_ _ _. 0) demo_getenv (\<lambda>_. Inr ()) = Inr c \<and> SyslogEnabled c \<and> SyslogServerKeyFile c = ''k'' \<and> config_ok (\<lambda>_. Inr ()) c"
  using demo_config loaded_config_ok by blast

lemma parse_digits_grow: "parse_digits acc ds = Some v \<Longrightarrow> 0 \<le> acc \<Longrightarrow> acc \<le> v"
proof (induction ds arbitrary: acc)
  case (Cons c ds)
  then have c: "is_digit c" "parse_digits (10 * acc + digit_val c) ds = Some v" by (auto split: if_splits)
  then have "0 \<le> digit_val c" by (simp add: is_digit_def digit_val_def)
  with Cons.IH [OF c(2)] Cons.prems(2) show ?case by simp
qed simp

lemma leadingInt_digits:
  assumes "parse_digits acc ds = Some v" "0 \<le> acc" "v < 2 ^ 63" "\<not> is_digit c"
  shows "leadingInt acc (ds @ c # cs) = Some (v, c # cs)"
  using assms
proof (induction ds arbitrary: acc)
  case (Cons x ds)
  then have x: "is_digit x" "parse_digits (10 * acc + digit_val x) ds = Some v" by (auto split: if_splits)
  then have d: "0 \<le> digit_val x" by (simp add: is_digit_def digit_val_def)
  have le: "10 * acc + digit_val x \<le> v" using parse_digits_grow [OF x(2)] d Cons.prems(2) by simp
  then have "acc \<le> 2 ^ 63 div 10" using d Cons.prems(3) by simp
  then show ?case using x d le Cons.IH [OF x(2)] Cons.prems by (simp add: mult.commute [of acc])
qed simp

lemma duration_sum_seconds:
  assumes "0 \<le> n" and "n * second < 2 ^ 63"
  shows "duration_sum frac 0 (format_uint n @ ''s'') = Some (n * second)"
proof -
  have small: "n < 2 ^ 63" "n \<le> 2 ^ 63 div second" using assms by simp_all
  have s: "\<not> is_digit CHR ''s''" by code_simp
  have l: "leadingInt 0 (format_uint n @ ''s'') = Some (n, ''s'')"
    using leadingInt_digits [OF parse_digits_format [OF assms(1)] _ small(1) s, of "[]"] by simp
  have "is_digit (hd (format_uint n))" by (rule format_uint_hd_digit) (rule assms(1))
  then have i: "duration_item frac (format_uint n @ ''s'') = Some (n * second, [])"
    using l s small(2) by (simp add: duration_item_def unitMap_def)
  have "(0 + n * second) mod 2 ^ 64 = n * second" using assms by simp
  then show ?thesis using i assms(2) by (subst duration_sum.simps) simp
qed

lemma ParseDuration_unsigned:
  assumes "0 \<le> n" and "n * second < 2 ^ 63"
  shows "ParseDuration frac (format_uint n @ ''s'') = Some (n * second)"
proof -
  have "is_digit (hd (format_uint n))" by (rule format_uint_hd_digit) (rule assms(1))
  then have "hd (format_uint n) \<noteq> CHR ''-''" "hd (format_uint n) \<noteq> CHR ''+''" by (auto simp: is_digit_def)
  then show ?thesis using duration_sum_seconds [OF assms, of frac] assms(2)
    by (simp add: ParseDuration_def Let_def del: duration_sum.simps)
qed

text \<open>A whole number of seconds is parsed to that many seconds, up to the largest that fits in 64 bits of
  nanoseconds; a negative number keeps its sign.\<close>

lemma duration_of_seconds:
  assumes "0 \<le> n" and "n * second < 2 ^ 63"
  shows "ParseDuration frac (format_uint n @ ''s'') = Some (n * second) \<and>
     (0 < n \<longrightarrow> ParseDuration frac (format_int (- n) @ ''s'') = Some (- n * second))"
proof -
  have s: "ParseDuration frac (format_uint n @ ''s'') = Some (n * second)" by (rule ParseDuration_unsigned) (use assms in simp_all)
  moreover have "ParseDuration frac (format_int (- n) @ ''s'') = Some (- n * second)" if "0 < n"
    using duration_sum_seconds [OF assms, of frac] that
    by (simp add: ParseDuration_def format_int_def Let_def del: duration_sum.simps)
  ultimately show ?thesis by blast
qed

end
