(* ===== verification/Store_Schema.thy ===== *)
theory Store_Schema
  imports Go_Crypto
begin

text \<open>
  The SQLite database of \<open>internal/store\<close>: one record per table of
  \<open>migrations/0001_init.sql\<close>, the database as the record of its tables, and how a statement runs.
  SQL is a language the program is written in, so each statement of the source is a function on the
  tables. The engine underneath can fail at any statement (I/O error, cancelled context, closed
  database); which statements fail is a script the database carries (\<open>db_faults\<close>), so every
  theorem holds for every pattern of failures. A failed statement has no effect.

  Timestamps are instants. \<open>CURRENT_TIMESTAMP\<close> has a resolution of one second.
  The theory ends with the well-formedness invariant of the schema (keys, uniqueness, foreign keys).
\<close>

section \<open>Tables\<close>

record user_row =
  ur_id :: int64
  ur_username :: string
  ur_password :: string
  ur_created_at :: time

record tenant_row =
  tr_id :: int64
  tr_name :: string
  tr_api_key :: string
  tr_active :: int64
  tr_description :: string
  tr_rate_limit_rps :: "int64 option"
  tr_burst_bytes :: "int64 option"
  tr_daily_byte_quota :: "int64 option"
  tr_created_at :: time
  tr_updated_at :: time

record api_key_row =
  ak_id :: int64
  ak_tenant_id :: int64
  ak_key_hash :: string
  ak_key_prefix :: string
  ak_enabled :: int64
  ak_created_at :: time
  ak_last_used_at :: "time option"
  ak_revoked_at :: "time option"

record cert_row =
  ct_id :: int64
  ct_tenant_id :: int64
  ct_serial_number :: string
  ct_fingerprint :: string
  ct_subject_cn :: string
  ct_not_before :: "time option"
  ct_not_after :: "time option"
  ct_revoked_at :: "time option"
  ct_created_at :: time
  ct_last_seen_at :: "time option"

record counter_row =
  uc_tenant_id :: int64
  uc_signal_type :: string
  uc_hour_bucket :: string
  uc_requests :: int
  uc_bytes :: int
  uc_errors :: int

record log_row =
  ul_tenant_id :: int64
  ul_created_at :: time

text \<open>
  \<open>seq_*\<close> are the AUTOINCREMENT high-water marks: an id is never given out twice, not even after
  the row is deleted.
\<close>

record db =
  t_users :: "user_row list"
  t_tenants :: "tenant_row list"
  t_api_keys :: "api_key_row list"
  t_certificates :: "cert_row list"
  t_usage_counters :: "counter_row list"
  t_usage_logs :: "log_row list"
  seq_users :: int64
  seq_tenants :: int64
  seq_api_keys :: int64
  seq_certificates :: int64
  db_faults :: "bool list"

definition empty_db :: db where
  "empty_db = \<lparr>t_users = [], t_tenants = [], t_api_keys = [], t_certificates = [],
     t_usage_counters = [], t_usage_logs = [], seq_users = 0, seq_tenants = 0, seq_api_keys = 0,
     seq_certificates = 0, db_faults = []\<rparr>"

section \<open>Statements\<close>

definition next_fault :: "db \<Rightarrow> bool" where
  "next_fault d = (case db_faults d of [] \<Rightarrow> False | b # _ \<Rightarrow> b)"

definition pop_fault :: "db \<Rightarrow> db" where
  "pop_fault d = d\<lparr>db_faults := tl (db_faults d)\<rparr>"

text \<open>\<open>db.Exec\<close>: a data-changing statement; \<open>None\<close> is a constraint violation.\<close>

definition sql_exec :: "(db \<Rightarrow> db option) \<Rightarrow> db \<Rightarrow> unit result \<times> db" where
  "sql_exec f d =
     (if next_fault d then (Inl DBError, pop_fault d)
      else case f (pop_fault d) of
             None \<Rightarrow> (Inl ConstraintError, pop_fault d)
           | Some d' \<Rightarrow> (Inr (), d'))"

text \<open>\<open>db.Query\<close> / \<open>db.QueryRow\<close> followed by reading every row.\<close>

definition sql_query :: "(db \<Rightarrow> 'a) \<Rightarrow> db \<Rightarrow> 'a result \<times> db" where
  "sql_query f d =
     (if next_fault d then (Inl DBError, pop_fault d) else (Inr (f (pop_fault d)), pop_fault d))"

definition current_timestamp :: "time \<Rightarrow> time" where
  "current_timestamp now = unix now * second"

text \<open>The next AUTOINCREMENT id; SQLite refuses the insert once the largest id is in use.\<close>

definition next_id :: "int64 \<Rightarrow> int64 option" where
  "next_id s = (if s < 2 ^ 63 - 1 then Some (s + 1) else None)"

text \<open>\<open>ORDER BY f DESC\<close> and \<open>ORDER BY f\<close>; rows that compare equal keep their table order.\<close>

definition order_desc :: "('a \<Rightarrow> int) \<Rightarrow> 'a list \<Rightarrow> 'a list" where
  "order_desc f xs = sort_key (\<lambda>x. - f x) xs"

definition order_asc :: "('a \<Rightarrow> int) \<Rightarrow> 'a list \<Rightarrow> 'a list" where
  "order_asc f xs = sort_key f xs"

definition tenant_ids :: "db \<Rightarrow> int64 set" where
  "tenant_ids d = tr_id ` set (t_tenants d)"

lemma pop_fault_tables [simp]:
  "t_users (pop_fault d) = t_users d" "t_tenants (pop_fault d) = t_tenants d"
  "t_api_keys (pop_fault d) = t_api_keys d" "t_certificates (pop_fault d) = t_certificates d"
  "t_usage_counters (pop_fault d) = t_usage_counters d" "t_usage_logs (pop_fault d) = t_usage_logs d"
  "seq_users (pop_fault d) = seq_users d" "seq_tenants (pop_fault d) = seq_tenants d"
  "seq_api_keys (pop_fault d) = seq_api_keys d" "seq_certificates (pop_fault d) = seq_certificates d"
  "tenant_ids (pop_fault d) = tenant_ids d"
  by (simp_all add: pop_fault_def tenant_ids_def)

lemma set_order_desc [simp]: "set (order_desc f xs) = set xs"
  by (simp add: order_desc_def)

lemma set_order_asc [simp]: "set (order_asc f xs) = set xs"
  by (simp add: order_asc_def)

text \<open>A run in which nothing fails: the script of faults is used up.\<close>

definition healthy :: "db \<Rightarrow> bool" where
  "healthy d \<longleftrightarrow> db_faults d = []"

lemma healthy_simps [simp]:
  "healthy d \<Longrightarrow> next_fault d = False" "healthy d \<Longrightarrow> pop_fault d = d" "healthy (pop_fault d) = (length (db_faults d) \<le> 1)"
  by (auto simp: healthy_def next_fault_def pop_fault_def) (cases "db_faults d"; auto)+

lemma sql_query_healthy: "healthy d \<Longrightarrow> sql_query f d = (Inr (f d), d)"
  by (simp add: sql_query_def)

lemma sql_exec_healthy:
  "healthy d \<Longrightarrow> sql_exec f d = (case f d of None \<Rightarrow> (Inl ConstraintError, d) | Some d' \<Rightarrow> (Inr (), d'))"
  by (simp add: sql_exec_def split: option.splits)

lemma snd_sql_query [simp]: "snd (sql_query f d) = pop_fault d"
  by (simp add: sql_query_def)

section \<open>The schema invariant\<close>

text \<open>
  Primary keys, UNIQUE constraints, foreign keys (\<open>T\<close> is the set of tenant ids) and the
  AUTOINCREMENT marks, one predicate per table.
\<close>

definition ids_ok :: "int64 list \<Rightarrow> int64 \<Rightarrow> bool" where
  "ids_ok ids s \<longleftrightarrow> distinct ids \<and> set ids \<subseteq> {1..s} \<and> 0 \<le> s \<and> s < 2 ^ 63"

definition keys_ok :: "int64 set \<Rightarrow> api_key_row list \<Rightarrow> bool" where
  "keys_ok T ks \<longleftrightarrow> distinct (map ak_key_hash ks) \<and> ak_tenant_id ` set ks \<subseteq> T"

definition certs_ok :: "int64 set \<Rightarrow> cert_row list \<Rightarrow> bool" where
  "certs_ok T cs \<longleftrightarrow> distinct (map ct_fingerprint cs) \<and> ct_tenant_id ` set cs \<subseteq> T"

definition counter_pk :: "counter_row \<Rightarrow> int64 \<times> string \<times> string" where
  "counter_pk r = (uc_tenant_id r, uc_signal_type r, uc_hour_bucket r)"

definition counters_ok :: "int64 set \<Rightarrow> counter_row list \<Rightarrow> bool" where
  "counters_ok T cs \<longleftrightarrow> distinct (map counter_pk cs) \<and> uc_tenant_id ` set cs \<subseteq> T"

definition logs_ok :: "int64 set \<Rightarrow> log_row list \<Rightarrow> bool" where
  "logs_ok T ls \<longleftrightarrow> ul_tenant_id ` set ls \<subseteq> T"

definition db_inv :: "db \<Rightarrow> bool" where
  "db_inv d \<longleftrightarrow>
     ids_ok (map ur_id (t_users d)) (seq_users d) \<and> distinct (map ur_username (t_users d)) \<and>
     ids_ok (map tr_id (t_tenants d)) (seq_tenants d) \<and>
     ids_ok (map ak_id (t_api_keys d)) (seq_api_keys d) \<and>
     ids_ok (map ct_id (t_certificates d)) (seq_certificates d) \<and>
     keys_ok (tenant_ids d) (t_api_keys d) \<and>
     certs_ok (tenant_ids d) (t_certificates d) \<and>
     counters_ok (tenant_ids d) (t_usage_counters d) \<and>
     logs_ok (tenant_ids d) (t_usage_logs d)"

lemma ids_ok_snoc: "ids_ok ids s \<Longrightarrow> next_id s = Some i \<Longrightarrow> ids_ok (ids @ [i]) i"
  by (auto simp: ids_ok_def next_id_def split: if_splits)

lemma ids_ok_filter: "ids_ok (map f xs) s \<Longrightarrow> ids_ok (map f (filter P xs)) s"
  by (auto simp: ids_ok_def distinct_map_filter)

lemma table_ok_mono:
  assumes "T \<subseteq> T'"
  shows "keys_ok T ks \<Longrightarrow> keys_ok T' ks" "certs_ok T cs \<Longrightarrow> certs_ok T' cs" "counters_ok T us \<Longrightarrow> counters_ok T' us"
    "logs_ok T ls \<Longrightarrow> logs_ok T' ls"
  using assms by (auto simp: keys_ok_def certs_ok_def counters_ok_def logs_ok_def)

lemma table_ok_cascade:
  "keys_ok T ks \<Longrightarrow> keys_ok (T - {t}) (filter (\<lambda>r. ak_tenant_id r \<noteq> t) ks)"
  "certs_ok T cs \<Longrightarrow> certs_ok (T - {t}) (filter (\<lambda>r. ct_tenant_id r \<noteq> t) cs)"
  "counters_ok T us \<Longrightarrow> counters_ok (T - {t}) (filter (\<lambda>r. uc_tenant_id r \<noteq> t) us)"
  "logs_ok T ls \<Longrightarrow> logs_ok (T - {t}) (filter (\<lambda>r. ul_tenant_id r \<noteq> t) ls)"
  by (auto simp: keys_ok_def certs_ok_def counters_ok_def logs_ok_def distinct_map_filter)

lemma keys_ok_snoc:
  "keys_ok T (ks @ [k]) \<longleftrightarrow> keys_ok T ks \<and> ak_tenant_id k \<in> T \<and> ak_key_hash k \<notin> ak_key_hash ` set ks"
  by (auto simp: keys_ok_def)

lemma certs_ok_snoc:
  "certs_ok T (cs @ [c]) \<longleftrightarrow> certs_ok T cs \<and> ct_tenant_id c \<in> T \<and> ct_fingerprint c \<notin> ct_fingerprint ` set cs"
  by (auto simp: certs_ok_def)

lemmas table_ok_defs = ids_ok_def keys_ok_def certs_ok_def counters_ok_def logs_ok_def

lemma db_inv_empty: "db_inv empty_db"
  by (simp add: db_inv_def empty_db_def table_ok_defs)

lemma db_inv_pop_fault [simp]: "db_inv (pop_fault d) = db_inv d"
  by (simp add: db_inv_def)

text \<open>A statement keeps the invariant when its effect does, whether or not the engine fails.\<close>

lemma sql_exec_inv:
  assumes "db_inv d" and "\<And>e e'. db_inv e \<Longrightarrow> f e = Some e' \<Longrightarrow> db_inv e'"
  shows "db_inv (snd (sql_exec f d))"
  using assms(1) assms(2) [of "pop_fault d"] by (auto simp: sql_exec_def split: option.splits)

lemma sql_exec_eq_inv:
  "sql_exec f d = (r, d') \<Longrightarrow> db_inv d \<Longrightarrow> (\<And>e e'. db_inv e \<Longrightarrow> f e = Some e' \<Longrightarrow> db_inv e') \<Longrightarrow> db_inv d'"
  using sql_exec_inv [of d f] by simp

lemma sql_query_eq: "sql_query f d = (r, d') \<Longrightarrow> d' = pop_fault d"
  by (auto simp: sql_query_def split: if_splits)

lemma sql_query_Inr: "sql_query f d = (Inr x, d') \<longleftrightarrow> \<not> next_fault d \<and> x = f d' \<and> d' = pop_fault d"
  by (auto simp: sql_query_def)

lemma sql_exec_Inr: "sql_exec f d = (Inr u, d') \<longleftrightarrow> \<not> next_fault d \<and> f (pop_fault d) = Some d'"
  by (auto simp: sql_exec_def split: option.splits)

text \<open>Two statements in a row, the second only when the first succeeded.\<close>

lemma exec_two:
  assumes "P (snd (sql_exec f d))" and "\<And>d1. P d1 \<Longrightarrow> P (snd (sql_exec g d1))"
  shows "P (snd (case sql_exec f d of (Inl e, d1) \<Rightarrow> (Inl e, d1)
     | (Inr _, d1) \<Rightarrow> (case sql_exec g d1 of (Inl e, d2) \<Rightarrow> (Inl e, d2) | (Inr _, d2) \<Rightarrow> (Inr (), d2))))"
  using assms(1) assms(2) [of "snd (sql_exec f d)"]
  by (cases "sql_exec f d"; cases "sql_exec g (snd (sql_exec f d))") (auto split: sum.splits)

end
