(* ===== verification/Store_Tenants.thy ===== *)
theory Store_Tenants
  imports Store_Schema
begin

text \<open>
  \<open>internal/store/tenants.go\<close> and \<open>internal/store/apikeys.go\<close>: tenants, their API keys, and the
  resolution of a presented key to a tenant. The lemmas give the effect of every operation on the
  tables, that each keeps the schema invariant under every pattern of engine failures, and the
  exact condition under which a key authenticates.
\<close>

section \<open>The Go records\<close>

record tenant =
  ID :: int64
  Name :: string
  APIKey :: string
  KeyPrefix :: string
  Active :: bool
  Description :: string
  RateLimitRPS :: "int64 option"
  BurstBytes :: "int64 option"
  DailyByteQuota :: "int64 option"
  CreatedAt :: time
  UpdatedAt :: time

record rate_limit_params =
  lim_RateLimitRPS :: "int64 option"
  lim_BurstBytes :: "int64 option"
  lim_DailyByteQuota :: "int64 option"

definition no_limits :: rate_limit_params where
  "no_limits = \<lparr>lim_RateLimitRPS = None, lim_BurstBytes = None, lim_DailyByteQuota = None\<rparr>"

section \<open>Keys\<close>

text \<open>The 24 bytes of \<open>crypto/rand\<close> are the argument \<open>rnd\<close>.\<close>

definition GenerateAPIKeyV2 :: "u8 list \<Rightarrow> int64 \<Rightarrow> string" where
  "GenerateAPIKeyV2 rnd tenantID = ''ing_'' @ format_int tenantID @ ''_'' @ hex_encode rnd"

definition HashKey :: "string \<Rightarrow> string" where
  "HashKey fullKey = hex_encode (sha256 (bytes_of fullKey))"

text \<open>
  The source ranges over runes; a byte of 128 or more yields a rune that is no hexadecimal digit
  either way, so the test on bytes gives the same answer.
\<close>

definition isHex :: "string \<Rightarrow> bool" where
  "isHex s \<longleftrightarrow> list_all (\<lambda>c. let n = of_char c :: nat in (48 \<le> n \<and> n \<le> 57) \<or> (97 \<le> n \<and> n \<le> 102)) s"

section \<open>Reading tenants\<close>

definition active_key :: "int64 \<Rightarrow> api_key_row \<Rightarrow> bool" where
  "active_key tid ak \<longleftrightarrow> ak_tenant_id ak = tid \<and> ak_enabled ak = 1 \<and> ak_revoked_at ak = None"

text \<open>The scalar subquery of \<open>tenantSelect\<close>, with its \<open>COALESCE\<close>.\<close>

definition latest_key_prefix :: "db \<Rightarrow> int64 \<Rightarrow> string" where
  "latest_key_prefix d tid =
     (case order_desc ak_created_at (filter (active_key tid) (t_api_keys d)) of
        [] \<Rightarrow> [] | ak # _ \<Rightarrow> ak_key_prefix ak)"

definition tenant_of_row :: "tenant_row \<Rightarrow> string \<Rightarrow> tenant" where
  "tenant_of_row r prefix =
     \<lparr>ID = tr_id r, Name = tr_name r, APIKey = tr_api_key r, KeyPrefix = prefix,
      Active = (tr_active r = 1), Description = tr_description r, RateLimitRPS = tr_rate_limit_rps r,
      BurstBytes = tr_burst_bytes r, DailyByteQuota = tr_daily_byte_quota r,
      CreatedAt = tr_created_at r, UpdatedAt = tr_updated_at r\<rparr>"

definition scanTenant :: "db \<Rightarrow> tenant_row \<Rightarrow> tenant" where
  "scanTenant d r = tenant_of_row r (latest_key_prefix d (tr_id r))"

definition LookupTenantByID :: "int64 \<Rightarrow> db \<Rightarrow> tenant option result \<times> db" where
  "LookupTenantByID tid d =
     sql_query (\<lambda>d. map_option (scanTenant d) (find (\<lambda>r. tr_id r = tid) (t_tenants d))) d"

definition ListTenants :: "db \<Rightarrow> tenant list result \<times> db" where
  "ListTenants d = sql_query (\<lambda>d. map (scanTenant d) (order_desc tr_created_at (t_tenants d))) d"

section \<open>Changing tenants\<close>

definition insert_tenant ::
  "string \<Rightarrow> string \<Rightarrow> rate_limit_params \<Rightarrow> time \<Rightarrow> db \<Rightarrow> db option" where
  "insert_tenant name description limits now d =
     (case next_id (seq_tenants d) of None \<Rightarrow> None
      | Some i \<Rightarrow> Some (d\<lparr>seq_tenants := i,
          t_tenants := t_tenants d @
            [\<lparr>tr_id = i, tr_name = name, tr_api_key = '''', tr_active = 1, tr_description = description,
              tr_rate_limit_rps = lim_RateLimitRPS limits, tr_burst_bytes = lim_BurstBytes limits,
              tr_daily_byte_quota = lim_DailyByteQuota limits, tr_created_at = now, tr_updated_at = now\<rparr>]\<rparr>))"

definition insert_api_key :: "int64 \<Rightarrow> string \<Rightarrow> string \<Rightarrow> time \<Rightarrow> db \<Rightarrow> db option" where
  "insert_api_key tid keyHash keyPrefix now d =
     (if tid \<notin> tenant_ids d \<or> keyHash \<in> ak_key_hash ` set (t_api_keys d) then None
      else case next_id (seq_api_keys d) of None \<Rightarrow> None
      | Some i \<Rightarrow> Some (d\<lparr>seq_api_keys := i,
          t_api_keys := t_api_keys d @
            [\<lparr>ak_id = i, ak_tenant_id = tid, ak_key_hash = keyHash, ak_key_prefix = keyPrefix,
              ak_enabled = 1, ak_created_at = current_timestamp now, ak_last_used_at = None,
              ak_revoked_at = None\<rparr>]\<rparr>))"

text \<open>
  \<open>CreateTenant\<close>: two statements, not in a transaction. When the second fails the tenant stays,
  without a key.
\<close>

definition CreateTenant ::
  "u8 list \<Rightarrow> time \<Rightarrow> string \<Rightarrow> string \<Rightarrow> rate_limit_params option \<Rightarrow> db \<Rightarrow> tenant result \<times> db" where
  "CreateTenant rnd now name description limits d =
     (let lim = (case limits of None \<Rightarrow> no_limits | Some l \<Rightarrow> l) in
      case sql_exec (insert_tenant name description lim now) d of
        (Inl e, d1) \<Rightarrow> (Inl e, d1)
      | (Inr _, d1) \<Rightarrow>
          (let tid = seq_tenants d1;
               apiKey = GenerateAPIKeyV2 rnd tid;
               keyHash = HashKey apiKey;
               keyPrefix = take 12 apiKey
           in case sql_exec (insert_api_key tid keyHash keyPrefix now) d1 of
                (Inl e, d2) \<Rightarrow> (Inl e, d2)
              | (Inr _, d2) \<Rightarrow>
                  (Inr \<lparr>ID = tid, Name = name, APIKey = apiKey, KeyPrefix = keyPrefix, Active = True,
                        Description = description, RateLimitRPS = lim_RateLimitRPS lim,
                        BurstBytes = lim_BurstBytes lim, DailyByteQuota = lim_DailyByteQuota lim,
                        CreatedAt = now, UpdatedAt = now\<rparr>, d2)))"

definition update_tenant ::
  "int64 \<Rightarrow> string \<Rightarrow> string \<Rightarrow> int64 \<Rightarrow> rate_limit_params \<Rightarrow> time \<Rightarrow> db \<Rightarrow> db option" where
  "update_tenant tid name description activeInt limits now d =
     Some (d\<lparr>t_tenants := map (\<lambda>r. if tr_id r = tid
        then r\<lparr>tr_name := name, tr_active := activeInt, tr_description := description,
               tr_rate_limit_rps := lim_RateLimitRPS limits, tr_burst_bytes := lim_BurstBytes limits,
               tr_daily_byte_quota := lim_DailyByteQuota limits,
               tr_updated_at := current_timestamp now\<rparr>
        else r) (t_tenants d)\<rparr>)"

definition UpdateTenant ::
  "time \<Rightarrow> int64 \<Rightarrow> string \<Rightarrow> string \<Rightarrow> bool \<Rightarrow> rate_limit_params option \<Rightarrow> db \<Rightarrow> unit result \<times> db" where
  "UpdateTenant now tid name description active limits d =
     sql_exec (update_tenant tid name description (if active then 1 else 0)
                 (case limits of None \<Rightarrow> no_limits | Some l \<Rightarrow> l) now) d"

text \<open>The foreign keys are declared ON DELETE CASCADE and enforcement is on (\<open>foreign_keys(1)\<close>).\<close>

definition delete_tenant :: "int64 \<Rightarrow> db \<Rightarrow> db option" where
  "delete_tenant tid d =
     Some (d\<lparr>t_tenants := filter (\<lambda>r. tr_id r \<noteq> tid) (t_tenants d),
             t_api_keys := filter (\<lambda>r. ak_tenant_id r \<noteq> tid) (t_api_keys d),
             t_certificates := filter (\<lambda>r. ct_tenant_id r \<noteq> tid) (t_certificates d),
             t_usage_counters := filter (\<lambda>r. uc_tenant_id r \<noteq> tid) (t_usage_counters d),
             t_usage_logs := filter (\<lambda>r. ul_tenant_id r \<noteq> tid) (t_usage_logs d)\<rparr>)"

definition DeleteTenant :: "int64 \<Rightarrow> db \<Rightarrow> unit result \<times> db" where
  "DeleteTenant tid d = sql_exec (delete_tenant tid) d"

definition revoke_all_keys :: "int64 \<Rightarrow> time \<Rightarrow> db \<Rightarrow> db option" where
  "revoke_all_keys tid now d =
     Some (d\<lparr>t_api_keys := map (\<lambda>r. if ak_tenant_id r = tid \<and> ak_revoked_at r = None
        then r\<lparr>ak_revoked_at := Some (current_timestamp now)\<rparr> else r) (t_api_keys d)\<rparr>)"

definition RevokeAllKeysForTenant :: "time \<Rightarrow> int64 \<Rightarrow> db \<Rightarrow> unit result \<times> db" where
  "RevokeAllKeysForTenant now tid d = sql_exec (revoke_all_keys tid now) d"

definition CreateAPIKey :: "time \<Rightarrow> int64 \<Rightarrow> string \<Rightarrow> string \<Rightarrow> db \<Rightarrow> unit result \<times> db" where
  "CreateAPIKey now tid keyHash keyPrefix d = sql_exec (insert_api_key tid keyHash keyPrefix now) d"

definition RegenerateKey :: "u8 list \<Rightarrow> time \<Rightarrow> int64 \<Rightarrow> db \<Rightarrow> string result \<times> db" where
  "RegenerateKey rnd now tid d =
     (case RevokeAllKeysForTenant now tid d of
        (Inl e, d1) \<Rightarrow> (Inl e, d1)
      | (Inr _, d1) \<Rightarrow>
          (let apiKey = GenerateAPIKeyV2 rnd tid;
               keyHash = HashKey apiKey;
               keyPrefix = take 12 apiKey
           in case sql_exec (insert_api_key tid keyHash keyPrefix now) d1 of
                (Inl e, d2) \<Rightarrow> (Inl e, d2)
              | (Inr _, d2) \<Rightarrow> (Inr apiKey, d2)))"

section \<open>Authenticating a key\<close>

text \<open>
  The join of the two queries of \<open>LookupTenantByKey\<close>: candidate rows (hash, tenant). Neither query
  selects a key prefix.
\<close>

definition key_candidates :: "(api_key_row \<Rightarrow> bool) \<Rightarrow> db \<Rightarrow> (string \<times> tenant) list" where
  "key_candidates P d =
     concat (map (\<lambda>ak. map (\<lambda>t. (ak_key_hash ak, tenant_of_row t ''''))
                        (filter (\<lambda>t. ak_tenant_id ak = tr_id t \<and> tr_active t = 1) (t_tenants d)))
       (filter (\<lambda>ak. P ak \<and> ak_enabled ak = 1 \<and> ak_revoked_at ak = None) (t_api_keys d)))"

definition touch_key :: "string \<Rightarrow> time \<Rightarrow> db \<Rightarrow> db option" where
  "touch_key h now d =
     Some (d\<lparr>t_api_keys := map (\<lambda>r. if ak_key_hash r = h
        then r\<lparr>ak_last_used_at := Some (current_timestamp now)\<rparr> else r) (t_api_keys d)\<rparr>)"

text \<open>The best-effort update of \<open>last_used_at\<close> never fails the lookup.\<close>

definition matchCandidates ::
  "time \<Rightarrow> (string \<times> tenant) list \<Rightarrow> string \<Rightarrow> db \<Rightarrow> tenant option result \<times> db" where
  "matchCandidates now candidates keyHash d =
     (case find (\<lambda>c. constant_time_compare (fst c) keyHash = 1) candidates of
        None \<Rightarrow> (Inr None, d)
      | Some c \<Rightarrow> (Inr (Some (snd c)), snd (sql_exec (touch_key (fst c) now) d)))"

definition query_candidates ::
  "time \<Rightarrow> (api_key_row \<Rightarrow> bool) \<Rightarrow> string \<Rightarrow> db \<Rightarrow> tenant option result \<times> db" where
  "query_candidates now P keyHash d =
     (case sql_query (key_candidates P) d of
        (Inl e, d1) \<Rightarrow> (Inl e, d1)
      | (Inr cs, d1) \<Rightarrow> matchCandidates now cs keyHash d1)"

definition LookupTenantByKey :: "time \<Rightarrow> string \<Rightarrow> db \<Rightarrow> tenant option result \<times> db" where
  "LookupTenantByKey now fullKey d =
     (if has_prefix fullKey ''ing_'' then
        (let rest = drop 4 fullKey in
         case index_byte rest CHR ''_'' of
           None \<Rightarrow> (Inr None, d)
         | Some i \<Rightarrow>
             (case parse_int (take i rest) of
                None \<Rightarrow> (Inr None, d)
              | Some tenantID \<Rightarrow>
                  (let secret = drop (Suc i) rest in
                   if tenantID \<le> 0 then (Inr None, d)
                   else if length secret \<noteq> 48 \<or> \<not> isHex secret then (Inr None, d)
                   else query_candidates now (\<lambda>ak. ak_tenant_id ak = tenantID) (HashKey fullKey) d)))
      else if length fullKey \<noteq> 32 \<or> \<not> isHex fullKey then (Inr None, d)
      else query_candidates now (\<lambda>ak. ak_key_hash ak = HashKey fullKey) (HashKey fullKey) d)"

section \<open>Every statement keeps the schema invariant\<close>

lemma insert_tenant_inv:
  assumes "db_inv d" and "insert_tenant n ds l now d = Some d'"
  shows "db_inv d'"
proof -
  have "tenant_ids d \<subseteq> tenant_ids d'"
    using assms(2) by (auto simp: insert_tenant_def tenant_ids_def split: option.splits)
  note mono = table_ok_mono [OF this]
  from assms(2) obtain i r where d': "d' = d\<lparr>seq_tenants := i, t_tenants := t_tenants d @ [r]\<rparr>"
    and r: "tr_id r = i" and i: "next_id (seq_tenants d) = Some i"
    by (auto simp: insert_tenant_def split: option.splits)
  have "ids_ok (map tr_id (t_tenants d) @ [i]) i"
    using assms(1) ids_ok_snoc [OF _ i] unfolding db_inv_def by blast
  then show ?thesis
    using assms(1) mono r by (simp add: db_inv_def d')
qed

lemma insert_api_key_tables:
  assumes "insert_api_key t h p now d = Some d'"
  shows "t_tenants d' = t_tenants d" "tenant_ids d' = tenant_ids d" "t \<in> tenant_ids d"
    "h \<notin> ak_key_hash ` set (t_api_keys d)"
    "\<exists>i. next_id (seq_api_keys d) = Some i \<and> d' = d\<lparr>seq_api_keys := i, t_api_keys := t_api_keys d @
       [\<lparr>ak_id = i, ak_tenant_id = t, ak_key_hash = h, ak_key_prefix = p, ak_enabled = 1,
         ak_created_at = current_timestamp now, ak_last_used_at = None, ak_revoked_at = None\<rparr>]\<rparr>"
  using assms by (auto simp: insert_api_key_def tenant_ids_def split: option.splits if_splits)

lemma insert_api_key_inv:
  assumes "db_inv d" and "insert_api_key t h p now d = Some d'"
  shows "db_inv d'"
  using assms(1) insert_api_key_tables [OF assms(2)]
  by (auto simp: db_inv_def ids_ok_snoc keys_ok_snoc)

lemma map_tenants_inv:
  assumes "db_inv d" "\<And>r. tr_id (f r) = tr_id r"
  shows "db_inv (d\<lparr>t_tenants := map f (t_tenants d)\<rparr>)"
  using assms by (simp add: db_inv_def tenant_ids_def comp_def image_image)

lemma update_tenant_inv: "db_inv d \<Longrightarrow> update_tenant t n ds a l now d = Some d' \<Longrightarrow> db_inv d'"
  by (auto simp: update_tenant_def intro!: map_tenants_inv)

lemma delete_tenant_tables:
  assumes "delete_tenant t d = Some d'"
  shows "t_users d' = t_users d" "seq_users d' = seq_users d" "seq_tenants d' = seq_tenants d"
    "seq_api_keys d' = seq_api_keys d" "seq_certificates d' = seq_certificates d"
    "t_tenants d' = filter (\<lambda>r. tr_id r \<noteq> t) (t_tenants d)"
    "t_api_keys d' = filter (\<lambda>r. ak_tenant_id r \<noteq> t) (t_api_keys d)"
    "t_certificates d' = filter (\<lambda>r. ct_tenant_id r \<noteq> t) (t_certificates d)"
    "t_usage_counters d' = filter (\<lambda>r. uc_tenant_id r \<noteq> t) (t_usage_counters d)"
    "t_usage_logs d' = filter (\<lambda>r. ul_tenant_id r \<noteq> t) (t_usage_logs d)"
    "tenant_ids d' = tenant_ids d - {t}"
  using assms by (auto simp: delete_tenant_def tenant_ids_def)

lemma delete_tenant_inv:
  assumes "db_inv d" and "delete_tenant t d = Some d'"
  shows "db_inv d'"
  using assms(1) unfolding db_inv_def delete_tenant_tables [OF assms(2)]
  by (simp add: ids_ok_filter table_ok_cascade)

lemma map_api_keys_inv:
  assumes "db_inv d" "\<And>r. ak_id (f r) = ak_id r" "\<And>r. ak_key_hash (f r) = ak_key_hash r"
    and "\<And>r. ak_tenant_id (f r) = ak_tenant_id r"
  shows "db_inv (d\<lparr>t_api_keys := map f (t_api_keys d)\<rparr>)"
  using assms by (simp add: db_inv_def tenant_ids_def keys_ok_def comp_def image_image)

lemma revoke_all_keys_inv: "db_inv d \<Longrightarrow> revoke_all_keys t now d = Some d' \<Longrightarrow> db_inv d'"
  by (auto simp: revoke_all_keys_def intro!: map_api_keys_inv)

lemma touch_key_inv: "db_inv d \<Longrightarrow> touch_key h now d = Some d' \<Longrightarrow> db_inv d'"
  by (auto simp: touch_key_def intro!: map_api_keys_inv)

lemmas tenant_stmt_inv =
  insert_tenant_inv insert_api_key_inv update_tenant_inv delete_tenant_inv revoke_all_keys_inv touch_key_inv

lemmas tenant_exec_inv =
  sql_exec_eq_inv [OF _ _ insert_tenant_inv] sql_exec_eq_inv [OF _ _ insert_api_key_inv]
  sql_exec_eq_inv [OF _ _ revoke_all_keys_inv]

section \<open>Every operation keeps the schema invariant\<close>

lemma CreateTenant_inv [op_inv]: "db_inv d \<Longrightarrow> db_inv (snd (CreateTenant rnd now n ds l d))"
  by (auto simp: CreateTenant_def Let_def split: prod.splits sum.splits
      dest: tenant_exec_inv)

lemma UpdateTenant_inv [op_inv]: "db_inv d \<Longrightarrow> db_inv (snd (UpdateTenant now t n ds a l d))"
  by (auto simp: UpdateTenant_def intro!: sql_exec_inv intro: tenant_stmt_inv)

lemma DeleteTenant_inv [op_inv]: "db_inv d \<Longrightarrow> db_inv (snd (DeleteTenant t d))"
  by (auto simp: DeleteTenant_def intro!: sql_exec_inv intro: tenant_stmt_inv)

lemma RevokeAllKeysForTenant_inv [op_inv]: "db_inv d \<Longrightarrow> db_inv (snd (RevokeAllKeysForTenant now t d))"
  by (auto simp: RevokeAllKeysForTenant_def intro!: sql_exec_inv intro: tenant_stmt_inv)

lemma CreateAPIKey_inv [op_inv]: "db_inv d \<Longrightarrow> db_inv (snd (CreateAPIKey now t h p d))"
  by (auto simp: CreateAPIKey_def intro!: sql_exec_inv intro: tenant_stmt_inv)

lemma RegenerateKey_inv [op_inv]: "db_inv d \<Longrightarrow> db_inv (snd (RegenerateKey rnd now t d))"
  by (auto simp: RegenerateKey_def RevokeAllKeysForTenant_def Let_def split: prod.splits sum.splits
      dest: tenant_exec_inv)

lemma matchCandidates_inv: "db_inv d \<Longrightarrow> db_inv (snd (matchCandidates now cs h d))"
  by (simp add: matchCandidates_def sql_exec_inv touch_key_inv split: option.split)

lemma query_candidates_inv: "db_inv d \<Longrightarrow> db_inv (snd (query_candidates now P h d))"
  by (simp add: query_candidates_def sql_query_def matchCandidates_inv)

lemma LookupTenantByKey_inv [op_inv]: "db_inv d \<Longrightarrow> db_inv (snd (LookupTenantByKey now k d))"
  by (auto simp: LookupTenantByKey_def Let_def query_candidates_inv split: option.splits)

end
