(* ===== verification/Store_Keys.thy ===== *)
theory Store_Keys
  imports Store_Tenants
begin

text \<open>
  What the key operations of \<^theory_text>\<open>Store_Tenants\<close> guarantee: exactly when a key authenticates, that
  issued keys do, that regeneration and deletion revoke, and the contract of a credential source
  that the gateway's clients rely on.
\<close>

section \<open>When a key authenticates\<close>

text \<open>
  The format gate of \<open>LookupTenantByKey\<close> as one function: \<open>None\<close> for a malformed key, otherwise
  which key rows the query considers (the named tenant's rows for a current key, the rows with
  this hash for a legacy key).
\<close>

definition key_scope :: "string \<Rightarrow> (api_key_row \<Rightarrow> bool) option" where
  "key_scope k =
     (if has_prefix k ''ing_'' then
        (case index_byte (drop 4 k) CHR ''_'' of None \<Rightarrow> None
         | Some i \<Rightarrow>
             (case parse_int (take i (drop 4 k)) of None \<Rightarrow> None
              | Some tid \<Rightarrow>
                  if tid \<le> 0 \<or> length (drop (Suc i) (drop 4 k)) \<noteq> 48 \<or> \<not> isHex (drop (Suc i) (drop 4 k))
                  then None else Some (\<lambda>ak. ak_tenant_id ak = tid)))
      else if length k \<noteq> 32 \<or> \<not> isHex k then None
      else Some (\<lambda>ak. ak_key_hash ak = HashKey k))"

lemma LookupTenantByKey_scope:
  "LookupTenantByKey now k d =
     (case key_scope k of None \<Rightarrow> (Inr None, d) | Some P \<Rightarrow> query_candidates now P (HashKey k) d)"
  by (cases "has_prefix k ''ing_''")
    (simp_all add: LookupTenantByKey_def key_scope_def Let_def split: option.split)

text \<open>
  The specification of key authentication: the key is well formed, its hash is on file in an
  enabled, unrevoked row that its scope admits, and that row belongs to the active tenant \<open>r\<close>.
\<close>

definition live_key :: "db \<Rightarrow> (api_key_row \<Rightarrow> bool) \<Rightarrow> string \<Rightarrow> tenant_row \<Rightarrow> bool" where
  "live_key d P h r \<longleftrightarrow>
     r \<in> set (t_tenants d) \<and> tr_active r = 1 \<and>
     (\<exists>ak \<in> set (t_api_keys d). P ak \<and> ak_key_hash ak = h \<and> ak_tenant_id ak = tr_id r \<and>
        ak_enabled ak = 1 \<and> ak_revoked_at ak = None)"

definition key_holds :: "db \<Rightarrow> string \<Rightarrow> tenant_row \<Rightarrow> bool" where
  "key_holds d k r \<longleftrightarrow> (case key_scope k of None \<Rightarrow> False | Some P \<Rightarrow> live_key d P (HashKey k) r)"

lemma set_key_candidates:
  "(h, t) \<in> set (key_candidates P d) \<longleftrightarrow>
     (\<exists>r. live_key d P h r \<and> t = tenant_of_row r '''')"
  by (force simp: key_candidates_def live_key_def)

lemma distinct_map_eqD: "distinct (map f xs) \<Longrightarrow> x \<in> set xs \<Longrightarrow> y \<in> set xs \<Longrightarrow> f x = f y \<Longrightarrow> x = y"
  by (auto simp: distinct_map inj_on_def)

lemma live_key_unique:
  assumes "db_inv d" "live_key d P h r" "live_key d Q h r'"
  shows "r = r'"
proof -
  have u: "distinct (map ak_key_hash (t_api_keys d))" "distinct (map tr_id (t_tenants d))"
    using assms(1) by (simp_all add: db_inv_def keys_ok_def ids_ok_def)
  then have "tr_id r = tr_id r'"
    using assms(2,3) distinct_map_eqD [OF u(1)] by (auto simp: live_key_def) metis
  then show ?thesis
    using assms(2,3) distinct_map_eqD [OF u(2)] by (auto simp: live_key_def)
qed

lemma matchCandidates_iff:
  assumes "db_inv d"
  shows "fst (matchCandidates now (key_candidates P d) h e) = Inr (Some t)
           \<longleftrightarrow> (\<exists>r. live_key d P h r \<and> t = tenant_of_row r '''')"
proof
  assume "fst (matchCandidates now (key_candidates P d) h e) = Inr (Some t)"
  then obtain c where "find (\<lambda>c. fst c = h) (key_candidates P d) = Some c" "snd c = t"
    by (auto simp: matchCandidates_def split: option.splits)
  then have "(h, t) \<in> set (key_candidates P d)" using find_Some_mem by fastforce
  then show "\<exists>r. live_key d P h r \<and> t = tenant_of_row r ''''" by (simp add: set_key_candidates)
next
  assume "\<exists>r. live_key d P h r \<and> t = tenant_of_row r ''''"
  then obtain r where r: "live_key d P h r" "t = tenant_of_row r ''''" by blast
  then have mem: "(h, t) \<in> set (key_candidates P d)" by (auto simp: set_key_candidates)
  then obtain c where c: "find (\<lambda>c. fst c = h) (key_candidates P d) = Some c"
    by (cases "find (\<lambda>c. fst c = h) (key_candidates P d)") (auto simp: find_None_iff)
  then have "(h, snd c) \<in> set (key_candidates P d)" using find_Some_mem by fastforce
  then obtain r' where r': "live_key d P h r'" "snd c = tenant_of_row r' []"
    by (auto simp: set_key_candidates)
  have "r' = r" by (rule live_key_unique [OF assms r'(1) r(1)])
  with r r' have "snd c = t" by simp
  with c show "fst (matchCandidates now (key_candidates P d) h e) = Inr (Some t)"
    by (simp add: matchCandidates_def)
qed

lemma key_candidates_pop [simp]: "key_candidates P (pop_fault d) = key_candidates P d"
  by (simp add: key_candidates_def)

lemma live_key_cong:
  "t_tenants d' = t_tenants d \<Longrightarrow> t_api_keys d' = t_api_keys d \<Longrightarrow> live_key d' P h r = live_key d P h r"
  by (simp add: live_key_def)

lemma LookupTenantByKey_iff:
  assumes "db_inv d" "\<not> next_fault d"
  shows "fst (LookupTenantByKey now k d) = Inr (Some t)
           \<longleftrightarrow> (\<exists>r. key_holds d k r \<and> t = tenant_of_row r '''')"
  using assms matchCandidates_iff [of d now _ "HashKey k" "pop_fault d" t]
  by (auto simp: LookupTenantByKey_scope query_candidates_def sql_query_def key_holds_def split: option.splits)

lemma LookupTenantByKey_fault:
  "next_fault d \<Longrightarrow> fst (LookupTenantByKey now k d) \<in> {Inl DBError, Inr None}"
  by (auto simp: LookupTenantByKey_scope query_candidates_def sql_query_def split: option.split)

lemma LookupTenantByKey_error:
  "fst (LookupTenantByKey now k d) = Inl e \<longleftrightarrow> e = DBError \<and> next_fault d \<and> key_scope k \<noteq> None"
  by (auto simp: LookupTenantByKey_scope query_candidates_def sql_query_def matchCandidates_def
      split: option.split)

lemma key_holds_unique: "db_inv d \<Longrightarrow> key_holds d k r \<Longrightarrow> key_holds d k r' \<Longrightarrow> r = r'"
  by (auto simp: key_holds_def split: option.splits intro: live_key_unique)

text \<open>A lookup leaves every credential as it is: it writes \<open>last_used_at\<close> only.\<close>

lemma live_key_map:
  assumes "\<And>ak. P (f ak) = P ak" "\<And>ak. ak_key_hash (f ak) = ak_key_hash ak"
    "\<And>ak. ak_tenant_id (f ak) = ak_tenant_id ak" "\<And>ak. ak_enabled (f ak) = ak_enabled ak"
    "\<And>ak. ak_revoked_at (f ak) = ak_revoked_at ak"
  shows "live_key (d\<lparr>t_api_keys := map f (t_api_keys d)\<rparr>) P h r = live_key d P h r"
  by (simp add: live_key_def assms)

lemma touch_live_key:
  assumes "\<And>ak v. P (ak\<lparr>ak_last_used_at := v\<rparr>) = P ak" and "touch_key h' now d = Some d'"
  shows "live_key d' P h r = live_key d P h r"
proof -
  have d': "d' = d\<lparr>t_api_keys := map (\<lambda>r. if ak_key_hash r = h'
      then r\<lparr>ak_last_used_at := Some (current_timestamp now)\<rparr> else r) (t_api_keys d)\<rparr>"
    using assms(2) by (simp add: touch_key_def)
  show ?thesis unfolding d' by (rule live_key_map) (simp_all add: assms(1))
qed

lemma key_scope_touch:
  "key_scope k = Some P \<Longrightarrow> P (ak\<lparr>ak_last_used_at := v\<rparr>) = P ak"
  by (auto simp: key_scope_def split: if_splits option.splits)

lemma exec_touch_live_key:
  assumes "\<And>ak v. P (ak\<lparr>ak_last_used_at := v\<rparr>) = P ak"
  shows "live_key (snd (sql_exec (touch_key h' now) d)) P h r = live_key d P h r"
proof -
  obtain d' where d': "touch_key h' now (pop_fault d) = Some d'" by (simp add: touch_key_def)
  have "live_key d' P h r = live_key (pop_fault d) P h r"
    by (rule touch_live_key [OF assms d'])
  with d' show ?thesis by (simp add: sql_exec_def live_key_cong [of "pop_fault d" d])
qed

lemma LookupTenantByKey_frame:
  "key_holds (snd (LookupTenantByKey now k d)) k' r = key_holds d k' r"
  "t_tenants (snd (LookupTenantByKey now k d)) = t_tenants d"
proof -
  let ?d = "snd (LookupTenantByKey now k d)"
  have cases: "?d = d \<or> ?d = pop_fault d \<or> (\<exists>h. ?d = snd (sql_exec (touch_key h now) (pop_fault d)))"
    by (auto simp: LookupTenantByKey_scope query_candidates_def sql_query_def matchCandidates_def
        split: option.split)
  then show "key_holds ?d k' r = key_holds d k' r"
    by (auto simp: key_holds_def exec_touch_live_key key_scope_touch live_key_cong [of "pop_fault d" d]
        split: option.split)
  from cases show "t_tenants ?d = t_tenants d"
    by (auto simp: sql_exec_def touch_key_def)
qed

section \<open>Issued keys\<close>

lemma isHex_hex_encode: "isHex (hex_encode bs)"
proof -
  have "let n = of_char (hex_digit d) :: nat in (48 \<le> n \<and> n \<le> 57) \<or> (97 \<le> n \<and> n \<le> 102)"
    if "d < 16" for d
    using that by (simp add: hex_digit_def)
  moreover have "unat b div 16 < 16" "unat b mod 16 < 16" for b :: u8
    using unat_u8 [of b] by auto
  ultimately show ?thesis
    by (induction bs) (simp_all add: hex_encode_def isHex_def)
qed

text \<open>A generated key passes its own format gate and names its tenant.\<close>

lemma key_scope_generated:
  assumes "0 < tid" "in_int64 tid" "length rnd = 24"
  shows "key_scope (GenerateAPIKeyV2 rnd tid) = Some (\<lambda>ak. ak_tenant_id ak = tid)"
proof -
  have idx: "index_byte (format_int tid @ CHR ''_'' # hex_encode rnd) CHR ''_'' = Some (length (format_int tid))"
    by (rule index_byte_append) (rule format_int_no_sep)
  show ?thesis
    using assms by (simp add: key_scope_def GenerateAPIKeyV2_def idx parse_format_int isHex_hex_encode)
qed

lemma live_key_after_insert:
  assumes "insert_api_key tid h p now d = Some d'" "r \<in> set (t_tenants d)" "tr_id r = tid" "tr_active r = 1"
    and "\<And>ak. ak_tenant_id ak = tid \<Longrightarrow> P ak"
  shows "live_key d' P h r"
  using insert_api_key_tables(5) [OF assms(1)] assms(2-5) by (auto simp: live_key_def)

lemma db_inv_tenant_ids: "db_inv d \<Longrightarrow> tid \<in> tenant_ids d \<Longrightarrow> 0 < tid \<and> in_int64 tid"
proof -
  assume "db_inv d" "tid \<in> tenant_ids d"
  then have "tid \<in> {1..seq_tenants d}" "seq_tenants d < 2 ^ 63"
    unfolding db_inv_def ids_ok_def tenant_ids_def by auto
  then show ?thesis by (auto simp: in_int64_def)
qed

lemma generated_key_holds:
  assumes "db_inv d" "insert_api_key tid (HashKey k) p now d = Some d'" "k = GenerateAPIKeyV2 rnd tid"
    "length rnd = 24" "r \<in> set (t_tenants d)" "tr_id r = tid" "tr_active r = 1"
  shows "key_holds d' k r"
proof -
  have "0 < tid" "in_int64 tid"
    using db_inv_tenant_ids [OF assms(1) insert_api_key_tables(3) [OF assms(2)]] by auto
  then have "key_scope k = Some (\<lambda>ak. ak_tenant_id ak = tid)"
    using assms by (simp add: key_scope_generated)
  moreover have "live_key d' (\<lambda>ak. ak_tenant_id ak = tid) (HashKey k) r"
    by (rule live_key_after_insert [OF assms(2,5,6,7)]) simp
  ultimately show ?thesis by (simp add: key_holds_def)
qed

text \<open>What a successful \<open>CreateTenant\<close> leaves behind.\<close>

lemma CreateTenant_Inr:
  assumes "CreateTenant rnd now n ds l d = (Inr t, d')"
  obtains d1 where "insert_tenant n ds (case l of None \<Rightarrow> no_limits | Some x \<Rightarrow> x) now (pop_fault d) = Some d1"
    and "insert_api_key (ID t) (HashKey (APIKey t)) (KeyPrefix t) now (pop_fault d1) = Some d'"
    and "ID t = seq_tenants d1" "APIKey t = GenerateAPIKeyV2 rnd (ID t)" "Name t = n"
    and "RateLimitRPS t = lim_RateLimitRPS (case l of None \<Rightarrow> no_limits | Some x \<Rightarrow> x)"
    and "BurstBytes t = lim_BurstBytes (case l of None \<Rightarrow> no_limits | Some x \<Rightarrow> x)"
    and "DailyByteQuota t = lim_DailyByteQuota (case l of None \<Rightarrow> no_limits | Some x \<Rightarrow> x)"
proof -
  let ?lim = "case l of None \<Rightarrow> no_limits | Some x \<Rightarrow> x"
  from assms obtain d1 where "sql_exec (insert_tenant n ds ?lim now) d = (Inr (), d1)"
    and "sql_exec (insert_api_key (ID t) (HashKey (APIKey t)) (KeyPrefix t) now) d1 = (Inr (), d')"
    and "ID t = seq_tenants d1" "APIKey t = GenerateAPIKeyV2 rnd (ID t)" "Name t = n"
    "RateLimitRPS t = lim_RateLimitRPS ?lim" "BurstBytes t = lim_BurstBytes ?lim"
    "DailyByteQuota t = lim_DailyByteQuota ?lim"
    by (auto simp: CreateTenant_def Let_def split: prod.splits sum.splits)
  then show thesis by (intro that [of d1]) (auto simp only: sql_exec_Inr)
qed

lemma insert_tenant_row:
  assumes "insert_tenant n ds l now d = Some d'"
  obtains r where "t_tenants d' = t_tenants d @ [r]" "tr_id r = seq_tenants d'" "tr_name r = n" "tr_active r = 1"
    "tr_api_key r = ''''" "tr_rate_limit_rps r = lim_RateLimitRPS l" "tr_burst_bytes r = lim_BurstBytes l"
    "tr_daily_byte_quota r = lim_DailyByteQuota l"
  using assms by (auto simp: insert_tenant_def split: option.splits)

section \<open>Revocation\<close>

lemma revoke_live_key:
  assumes "revoke_all_keys tid now d = Some d'" "live_key d' P h r"
  shows "tr_id r \<noteq> tid"
  using assms by (force simp: revoke_all_keys_def live_key_def split: if_splits)

text \<open>Replacing a tenant's keys leaves every credential of every other tenant alone.\<close>

lemma revoke_other_live_key:
  assumes "revoke_all_keys tid now d = Some d'" "tr_id r \<noteq> tid"
    and "\<And>ak v. P (ak\<lparr>ak_revoked_at := v\<rparr>) = P ak"
  shows "live_key d' P h r \<longleftrightarrow> live_key d P h r"
  using assms by (force simp: revoke_all_keys_def live_key_def split: if_splits)

lemma key_scope_revoke:
  "key_scope k = Some P \<Longrightarrow> P (ak\<lparr>ak_revoked_at := v\<rparr>) = P ak"
  by (auto simp: key_scope_def split: if_splits option.splits)

lemma insert_other_live_key:
  assumes "insert_api_key tid h' p now d = Some d'" "h \<noteq> h'"
  shows "live_key d' P h r \<longleftrightarrow> live_key d P h r"
  using insert_api_key_tables(5) [OF assms(1)] assms(2) by (auto simp: live_key_def)

text \<open>What a successful \<open>RegenerateKey\<close> did: revoke, then insert the new row.\<close>

lemma RegenerateKey_Inr:
  assumes "RegenerateKey rnd now tid d = (Inr k, d')"
  obtains d1 where "revoke_all_keys tid now (pop_fault d) = Some d1"
    and "insert_api_key tid (HashKey k) (take 12 k) now (pop_fault d1) = Some d'"
    and "k = GenerateAPIKeyV2 rnd tid"
proof -
  from assms obtain d1 where "sql_exec (revoke_all_keys tid now) d = (Inr (), d1)"
    and "sql_exec (insert_api_key tid (HashKey k) (take 12 k) now) d1 = (Inr (), d')"
    and "k = GenerateAPIKeyV2 rnd tid"
    by (auto simp: RegenerateKey_def RevokeAllKeysForTenant_def Let_def split: prod.splits sum.splits)
  then show thesis by (intro that [of d1]) (auto simp only: sql_exec_Inr)
qed

lemma RegenerateKey_others:
  assumes "RegenerateKey rnd now tid d = (Inr k, d')" "HashKey k' \<noteq> HashKey k"
  shows "key_holds d' k' r \<longleftrightarrow> key_holds d k' r \<and> tr_id r \<noteq> tid"
proof -
  obtain d1 where d1: "revoke_all_keys tid now (pop_fault d) = Some d1"
    and d2: "insert_api_key tid (HashKey k) (take 12 k) now (pop_fault d1) = Some d'"
    by (rule RegenerateKey_Inr [OF assms(1)])
  have "live_key d' P (HashKey k') r \<longleftrightarrow> live_key d P (HashKey k') r \<and> tr_id r \<noteq> tid"
    if P: "key_scope k' = Some P" for P
  proof -
    have "live_key d' P (HashKey k') r = live_key d1 P (HashKey k') r"
      using insert_other_live_key [OF d2 assms(2)] by (simp add: live_key_cong [of "pop_fault d1" d1])
    also have "\<dots> \<longleftrightarrow> live_key d P (HashKey k') r \<and> tr_id r \<noteq> tid"
      using revoke_live_key [OF d1, of P "HashKey k'" r]
        revoke_other_live_key [OF d1 _ key_scope_revoke [OF P], of r "HashKey k'"]
      by (auto simp: live_key_cong [of "pop_fault d" d])
    finally show ?thesis .
  qed
  then show ?thesis by (auto simp: key_holds_def split: option.splits)
qed

section \<open>The contract of a credential source\<close>

text \<open>
  What the gateway, the ingestion handler, the syslog listener and the renewal server rely on when
  they turn a credential into a tenant. \<open>holds\<close> says which credentials are good for which tenant
  row; \<open>resolve\<close> is the operation they call. The store provides it twice: for API keys here and for
  certificate fingerprints in \<^theory_text>\<open>Store_Certs\<close>.
\<close>

locale credential_source =
  fixes resolve :: "time \<Rightarrow> string \<Rightarrow> db \<Rightarrow> tenant option result \<times> db"
    and holds :: "db \<Rightarrow> string \<Rightarrow> tenant_row \<Rightarrow> bool"
  assumes resolve_sound:
      "db_inv d \<Longrightarrow> resolve now c d = (Inr (Some t), d') \<Longrightarrow> \<exists>r p. holds d c r \<and> t = tenant_of_row r p"
    and resolve_complete:
      "db_inv d \<Longrightarrow> \<not> next_fault d \<Longrightarrow> holds d c r \<Longrightarrow> \<exists>p. fst (resolve now c d) = Inr (Some (tenant_of_row r p))"
    and holds_active: "holds d c r \<Longrightarrow> r \<in> set (t_tenants d) \<and> tr_active r = 1"
    and resolve_inv: "db_inv d \<Longrightarrow> db_inv (snd (resolve now c d))"
    and resolve_tenants: "t_tenants (snd (resolve now c d)) = t_tenants d"
    and resolve_holds: "holds (snd (resolve now c d)) c' r = holds d c' r"
begin

text \<open>Only an active tenant on file is ever returned, and with its own id and name.\<close>

lemma resolve_active:
  assumes "db_inv d" "resolve now c d = (Inr (Some t), d')"
  shows "\<exists>r \<in> set (t_tenants d). tr_id r = ID t \<and> tr_name r = Name t \<and> tr_active r = 1 \<and> Active t"
  using resolve_sound [OF assms] holds_active by (auto simp: tenant_of_row_def)

text \<open>A tenant that is gone, or switched off, cannot be reached by any credential.\<close>

lemma resolve_none_if_absent:
  assumes "db_inv d" "\<And>r. r \<in> set (t_tenants d) \<Longrightarrow> tr_id r = tid \<Longrightarrow> tr_active r \<noteq> 1"
  shows "resolve now c d \<noteq> (Inr (Some t), d') \<or> ID t \<noteq> tid"
  using resolve_active [OF assms(1), of now c t d'] assms(2) by auto

text \<open>Resolving is repeatable: an earlier lookup does not change what a later one returns.\<close>

lemma resolve_again:
  assumes "db_inv d" "resolve now c d = (Inr (Some t), d')" "\<not> next_fault d'"
  shows "\<exists>t'. fst (resolve now' c d') = Inr (Some t') \<and> ID t' = ID t \<and> Name t' = Name t"
proof -
  from resolve_sound [OF assms(1,2)] obtain r p where r: "holds d c r" "t = tenant_of_row r p" by blast
  have h: "holds d' c r" using r(1) resolve_holds [of now c d c r] assms(2) by simp
  have i: "db_inv d'" using resolve_inv [OF assms(1), of now c] assms(2) by simp
  obtain q where "fst (resolve now' c d') = Inr (Some (tenant_of_row r q))"
    using resolve_complete [OF i assms(3) h] by blast
  with r(2) show ?thesis by (simp add: tenant_of_row_def)
qed

end

interpretation api_keys: credential_source LookupTenantByKey key_holds
proof
  fix d now c t d'
  assume inv: "db_inv d" and "LookupTenantByKey now c d = (Inr (Some t), d')"
  then have f: "fst (LookupTenantByKey now c d) = Inr (Some t)" by simp
  then have "\<not> next_fault d" using LookupTenantByKey_fault [of d now c] by auto
  from LookupTenantByKey_iff [OF inv this] f
  show "\<exists>r p. key_holds d c r \<and> t = tenant_of_row r p" by blast
next
  fix d now c r
  assume "db_inv d" "\<not> next_fault d" "key_holds d c r"
  then show "\<exists>p. fst (LookupTenantByKey now c d) = Inr (Some (tenant_of_row r p))"
    using LookupTenantByKey_iff by blast
next
  fix d c r
  assume "key_holds d c r"
  then show "r \<in> set (t_tenants d) \<and> tr_active r = 1"
    by (auto simp: key_holds_def live_key_def split: option.splits)
qed (simp_all add: LookupTenantByKey_inv LookupTenantByKey_frame)

end
