(* ===== verification/Store_Certs.thy ===== *)
theory Store_Certs
  imports Store_Keys
begin

text \<open>
  \<open>internal/store/certs.go\<close>: client certificates by fingerprint, their revocation and the expiry
  listings. The fingerprint lookup is the store's second credential source; the theory interprets
  the contract of \<^theory_text>\<open>Store_Keys\<close> on it.
\<close>

section \<open>Records and scanning\<close>

text \<open>A Go zero time stands for a NULL \<open>not_before\<close> or \<open>not_after\<close>.\<close>

record certificate =
  cert_ID :: int64
  cert_TenantID :: int64
  cert_SerialNumber :: string
  cert_FingerprintSHA256 :: string
  cert_SubjectCN :: string
  cert_NotBefore :: "time option"
  cert_NotAfter :: "time option"
  cert_RevokedAt :: "time option"
  cert_CreatedAt :: time
  cert_LastSeenAt :: "time option"

definition scanCertificate :: "cert_row \<Rightarrow> certificate" where
  "scanCertificate c =
     \<lparr>cert_ID = ct_id c, cert_TenantID = ct_tenant_id c, cert_SerialNumber = ct_serial_number c,
      cert_FingerprintSHA256 = ct_fingerprint c, cert_SubjectCN = ct_subject_cn c,
      cert_NotBefore = ct_not_before c, cert_NotAfter = ct_not_after c, cert_RevokedAt = ct_revoked_at c,
      cert_CreatedAt = ct_created_at c, cert_LastSeenAt = ct_last_seen_at c\<rparr>"

section \<open>Operations\<close>

definition fingerprint_rows :: "string \<Rightarrow> db \<Rightarrow> tenant_row list" where
  "fingerprint_rows fingerprint d =
     concat (map (\<lambda>t. map (\<lambda>_. t)
        (filter (\<lambda>c. ct_tenant_id c = tr_id t \<and> ct_fingerprint c = fingerprint \<and>
                     ct_revoked_at c = None \<and> tr_active t = 1) (t_certificates d))) (t_tenants d))"

definition LookupTenantByFingerprint :: "string \<Rightarrow> db \<Rightarrow> tenant option result \<times> db" where
  "LookupTenantByFingerprint fingerprint d =
     sql_query (\<lambda>d. case fingerprint_rows fingerprint d of [] \<Rightarrow> None | t # _ \<Rightarrow> Some (scanTenant d t)) d"

definition LookupCertificateByFingerprint :: "string \<Rightarrow> db \<Rightarrow> certificate option result \<times> db" where
  "LookupCertificateByFingerprint fingerprint d =
     sql_query (\<lambda>d. map_option scanCertificate (find (\<lambda>c. ct_fingerprint c = fingerprint) (t_certificates d))) d"

definition update_last_seen :: "string \<Rightarrow> time \<Rightarrow> db \<Rightarrow> db option" where
  "update_last_seen fingerprint now d =
     Some (d\<lparr>t_certificates := map (\<lambda>c. if ct_fingerprint c = fingerprint
        then c\<lparr>ct_last_seen_at := Some (current_timestamp now)\<rparr> else c) (t_certificates d)\<rparr>)"

definition UpdateLastSeen :: "time \<Rightarrow> string \<Rightarrow> db \<Rightarrow> unit result \<times> db" where
  "UpdateLastSeen now fingerprint d = sql_exec (update_last_seen fingerprint now) d"

definition insert_certificate ::
  "int64 \<Rightarrow> string \<Rightarrow> string \<Rightarrow> string \<Rightarrow> time \<Rightarrow> time \<Rightarrow> time \<Rightarrow> db \<Rightarrow> db option" where
  "insert_certificate tid serial fingerprint cn notBefore notAfter now d =
     (if tid \<notin> tenant_ids d \<or> fingerprint \<in> ct_fingerprint ` set (t_certificates d) then None
      else case next_id (seq_certificates d) of None \<Rightarrow> None
      | Some i \<Rightarrow> Some (d\<lparr>seq_certificates := i,
          t_certificates := t_certificates d @
            [\<lparr>ct_id = i, ct_tenant_id = tid, ct_serial_number = serial, ct_fingerprint = fingerprint,
              ct_subject_cn = cn, ct_not_before = Some notBefore, ct_not_after = Some notAfter,
              ct_revoked_at = None, ct_created_at = current_timestamp now, ct_last_seen_at = None\<rparr>]\<rparr>))"

definition AddCertificate ::
  "time \<Rightarrow> int64 \<Rightarrow> string \<Rightarrow> string \<Rightarrow> string \<Rightarrow> time \<Rightarrow> time \<Rightarrow> db \<Rightarrow> certificate result \<times> db" where
  "AddCertificate now tid serial fingerprint cn notBefore notAfter d =
     (case sql_exec (insert_certificate tid serial fingerprint cn notBefore notAfter now) d of
        (Inl e, d1) \<Rightarrow> (Inl e, d1)
      | (Inr _, d1) \<Rightarrow>
          (Inr \<lparr>cert_ID = seq_certificates d1, cert_TenantID = tid, cert_SerialNumber = serial,
                cert_FingerprintSHA256 = fingerprint, cert_SubjectCN = cn, cert_NotBefore = Some notBefore,
                cert_NotAfter = Some notAfter, cert_RevokedAt = None, cert_CreatedAt = now,
                cert_LastSeenAt = None\<rparr>, d1))"

definition revoke_certificate :: "string \<Rightarrow> time \<Rightarrow> db \<Rightarrow> db option" where
  "revoke_certificate fingerprint now d =
     Some (d\<lparr>t_certificates := map (\<lambda>c. if ct_fingerprint c = fingerprint
        then c\<lparr>ct_revoked_at := Some (current_timestamp now)\<rparr> else c) (t_certificates d)\<rparr>)"

definition RevokeCertificate :: "time \<Rightarrow> string \<Rightarrow> db \<Rightarrow> unit result \<times> db" where
  "RevokeCertificate now fingerprint d = sql_exec (revoke_certificate fingerprint now) d"

definition ListCertificates :: "int64 \<Rightarrow> db \<Rightarrow> certificate list result \<times> db" where
  "ListCertificates tid d =
     sql_query (\<lambda>d. map scanCertificate
        (order_desc ct_created_at (filter (\<lambda>c. ct_tenant_id c = tid) (t_certificates d)))) d"

definition LookupCertificateByID :: "int64 \<Rightarrow> db \<Rightarrow> certificate option result \<times> db" where
  "LookupCertificateByID cid d =
     sql_query (\<lambda>d. map_option scanCertificate (find (\<lambda>c. ct_id c = cid) (t_certificates d))) d"

record expiring_cert_info =
  exp_TenantName :: string
  exp_CertID :: int64
  exp_TenantID :: int64
  exp_SubjectCN :: string
  exp_NotAfter :: "time option"

text \<open>
  The join of both expiry queries. \<open>c.not_after <= datetime(...)\<close> is not true of a NULL
  \<open>not_after\<close>; \<open>datetime\<close> has a resolution of one second.
\<close>

definition expiring_rows :: "int64 \<Rightarrow> time \<Rightarrow> db \<Rightarrow> (cert_row \<times> tenant_row) list" where
  "expiring_rows withinHours now d =
     concat (map (\<lambda>c. map (\<lambda>t. (c, t)) (filter (\<lambda>t. tr_id t = ct_tenant_id c \<and> tr_active t = 1) (t_tenants d)))
       (filter (\<lambda>c. ct_revoked_at c = None \<and>
          (case ct_not_after c of None \<Rightarrow> False
           | Some e \<Rightarrow> e \<le> current_timestamp now + withinHours * hour)) (t_certificates d)))"

definition ListExpiringCertificates :: "time \<Rightarrow> int64 \<Rightarrow> db \<Rightarrow> expiring_cert_info list result \<times> db" where
  "ListExpiringCertificates now withinHours d =
     sql_query (\<lambda>d. map (\<lambda>(c, t). \<lparr>exp_TenantName = tr_name t, exp_CertID = ct_id c, exp_TenantID = ct_tenant_id c,
                                   exp_SubjectCN = ct_subject_cn c, exp_NotAfter = ct_not_after c\<rparr>)
        (order_asc (\<lambda>(c, t). case ct_not_after c of None \<Rightarrow> 0 | Some e \<Rightarrow> e) (expiring_rows withinHours now d))) d"

definition ExpiringCertsByTenant :: "time \<Rightarrow> int64 \<Rightarrow> db \<Rightarrow> (int64 \<rightharpoonup> int64) result \<times> db" where
  "ExpiringCertsByTenant now withinHours d =
     sql_query (\<lambda>d. (\<lambda>tid. let n = length (filter (\<lambda>(c, t). ct_tenant_id c = tid) (expiring_rows withinHours now d))
                       in if n = 0 then None else Some (int n))) d"

section \<open>The invariant\<close>

lemma map_certs_inv:
  assumes "db_inv d" "\<And>c. ct_id (f c) = ct_id c" "\<And>c. ct_fingerprint (f c) = ct_fingerprint c"
    and "\<And>c. ct_tenant_id (f c) = ct_tenant_id c"
  shows "db_inv (d\<lparr>t_certificates := map f (t_certificates d)\<rparr>)"
  using assms by (simp add: db_inv_def tenant_ids_def certs_ok_def comp_def image_image)

lemma update_last_seen_inv: "db_inv d \<Longrightarrow> update_last_seen fp now d = Some d' \<Longrightarrow> db_inv d'"
  by (auto simp: update_last_seen_def intro!: map_certs_inv)

lemma revoke_certificate_inv: "db_inv d \<Longrightarrow> revoke_certificate fp now d = Some d' \<Longrightarrow> db_inv d'"
  by (auto simp: revoke_certificate_def intro!: map_certs_inv)

lemma insert_certificate_tables:
  assumes "insert_certificate t s fp cn nb na now d = Some d'"
  shows "t_tenants d' = t_tenants d" "tenant_ids d' = tenant_ids d" "t \<in> tenant_ids d"
    "fp \<notin> ct_fingerprint ` set (t_certificates d)"
    "\<exists>i. next_id (seq_certificates d) = Some i \<and> d' = d\<lparr>seq_certificates := i,
       t_certificates := t_certificates d @
         [\<lparr>ct_id = i, ct_tenant_id = t, ct_serial_number = s, ct_fingerprint = fp, ct_subject_cn = cn,
           ct_not_before = Some nb, ct_not_after = Some na, ct_revoked_at = None,
           ct_created_at = current_timestamp now, ct_last_seen_at = None\<rparr>]\<rparr>"
  using assms by (auto simp: insert_certificate_def tenant_ids_def split: option.splits if_splits)

lemma insert_certificate_inv:
  assumes "db_inv d" and "insert_certificate t s fp cn nb na now d = Some d'"
  shows "db_inv d'"
  using assms(1) insert_certificate_tables [OF assms(2)]
  by (auto simp: db_inv_def ids_ok_snoc certs_ok_snoc)

lemma UpdateLastSeen_inv [op_inv]: "db_inv d \<Longrightarrow> db_inv (snd (UpdateLastSeen now fp d))"
  by (simp add: UpdateLastSeen_def sql_exec_inv update_last_seen_inv)

lemma RevokeCertificate_inv [op_inv]: "db_inv d \<Longrightarrow> db_inv (snd (RevokeCertificate now fp d))"
  by (simp add: RevokeCertificate_def sql_exec_inv revoke_certificate_inv)

lemma AddCertificate_inv [op_inv]: "db_inv d \<Longrightarrow> db_inv (snd (AddCertificate now t s fp cn nb na d))"
  using sql_exec_inv [of d "insert_certificate t s fp cn nb na now"] insert_certificate_inv
  by (auto simp: AddCertificate_def split: prod.split sum.split)

section \<open>When a fingerprint authenticates\<close>

definition fp_holds :: "db \<Rightarrow> string \<Rightarrow> tenant_row \<Rightarrow> bool" where
  "fp_holds d fp r \<longleftrightarrow>
     r \<in> set (t_tenants d) \<and> tr_active r = 1 \<and>
     (\<exists>c \<in> set (t_certificates d). ct_fingerprint c = fp \<and> ct_tenant_id c = tr_id r \<and> ct_revoked_at c = None)"

lemma set_fingerprint_rows: "r \<in> set (fingerprint_rows fp d) \<longleftrightarrow> fp_holds d fp r"
  by (auto simp: fingerprint_rows_def fp_holds_def)

lemma fp_holds_unique:
  assumes "db_inv d" "fp_holds d fp r" "fp_holds d fp r'"
  shows "r = r'"
proof -
  have u: "distinct (map ct_fingerprint (t_certificates d))" "distinct (map tr_id (t_tenants d))"
    using assms(1) by (simp_all add: db_inv_def certs_ok_def ids_ok_def)
  then have "tr_id r = tr_id r'"
    using assms(2,3) distinct_map_eqD [OF u(1)] by (auto simp: fp_holds_def) metis
  then show ?thesis
    using assms(2,3) distinct_map_eqD [OF u(2)] by (auto simp: fp_holds_def)
qed

lemma LookupTenantByFingerprint_iff:
  assumes "db_inv d" "\<not> next_fault d"
  shows "fst (LookupTenantByFingerprint fp d) = Inr (Some t) \<longleftrightarrow> (\<exists>r. fp_holds d fp r \<and> t = scanTenant d r)"
proof -
  have scan: "scanTenant (pop_fault d) = scanTenant d"
    by (simp add: scanTenant_def latest_key_prefix_def fun_eq_iff)
  have rows: "fingerprint_rows fp (pop_fault d) = fingerprint_rows fp d"
    by (simp add: fingerprint_rows_def)
  show ?thesis
  proof (cases "fingerprint_rows fp d")
    case Nil
    then have "\<not> fp_holds d fp r" for r using set_fingerprint_rows [of r fp d] by simp
    with Nil assms rows show ?thesis by (simp add: LookupTenantByFingerprint_def sql_query_def)
  next
    case (Cons r rs)
    then have "fp_holds d fp r" using set_fingerprint_rows [of r fp d] by simp
    then have "fp_holds d fp r' \<longleftrightarrow> r' = r" for r' using fp_holds_unique [OF assms(1)] by blast
    with Cons assms rows scan show ?thesis
      by (auto simp: LookupTenantByFingerprint_def sql_query_def)
  qed
qed

lemma LookupTenantByFingerprint_fault:
  "next_fault d \<Longrightarrow> fst (LookupTenantByFingerprint fp d) = Inl DBError"
  by (simp add: LookupTenantByFingerprint_def sql_query_def)

lemma fp_holds_pop [simp]: "fp_holds (pop_fault d) fp r = fp_holds d fp r"
  by (simp add: fp_holds_def)

interpretation cert_fps: credential_source "\<lambda>_. LookupTenantByFingerprint" fp_holds
proof
  fix d c t d' and now :: time
  assume inv: "db_inv d" and "LookupTenantByFingerprint c d = (Inr (Some t), d')"
  then have f: "fst (LookupTenantByFingerprint c d) = Inr (Some t)" by simp
  then have "\<not> next_fault d" using LookupTenantByFingerprint_fault [of d c] by auto
  from LookupTenantByFingerprint_iff [OF inv this] f
  show "\<exists>r p. fp_holds d c r \<and> t = tenant_of_row r p" by (auto simp: scanTenant_def)
next
  fix d c r
  assume "db_inv d" "\<not> next_fault d" "fp_holds d c r"
  then show "\<exists>p. fst (LookupTenantByFingerprint c d) = Inr (Some (tenant_of_row r p))"
    using LookupTenantByFingerprint_iff [of d c] by (auto simp: scanTenant_def)
qed (auto simp: fp_holds_def LookupTenantByFingerprint_def)

section \<open>Revocation\<close>

lemma fp_not_holds_map:
  assumes "\<And>c. \<not> (ct_fingerprint (f c) = fp \<and> ct_revoked_at (f c) = None)"
  shows "\<not> fp_holds (d\<lparr>t_certificates := map f (t_certificates d)\<rparr>) fp r"
  using assms by (auto simp: fp_holds_def)

lemma revoke_fp_holds:
  assumes "revoke_certificate fp now d = Some d'"
  shows "\<not> fp_holds d' fp r"
proof -
  have d': "d' = d\<lparr>t_certificates := map (\<lambda>c. if ct_fingerprint c = fp
      then c\<lparr>ct_revoked_at := Some (current_timestamp now)\<rparr> else c) (t_certificates d)\<rparr>"
    using assms by (simp add: revoke_certificate_def)
  show ?thesis unfolding d' by (rule fp_not_holds_map) simp
qed

lemma fp_holds_map:
  assumes "\<And>c t. (ct_fingerprint (f c) = fp \<and> ct_tenant_id (f c) = t \<and> ct_revoked_at (f c) = None) \<longleftrightarrow>
      (ct_fingerprint c = fp \<and> ct_tenant_id c = t \<and> ct_revoked_at c = None)"
  shows "fp_holds (d\<lparr>t_certificates := map f (t_certificates d)\<rparr>) fp r = fp_holds d fp r"
  by (simp add: fp_holds_def assms)

lemma revoke_fp_others:
  assumes "revoke_certificate fp now d = Some d'" "fp' \<noteq> fp"
  shows "fp_holds d' fp' r = fp_holds d fp' r"
proof -
  have d': "d' = d\<lparr>t_certificates := map (\<lambda>c. if ct_fingerprint c = fp
      then c\<lparr>ct_revoked_at := Some (current_timestamp now)\<rparr> else c) (t_certificates d)\<rparr>"
    using assms(1) by (simp add: revoke_certificate_def)
  show ?thesis unfolding d' by (rule fp_holds_map) (use assms(2) in auto)
qed

lemma last_seen_fp_holds:
  assumes "update_last_seen fp now d = Some d'"
  shows "fp_holds d' fp' r = fp_holds d fp' r"
proof -
  have d': "d' = d\<lparr>t_certificates := map (\<lambda>c. if ct_fingerprint c = fp
      then c\<lparr>ct_last_seen_at := Some (current_timestamp now)\<rparr> else c) (t_certificates d)\<rparr>"
    using assms by (simp add: update_last_seen_def)
  show ?thesis unfolding d' by (rule fp_holds_map) simp
qed

lemma insert_certificate_holds:
  assumes "insert_certificate t s fp cn nb na now d = Some d'" "r \<in> set (t_tenants d)" "tr_id r = t" "tr_active r = 1"
  shows "fp_holds d' fp r"
  using insert_certificate_tables(5) [OF assms(1)] assms(2-4) by (auto simp: fp_holds_def)

end
