(* ===== verification/Store_Users.thy ===== *)
theory Store_Users
  imports Store_Schema
begin

text \<open>
  \<open>internal/store/users.go\<close>: the admin users. \<open>GetUserByUsername\<close> answers \<open>(0, "")\<close> for an unknown
  name, as the source does; real ids start at 1, which the schema invariant records.
\<close>

record user =
  user_ID :: int64
  user_Username :: string
  user_CreatedAt :: time

definition GetUserByUsername :: "string \<Rightarrow> db \<Rightarrow> (int64 \<times> string) result \<times> db" where
  "GetUserByUsername username d =
     sql_query (\<lambda>d. case find (\<lambda>r. ur_username r = username) (t_users d) of
                      None \<Rightarrow> (0, '''') | Some r \<Rightarrow> (ur_id r, ur_password r)) d"

definition GetUserByID :: "int64 \<Rightarrow> db \<Rightarrow> (string \<times> bool) result \<times> db" where
  "GetUserByID uid d =
     sql_query (\<lambda>d. case find (\<lambda>r. ur_id r = uid) (t_users d) of
                      None \<Rightarrow> ('''', False) | Some r \<Rightarrow> (ur_username r, True)) d"

definition insert_user :: "string \<Rightarrow> string \<Rightarrow> time \<Rightarrow> db \<Rightarrow> db option" where
  "insert_user username passwordHash now d =
     (if username \<in> ur_username ` set (t_users d) then None
      else case next_id (seq_users d) of None \<Rightarrow> None
      | Some i \<Rightarrow> Some (d\<lparr>seq_users := i,
          t_users := t_users d @ [\<lparr>ur_id = i, ur_username = username, ur_password = passwordHash,
                                   ur_created_at = current_timestamp now\<rparr>]\<rparr>))"

definition CreateUser :: "time \<Rightarrow> string \<Rightarrow> string \<Rightarrow> db \<Rightarrow> unit result \<times> db" where
  "CreateUser now username passwordHash d = sql_exec (insert_user username passwordHash now) d"

definition ListUsers :: "db \<Rightarrow> user list result \<times> db" where
  "ListUsers d =
     sql_query (\<lambda>d. map (\<lambda>r. \<lparr>user_ID = ur_id r, user_Username = ur_username r, user_CreatedAt = ur_created_at r\<rparr>)
                      (order_asc ur_created_at (t_users d))) d"

definition delete_user :: "int64 \<Rightarrow> db \<Rightarrow> db option" where
  "delete_user uid d = Some (d\<lparr>t_users := filter (\<lambda>r. ur_id r \<noteq> uid) (t_users d)\<rparr>)"

definition DeleteUser :: "int64 \<Rightarrow> db \<Rightarrow> unit result \<times> db" where
  "DeleteUser uid d = sql_exec (delete_user uid) d"

definition UserCount :: "db \<Rightarrow> int64 result \<times> db" where
  "UserCount d = sql_query (\<lambda>d. int (length (t_users d))) d"

section \<open>Laws\<close>

lemma insert_user_inv:
  assumes "db_inv d" "insert_user u p now d = Some d'"
  shows "db_inv d'"
  using assms
  by (auto simp: insert_user_def db_inv_def tenant_ids_def ids_ok_snoc split: if_splits option.splits)

lemma delete_user_inv: "db_inv d \<Longrightarrow> delete_user u d = Some d' \<Longrightarrow> db_inv d'"
  by (auto simp: delete_user_def db_inv_def tenant_ids_def ids_ok_filter distinct_map_filter)

lemma CreateUser_inv [op_inv]: "db_inv d \<Longrightarrow> db_inv (snd (CreateUser now u p d))"
  by (simp add: CreateUser_def sql_exec_inv insert_user_inv)

lemma DeleteUser_inv [op_inv]: "db_inv d \<Longrightarrow> db_inv (snd (DeleteUser u d))"
  by (simp add: DeleteUser_def sql_exec_inv delete_user_inv)

text \<open>A created user is found under its name, with a positive id and the stored hash.\<close>

lemma GetUserByUsername_created:
  assumes "db_inv d" "CreateUser now u p d = (Inr (), d')" "\<not> next_fault d'"
  shows "fst (GetUserByUsername u d') = Inr (seq_users d', p) \<and> 0 < seq_users d'"
proof -
  have "insert_user u p now (pop_fault d) = Some d'"
    using assms(2) by (simp add: CreateUser_def sql_exec_Inr)
  then obtain r where r: "t_users d' = t_users d @ [r]" "ur_username r = u" "ur_id r = seq_users d'"
    "ur_password r = p" "u \<notin> ur_username ` set (t_users d)"
    "next_id (seq_users d) = Some (seq_users d')"
    by (auto simp: insert_user_def split: if_splits option.splits)
  have "find (\<lambda>r. ur_username r = u) (t_users d) = None"
    using r(5) by (auto simp: find_None_iff)
  with r have "find (\<lambda>r. ur_username r = u) (t_users d') = Some r"
    by (simp add: find_append)
  moreover have "0 < seq_users d'"
    using assms(1) r(6) by (auto simp: next_id_def db_inv_def ids_ok_def split: if_splits)
  ultimately show ?thesis
    using r assms(3) by (simp add: GetUserByUsername_def sql_query_def)
qed

lemma GetUserByID_deleted:
  assumes "DeleteUser u d = (Inr (), d')"
  shows "fst (GetUserByID u d') \<in> {Inl DBError, Inr ('''', False)}"
proof -
  have "find (\<lambda>r. ur_id r = u) (t_users d') = None"
    using assms by (auto simp: DeleteUser_def sql_exec_Inr delete_user_def find_None_iff)
  then show ?thesis by (simp add: GetUserByID_def sql_query_def)
qed

end
