(* ===== verification/Go_Time.thy ===== *)
theory Go_Time
  imports Go_Strings "HOL-Library.List_Lexorder" "HOL-Library.Char_ord"
begin

text \<open>
  \<open>time.Format\<close> in UTC for the two layouts of the program: the date (\<open>2006-01-02\<close>) and the hour
  bucket (\<open>2006-01-02T15\<close>). The calendar is the proleptic Gregorian one of package \<open>time\<close>, computed
  from the day number by peeling off 400-, 100-, 4- and 1-year cycles. Strings compare byte by byte
  (\<open>List_Lexorder\<close> over \<open>Char_ord\<close>), which is SQLite's BINARY collation on TEXT.
\<close>

definition pad :: "nat \<Rightarrow> int \<Rightarrow> string" where
  "pad w n = (let s = format_int n in replicate (w - length s) CHR ''0'' @ s)"

text \<open>
  The civil date of a day number (days since 1 January 1970): 400-, 100-, 4- and 1-year cycles
  peeled off the days since 1 January of year 1, then the month from the day of the year.
\<close>

definition is_leap :: "int \<Rightarrow> bool" where
  "is_leap y \<longleftrightarrow> y mod 4 = 0 \<and> (y mod 100 \<noteq> 0 \<or> y mod 400 = 0)"

fun month_day :: "int \<Rightarrow> int list \<Rightarrow> int \<Rightarrow> int \<times> int" where
  "month_day m [] yd = (m, yd + 1)"
| "month_day m (l # ls) yd = (if yd < l then (m, yd + 1) else month_day (m + 1) ls (yd - l))"

definition month_lengths :: "bool \<Rightarrow> int list" where
  "month_lengths leap = [31, if leap then 29 else 28, 31, 30, 31, 30, 31, 31, 30, 31, 30, 31]"

definition civil :: "int \<Rightarrow> int \<times> int \<times> int" where
  "civil days =
     (let d = days + 719162;
          n400 = d div 146097; r400 = d mod 146097;
          n100 = min 3 (r400 div 36524); r100 = r400 - 36524 * n100;
          n4 = r100 div 1461; r4 = r100 mod 1461;
          n1 = min 3 (r4 div 365); yday = r4 - 365 * n1;
          year = 1 + 400 * n400 + 100 * n100 + 4 * n4 + n1
      in (year, month_day 1 (month_lengths (is_leap year)) yday))"

definition format_date :: "time \<Rightarrow> string" where
  "format_date t =
     (case civil (t div (24 * hour)) of (y, m, d) \<Rightarrow> pad 4 y @ ''-'' @ pad 2 m @ ''-'' @ pad 2 d)"

definition hour_of_day :: "time \<Rightarrow> int" where
  "hour_of_day t = t mod (24 * hour) div hour"

definition format_hour :: "time \<Rightarrow> string" where
  "format_hour t = format_date t @ ''T'' @ pad 2 (hour_of_day t)"

lemma hour_of_day_range: "0 \<le> hour_of_day t \<and> hour_of_day t < 24"
proof -
  have "0 \<le> t mod (24 * hour)" "t mod (24 * hour) < 24 * hour" by simp_all
  then show ?thesis by (auto simp: hour_of_day_def)
qed

text \<open>Known dates: the epoch, a leap day, and the last hour of a century year.\<close>

lemma format_hour_samples:
  "format_hour 0 = ''1970-01-01T00''"
  "format_date (19782 * 24 * hour) = ''2024-02-29''"
  "format_hour (11016 * 24 * hour + 23 * hour) = ''2000-02-29T23''"
  by code_simp+

text \<open>Two instants of one clock hour share a bucket.\<close>

lemma mod_div_split: "0 < h \<Longrightarrow> t mod (h * 24) div h = t div h mod 24" for t h :: int
  using zmod_zmult2_eq [of 24 t h] by simp

lemma hours_split: "t div (24 * hour) = t div hour div 24" "hour_of_day t = t div hour mod 24" for t :: int
proof -
  show "t div (24 * hour) = t div hour div 24"
    using zdiv_zmult2_eq [OF zero_le_numeral, of t hour "num.Bit0 (num.Bit0 (num.Bit0 (num.Bit1 num.One)))"]
    by (simp only: mult.commute [of hour 24])
  show "hour_of_day t = t div hour mod 24"
    using mod_div_split [of hour t] unfolding hour_of_day_def by (simp only: mult.commute [of hour 24] zero_less_numeral simp_thms)
qed

lemma format_hour_same_hour: "t div hour = u div hour \<Longrightarrow> format_hour t = format_hour u"
  by (simp only: format_hour_def format_date_def hours_split)
text \<open>Every bucket of a day starts with that day's date, so the day's first bucket bounds them all.\<close>

lemma less_eq_append_same: "(xs @ ys \<le> xs @ zs) = (ys \<le> (zs :: string))"
  by (induction xs) auto

lemma of_digit_char: "0 \<le> d \<Longrightarrow> d < 10 \<Longrightarrow> (of_char (digit_char d) :: nat) = nat (48 + d)"
  by (simp add: digit_char_def)

lemma digit_char_le: "0 \<le> d \<Longrightarrow> d < 10 \<Longrightarrow> CHR ''0'' \<le> digit_char d"
  by (simp add: less_eq_char_def of_digit_char)

lemma pad2_digits:
  assumes "0 \<le> a" "a < 100"
  shows "pad 2 a = [digit_char (a div 10), digit_char (a mod 10)]"
proof (cases "a < 10")
  case True
  have "digit_char 0 = CHR ''0''" by code_simp
  with True assms show ?thesis by (simp add: pad_def format_int_def format_uint.simps [of a] numeral_2_eq_2)
next
  case False
  have "a div 10 < 10" using assms by simp
  with False assms show ?thesis
    by (simp add: pad_def format_int_def format_uint.simps [of a] format_uint.simps [of "a div 10"])
qed

section \<open>The calendar is right\<close>

text \<open>Days before the first of January of a year, counted from year 1.\<close>

definition year_start :: "int \<Rightarrow> int" where
  "year_start y = 365 * (y - 1) + (y - 1) div 4 - (y - 1) div 100 + (y - 1) div 400"

definition year_len :: "int \<Rightarrow> int" where
  "year_len y = (if is_leap y then 366 else 365)"

lemma cycle_split:
  fixes a b c d :: int
  assumes "0 \<le> b" "b \<le> 3" "0 \<le> c" "c \<le> 24" "0 \<le> d" "d \<le> 3"
  shows "year_start (1 + 400 * a + 100 * b + 4 * c + d) = 146097 * a + 36524 * b + 1461 * c + 365 * d"
    and "is_leap (1 + 400 * a + 100 * b + 4 * c + d) \<longleftrightarrow> d = 3 \<and> (c \<noteq> 24 \<or> b = 3)"
proof -
  let ?y = "400 * a + 100 * b + 4 * c + d"
  have "?y div 4 = 100 * a + 25 * b + c" by (rule int_div_pos_eq [where r = d]) (use assms in auto)
  moreover have "?y div 100 = 4 * a + b" by (rule int_div_pos_eq [where r = "4 * c + d"]) (use assms in auto)
  moreover have "?y div 400 = a" by (rule int_div_pos_eq [where r = "100 * b + 4 * c + d"]) (use assms in auto)
  ultimately have "year_start (1 + ?y) = 365 * ?y + (100 * a + 25 * b + c) - (4 * a + b) + a"
    by (simp only: year_start_def add_diff_cancel_left')
  moreover have y: "1 + 400 * a + 100 * b + 4 * c + d = 1 + ?y" by simp
  ultimately show "year_start (1 + 400 * a + 100 * b + 4 * c + d) = 146097 * a + 36524 * b + 1461 * c + 365 * d"
    by (simp add: algebra_simps)
  have "(1 + ?y) mod 4 = (if d = 3 then 0 else d + 1)"
    by (rule int_mod_pos_eq [where q = "100 * a + 25 * b + c + (if d = 3 then 1 else 0)"]) (use assms in auto)
  moreover have "(1 + ?y) mod 100 = (if c = 24 then 0 else 4 * c + 4)" if "d = 3"
    by (rule int_mod_pos_eq [where q = "4 * a + b + (if c = 24 then 1 else 0)"]) (use assms that in auto)
  moreover have "(1 + ?y) mod 400 = (if b = 3 then 0 else 100 * b + 100)" if "d = 3" "c = 24"
    by (rule int_mod_pos_eq [where q = "a + (if b = 3 then 1 else 0)"]) (use assms that in auto)
  ultimately show "is_leap (1 + 400 * a + 100 * b + 4 * c + d) \<longleftrightarrow> d = 3 \<and> (c \<noteq> 24 \<or> b = 3)"
    unfolding y is_leap_def using assms by (auto split: if_splits)
qed

lemma div_pred: "0 < n \<Longrightarrow> y div n = (y - 1) div n + (if y mod n = 0 then 1 else (0::int))"
proof -
  assume n: "0 < n"
  define q r where "q = (y - 1) div n" and "r = (y - 1) mod n"
  have y: "y = n * q + r + 1" and r: "0 \<le> r" "r < n" using n by (auto simp: q_def r_def)
  show ?thesis
  proof (cases "r + 1 = n")
    case True
    then have "y = n * (q + 1)" using y by (simp add: algebra_simps)
    then have "y div n = q + 1" "y mod n = 0" using n by auto
    then show ?thesis by (simp add: q_def)
  next
    case False
    then have "y div n = q" "y mod n = r + 1"
      using y r by (auto intro!: int_div_pos_eq int_mod_pos_eq)
    then show ?thesis using r by (simp add: q_def)
  qed
qed

lemma leap_days:
  "(m100 \<Longrightarrow> m4) \<Longrightarrow> (m400 \<Longrightarrow> m100) \<Longrightarrow>
     (if m4 then 1 else 0) - (if m100 then 1 else 0) + (if m400 then 1 else 0) =
     (if m4 \<and> (\<not> m100 \<or> m400) then 366 else 365) - (365 :: int)"
  by (cases m4; cases m100; cases m400; simp)
lemma year_start_Suc: "year_start (y + 1) = year_start y + year_len y"
proof -
  have "y mod 4 = 0" if "y mod 100 = 0" using that by (simp add: mod_eq_0_iff_dvd) (rule dvd_trans, auto)
  moreover have "y mod 100 = 0" if "y mod 400 = 0" using that by (simp add: mod_eq_0_iff_dvd) (rule dvd_trans, auto)
  ultimately have "(if y mod 4 = 0 then 1 else 0) - (if y mod 100 = 0 then 1 else 0) + (if y mod 400 = 0 then 1 else (0::int))
      = year_len y - 365"
    unfolding year_len_def is_leap_def by (rule leap_days)
  moreover have "a = a' + x \<Longrightarrow> b = b' + z \<Longrightarrow> c = c' + w \<Longrightarrow>
      365 * y + a - b + c = 365 * (y - 1) + a' - b' + c' + (365 + (x - z + w))" for a b c a' b' c' x z w :: int
    by simp
  from this [OF div_pred [of 4 y] div_pred [of 100 y] div_pred [of 400 y]]
  have "year_start (y + 1) = year_start y + (365 + ((if y mod 4 = 0 then 1 else 0) - (if y mod 100 = 0 then 1 else 0)
      + (if y mod 400 = 0 then 1 else 0)))"
    unfolding year_start_def by (simp only: add_diff_cancel_right')
  ultimately show ?thesis by simp
qed

lemma div_bounds: "0 < n \<Longrightarrow> n * (x div n) \<le> x \<and> x < n * (x div n) + n" for x n :: int
  using mult_div_mod_eq [of n x] pos_mod_bound [of n x] pos_mod_sign [of n x] by linarith

lemma year_start_mono: "y < z \<Longrightarrow> year_start y + year_len y \<le> year_start z"
proof (induction "nat (z - y - 1)" arbitrary: z)
  case 0
  then have "z = y + 1" by simp
  then show ?case by (simp add: year_start_Suc)
next
  case (Suc n)
  then have "year_start y + year_len y \<le> year_start (z - 1)" by (intro Suc.hyps) auto
  also have "\<dots> \<le> year_start z" using year_start_Suc [of "z - 1"] by (simp add: year_len_def split: if_splits)
  finally show ?case .
qed

lemma civil_yday:
  assumes civil: "civil days = (y', m, dd)"
  obtains yd where "month_day 1 (month_lengths (is_leap y')) yd = (m, dd)"
    "days + 719162 = year_start y' + yd" "0 \<le> yd" "yd < year_len y'"
proof -
  define x where "x = days + 719162"
  define a r4h where "a = x div 146097" and "r4h = x mod 146097"
  define b where "b = min 3 (r4h div 36524)"
  define r1h where "r1h = r4h - 36524 * b"
  define c r4 where "c = r1h div 1461" and "r4 = r1h mod 1461"
  define d where "d = min 3 (r4 div 365)"
  define yd where "yd = r4 - 365 * d"
  define y where "y = 1 + 400 * a + 100 * b + 4 * c + d"
  have eq: "civil days = (y, month_day 1 (month_lengths (is_leap y)) yd)"
    unfolding civil_def y_def yd_def d_def r4_def c_def r1h_def b_def r4h_def a_def x_def Let_def by (rule refl)
  have r4h: "0 \<le> r4h" "r4h < 146097" by (simp_all add: r4h_def)
  define q where "q = r4h div 36524"
  have q: "36524 * q \<le> r4h" "r4h < 36524 * q + 36524"
    using div_bounds [of 36524 r4h] unfolding q_def by simp_all
  then have b: "0 \<le> b" "b \<le> 3" "0 \<le> r1h" "r1h \<le> 36524" "b < 3 \<Longrightarrow> r1h < 36524"
    using r4h by (auto simp: b_def r1h_def q_def [symmetric] min_def split: if_splits)
  have c: "0 \<le> c" "0 \<le> r4" "r4 < 1461" "r1h = 1461 * c + r4"
    using b(3) by (auto simp: c_def r4_def pos_imp_zdiv_nonneg_iff)
  with b(4) have c24: "c \<le> 24" by simp
  define p where "p = r4 div 365"
  have p: "365 * p \<le> r4" "r4 < 365 * p + 365"
    using div_bounds [of 365 r4] unfolding p_def by simp_all
  then have d: "0 \<le> d" "d \<le> 3" "0 \<le> yd" "yd \<le> 365" "d < 3 \<Longrightarrow> yd < 365" "d = 3 \<Longrightarrow> r4 = 1095 + yd"
    using c by (auto simp: d_def yd_def p_def [symmetric] min_def split: if_splits)
  have len: "yd < year_len y"
  proof (cases "yd = 365")
    case True
    then have "\<not> d < 3" using d(5) by auto
    then have "d = 3" using d(2) by linarith
    moreover from this have "r4 = 1460" using d(6) True by simp
    moreover from this have "c \<noteq> 24 \<or> b = 3" using b c by (cases "b < 3") auto
    ultimately have "is_leap y" unfolding y_def using cycle_split(2) [of b c d a] b c c24 by simp
    then show ?thesis using True by (simp add: year_len_def)
  qed (use d in \<open>auto simp: year_len_def\<close>)
  have "x = 146097 * a + 36524 * b + 1461 * c + 365 * d + yd"
    using c(4) mult_div_mod_eq [of 146097 x] unfolding yd_def r1h_def r4h_def a_def by linarith
  then have start: "days + 719162 = year_start y + yd"
    using b c c24 d by (simp add: y_def cycle_split(1) x_def)
  have "y' = y" "month_day 1 (month_lengths (is_leap y)) yd = (m, dd)" using eq civil by simp_all
  then show thesis using that [of yd] start d len by simp
qed

lemma month_day_mono:
  "yd < yd' \<Longrightarrow> month_day m ls yd = (a, b) \<Longrightarrow> month_day m ls yd' = (a', b') \<Longrightarrow> a < a' \<or> a = a' \<and> b < b'"
proof (induction m ls yd arbitrary: yd' rule: month_day.induct)
  case (2 m l ls yd)
  have ge: "m \<le> fst (month_day m ls x)" for m ls x
    by (induction m ls x rule: month_day.induct) auto
  from "2.prems" show ?case
    using "2.IH" [of "yd' - l"] ge [of "m + 1" ls "yd' - l"] by (auto split: if_splits)
qed auto

lemma month_day_range:
  "0 \<le> yd \<Longrightarrow> yd < sum_list ls \<Longrightarrow> list_all (\<lambda>l. l \<le> 31) ls \<Longrightarrow> month_day m ls yd = (a, b) \<Longrightarrow>
     m \<le> a \<and> a < m + int (length ls) \<and> 1 \<le> b \<and> b \<le> 31"
proof (induction m ls yd rule: month_day.induct)
  case (2 m l ls yd)
  then show ?case by (cases "yd < l") auto
qed simp

lemma year_months: "sum_list (month_lengths leap) = (if leap then 366 else 365)"
  "list_all (\<lambda>l. l \<le> 31) (month_lengths leap)" "length (month_lengths leap) = 12"
  by (simp_all add: month_lengths_def)

lemma civil_less:
  assumes "a < b" and "civil a = (y, m, d)" and "civil b = (y', m', d')"
  shows "y < y' \<or> y = y' \<and> (m < m' \<or> m = m' \<and> d < d')"
proof -
  from civil_yday [OF assms(2)] obtain yd where
    a: "month_day 1 (month_lengths (is_leap y)) yd = (m, d)" "a + 719162 = year_start y + yd" "0 \<le> yd" "yd < year_len y" .
  from civil_yday [OF assms(3)] obtain yd' where
    b: "month_day 1 (month_lengths (is_leap y')) yd' = (m', d')" "b + 719162 = year_start y' + yd'" "0 \<le> yd'" "yd' < year_len y'" .
  show ?thesis
  proof (cases "y = y'")
    case True
    with a b assms(1) have "yd < yd'" by simp
    then show ?thesis using month_day_mono a(1) b(1) True by blast
  next
    case False
    have "\<not> y' < y" using year_start_mono [of y' y] a b assms(1) by linarith
    then show ?thesis using False by simp
  qed
qed

lemma civil_range:
  assumes "civil a = (y, m, d)"
  shows "1 \<le> m \<and> m \<le> 12 \<and> 1 \<le> d \<and> d \<le> 31"
proof -
  from civil_yday [OF assms] obtain yd where
    yd: "month_day 1 (month_lengths (is_leap y)) yd = (m, d)" "0 \<le> yd" "yd < year_len y" .
  have "yd < sum_list (month_lengths (is_leap y))" using yd(3) by (simp add: year_months year_len_def)
  from month_day_range [OF yd(2) this year_months(2) yd(1)] show ?thesis by (simp add: year_months)
qed

section \<open>Text order is time order\<close>

lemma append_less_same_length:
  "length xs = length ys \<Longrightarrow> (xs :: string) < ys \<Longrightarrow> xs @ us < ys @ vs"
  by (induction xs ys rule: list_induct2) auto

lemma append_less_right: "(xs @ us < xs @ vs) = (us < (vs :: string))"
  by (induction xs) auto

lemma digit_zero: "digit_char 0 = CHR ''0''"
  by code_simp

lemma pad_Suc:
  assumes "0 < w" "0 \<le> a"
  shows "pad (Suc w) a = pad w (a div 10) @ [digit_char (a mod 10)]"
proof (cases "a < 10")
  case True
  obtain v where "w = Suc v" using assms(1) by (cases w) auto
  with True assms show ?thesis
    by (simp add: pad_def format_int_def format_uint.simps [of a] format_uint.simps [of 0] digit_zero replicate_append_same)
next
  case False
  then have "\<not> a div 10 < 0" by auto
  with False show ?thesis
    using assms by (simp add: pad_def format_int_def format_uint.simps [of a] Let_def)
qed

lemma pad_1: "0 \<le> a \<Longrightarrow> a < 10 \<Longrightarrow> pad (Suc 0) a = [digit_char a]"
  by (simp add: pad_def format_int_def format_uint.simps [of a])

lemma length_pad: "0 \<le> a \<Longrightarrow> a < 10 ^ Suc w \<Longrightarrow> length (pad (Suc w) a) = Suc w"
  by (induction w arbitrary: a) (simp_all add: pad_1 pad_Suc)

lemma digit_char_less: "0 \<le> a \<Longrightarrow> a < b \<Longrightarrow> b < 10 \<Longrightarrow> digit_char a < digit_char b"
  by (simp add: less_char_def of_digit_char)

lemma pad_less: "0 \<le> a \<Longrightarrow> a < b \<Longrightarrow> b < 10 ^ Suc w \<Longrightarrow> pad (Suc w) a < pad (Suc w) b"
proof (induction w arbitrary: a b)
  case 0
  then show ?case by (simp add: pad_1 digit_char_less)
next
  case (Suc w)
  have lim: "a div 10 < 10 ^ Suc w" "b div 10 < 10 ^ Suc w" using Suc.prems by auto
  show ?case
  proof (cases "a div 10 = b div 10")
    case True
    then have "a mod 10 < b mod 10"
      using Suc.prems mult_div_mod_eq [of 10 a] mult_div_mod_eq [of 10 b] by linarith
    then show ?thesis using True Suc.prems by (simp add: pad_Suc append_less_right digit_char_less)
  next
    case False
    have "a div 10 \<le> b div 10" using Suc.prems by (intro zdiv_mono1) auto
    with False have "pad (Suc w) (a div 10) < pad (Suc w) (b div 10)"
      using Suc.prems lim by (intro Suc.IH) auto
    then show ?thesis
      using Suc.prems lim by (simp add: pad_Suc append_less_same_length length_pad pos_imp_zdiv_nonneg_iff)
  qed
qed

text \<open>Instants whose year has four digits (years 1 to 9999), where the layouts have a fixed width.\<close>

definition four_digit_year :: "time \<Rightarrow> bool" where
  "four_digit_year t \<longleftrightarrow> 0 \<le> fst (civil (t div (24 * hour))) \<and> fst (civil (t div (24 * hour))) < 10000"

lemma format_date_parts:
  assumes "four_digit_year t" and "civil (t div (24 * hour)) = (y, m, d)"
  shows "length (pad 4 y) = 4" "length (pad 2 m) = 2" "length (pad 2 d) = 2"
  using assms civil_range [OF assms(2)] length_pad [of y 3] length_pad [of m 1] length_pad [of d 1]
  by (auto simp: four_digit_year_def numeral_eq_Suc)

lemma length_format_date: "four_digit_year t \<Longrightarrow> length (format_date t) = 10"
  using format_date_parts [of t] by (cases "civil (t div (24 * hour))") (simp add: format_date_def)

lemma pad_less_num: "0 \<le> a \<Longrightarrow> a < b \<Longrightarrow> b < 10000 \<Longrightarrow> pad 4 a < pad 4 b" "0 \<le> a \<Longrightarrow> a < b \<Longrightarrow> b < 100 \<Longrightarrow> pad 2 a < pad 2 b"
  using pad_less [of a b 3] pad_less [of a b 1] by (simp_all add: numeral_eq_Suc)

lemma format_date_less:
  assumes "t div (24 * hour) < u div (24 * hour)" and ft: "four_digit_year t" and fu: "four_digit_year u"
  shows "format_date t < format_date u"
proof -
  obtain y m d y' m' d' where c: "civil (t div (24 * hour)) = (y, m, d)" "civil (u div (24 * hour)) = (y', m', d')"
    by (metis prod_cases3)
  note len = format_date_parts [OF ft c(1)] format_date_parts [OF fu c(2)]
  have y: "0 \<le> y" "y' < 10000" using ft fu c by (simp_all add: four_digit_year_def)
  note rng = civil_range [OF c(1)] civil_range [OF c(2)]
  consider "y < y'" | "y = y'" "m < m'" | "y = y'" "m = m'" "d < d'"
    using civil_less [OF assms(1) c] by blast
  then show ?thesis
    by cases (use c y len rng in \<open>simp_all add: format_date_def append_less_same_length append_less_right pad_less_num\<close>)
qed

lemma format_hour_less:
  assumes "t div hour < u div hour" and ft: "four_digit_year t" and fu: "four_digit_year u"
  shows "format_hour t < format_hour u"
proof (cases "t div (24 * hour) = u div (24 * hour)")
  case True
  then have "format_date t = format_date u" by (simp add: format_date_def)
  moreover have "hour_of_day t < hour_of_day u"
    using True assms(1) mult_div_mod_eq [of 24 "t div hour"] mult_div_mod_eq [of 24 "u div hour"]
    unfolding hours_split by linarith
  ultimately show ?thesis
    using hour_of_day_range [of t] hour_of_day_range [of u]
    by (simp add: format_hour_def append_less_right pad_less_num)
next
  case False
  have "t div (24 * hour) \<le> u div (24 * hour)"
    using assms(1) unfolding hours_split by (intro zdiv_mono1) auto
  with False have "format_date t < format_date u" by (intro format_date_less ft fu) simp
  then show ?thesis
    by (simp add: format_hour_def append_less_same_length length_format_date ft fu)
qed

lemma format_hour_le_iff:
  assumes "four_digit_year t" and "four_digit_year u"
  shows "format_hour t \<le> format_hour u \<longleftrightarrow> t div hour \<le> u div hour"
  using assms format_hour_less [of t u] format_hour_less [of u t] format_hour_same_hour [of t u]
  by (metis linorder_not_less order_less_imp_le order_le_less)


lemma day_start_bucket: "format_date t @ ''T00'' = format_hour (t div (24 * hour) * (24 * hour))"
proof -
  have "pad 2 0 = ''00''" by code_simp
  then show ?thesis by (simp add: format_hour_def format_date_def hour_of_day_def)
qed

lemma four_digit_day_start: "four_digit_year t \<Longrightarrow> four_digit_year (t div (24 * hour) * (24 * hour))"
  by (simp add: four_digit_year_def)

end
