(* ===== verification/Usage_Writer.thy ===== *)
theory Usage_Writer
  imports Store_Schema Go_Time
begin

text \<open>
  The usage writer of \<open>internal/store/usage.go\<close>: a bounded channel of samples, an in-memory
  aggregate, and transactional flushes into \<open>usage_counters\<close>. One goroutine receives, drains and
  flushes; handlers only enqueue, so the component is a machine whose steps are the handler's
  \<open>record\<close> and the cases of the goroutine's \<open>select\<close>.

  The theorems: no accepted sample is lost or counted twice under any interleaving and any pattern
  of database failures (as long as the tenants exist), and what happens when a tenant is deleted
  while a sample of it is still in memory.
\<close>

section \<open>Data\<close>

type_synonym counter_key = "int64 \<times> string \<times> string"

record counter_sample =
  s_tenantID :: int64
  s_signalType :: string
  s_hourBucket :: string
  s_requests :: int64
  s_bytes :: int64
  s_isError :: bool

record counter_accum =
  a_requests :: int64
  a_bytes :: int64
  a_errors :: int64

definition usageWriterBufferSize :: nat where
  "usageWriterBufferSize = 65536"

text \<open>\<open>w_accum\<close> is the map from keys to aggregates, as an association list with one entry per key.\<close>

record usage_writer =
  w_ch :: "counter_sample list"
  w_accum :: "(counter_key \<times> counter_accum) list"
  w_dropped :: int64
  w_stopped :: bool

definition NewUsageWriter :: usage_writer where
  "NewUsageWriter = \<lparr>w_ch = [], w_accum = [], w_dropped = 0, w_stopped = False\<rparr>"

definition sample_key :: "counter_sample \<Rightarrow> counter_key" where
  "sample_key s = (s_tenantID s, s_signalType s, s_hourBucket s)"

section \<open>Aggregation\<close>

definition zero_accum :: counter_accum where
  "zero_accum = \<lparr>a_requests = 0, a_bytes = 0, a_errors = 0\<rparr>"

definition add_accum :: "counter_accum \<Rightarrow> counter_accum \<Rightarrow> counter_accum" where
  "add_accum a b =
     \<lparr>a_requests = wrap64 (a_requests a + a_requests b), a_bytes = wrap64 (a_bytes a + a_bytes b),
      a_errors = wrap64 (a_errors a + a_errors b)\<rparr>"

definition sample_accum :: "counter_sample \<Rightarrow> counter_accum" where
  "sample_accum s =
     \<lparr>a_requests = s_requests s, a_bytes = s_bytes s, a_errors = (if s_isError s then 1 else 0)\<rparr>"

text \<open>Look the key up, create a zero entry when it is missing, add in place.\<close>

fun bump :: "counter_key \<Rightarrow> counter_accum \<Rightarrow> (counter_key \<times> counter_accum) list
    \<Rightarrow> (counter_key \<times> counter_accum) list" where
  "bump k v [] = [(k, add_accum zero_accum v)]"
| "bump k v ((k', a) # xs) = (if k' = k then (k', add_accum a v) # xs else (k', a) # bump k v xs)"

definition accumulate :: "counter_sample \<Rightarrow> usage_writer \<Rightarrow> usage_writer" where
  "accumulate s w = w\<lparr>w_accum := bump (sample_key s) (sample_accum s) (w_accum w)\<rparr>"

definition drain :: "usage_writer \<Rightarrow> usage_writer" where
  "drain w = fold accumulate (w_ch w) (w\<lparr>w_ch := []\<rparr>)"

section \<open>Flushing\<close>

definition restore :: "(counter_key \<times> counter_accum) list \<Rightarrow> usage_writer \<Rightarrow> usage_writer" where
  "restore snapshot w = w\<lparr>w_accum := fold (\<lambda>(k, v). bump k v) snapshot (w_accum w)\<rparr>"

definition row_of :: "counter_key \<Rightarrow> counter_accum \<Rightarrow> counter_row" where
  "row_of k v = (case k of (t, s, h) \<Rightarrow>
     \<lparr>uc_tenant_id = t, uc_signal_type = s, uc_hour_bucket = h, uc_requests = a_requests v,
      uc_bytes = a_bytes v, uc_errors = a_errors v\<rparr>)"

fun upsert_row :: "counter_key \<Rightarrow> counter_accum \<Rightarrow> counter_row list \<Rightarrow> counter_row list" where
  "upsert_row k v [] = [row_of k v]"
| "upsert_row k v (r # rs) =
     (if counter_pk r = k
      then r\<lparr>uc_requests := uc_requests r + a_requests v, uc_bytes := uc_bytes r + a_bytes v,
             uc_errors := uc_errors r + a_errors v\<rparr> # rs
      else r # upsert_row k v rs)"

text \<open>The INSERT ... ON CONFLICT DO UPDATE of one key; the foreign key refuses an unknown tenant.\<close>

definition upsert_counter :: "counter_key \<Rightarrow> counter_accum \<Rightarrow> db \<Rightarrow> db option" where
  "upsert_counter k v d =
     (if fst k \<in> tenant_ids d then Some (d\<lparr>t_usage_counters := upsert_row k v (t_usage_counters d)\<rparr>)
      else None)"

text \<open>The loop over the snapshot inside the transaction; it stops at the first failing statement.\<close>

fun exec_snapshot :: "(counter_key \<times> counter_accum) list \<Rightarrow> db \<Rightarrow> unit result \<times> db" where
  "exec_snapshot [] d = (Inr (), d)"
| "exec_snapshot ((k, v) # xs) d =
     (case sql_exec (upsert_counter k v) d of
        (Inl e, d1) \<Rightarrow> (Inl e, d1)
      | (Inr _, d1) \<Rightarrow> exec_snapshot xs d1)"

text \<open>Undoing a transaction: the tables of its beginning, with the faults that were used up.\<close>

definition rollback :: "db \<Rightarrow> db \<Rightarrow> db" where
  "rollback d0 d = d0\<lparr>db_faults := db_faults d\<rparr>"

text \<open>\<open>Begin\<close>, \<open>Prepare\<close> and \<open>Commit\<close> are statements that can fail and change no table.\<close>

definition sql_control :: "db \<Rightarrow> unit result \<times> db" where
  "sql_control d = sql_exec Some d"

definition flush :: "usage_writer \<times> db \<Rightarrow> usage_writer \<times> db" where
  "flush wd =
     (case wd of (w, d) \<Rightarrow>
      let snapshot = w_accum w; w1 = w\<lparr>w_accum := []\<rparr> in
      if snapshot = [] then (w1, d)
      else case sql_control d of
        (Inl _, d1) \<Rightarrow> (restore snapshot w1, d1)
      | (Inr _, d1) \<Rightarrow>
          (case sql_control d1 of
             (Inl _, d2) \<Rightarrow> (restore snapshot w1, rollback d d2)
           | (Inr _, d2) \<Rightarrow>
               (case exec_snapshot snapshot d2 of
                  (Inl _, d3) \<Rightarrow> (restore snapshot w1, rollback d d3)
                | (Inr _, d3) \<Rightarrow>
                    (case sql_control d3 of
                       (Inl _, d4) \<Rightarrow> (restore snapshot w1, rollback d d4)
                     | (Inr _, d4) \<Rightarrow> (w1, d4)))))"

section \<open>The interface of the component\<close>

text \<open>A non-blocking send: a full channel drops the sample and counts it.\<close>

definition record_sample :: "counter_sample \<Rightarrow> usage_writer \<Rightarrow> usage_writer" where
  "record_sample s w =
     (if length (w_ch w) < usageWriterBufferSize then w\<lparr>w_ch := w_ch w @ [s]\<rparr>
      else w\<lparr>w_dropped := wrap64 (w_dropped w + 1)\<rparr>)"

definition usage_sample :: "time \<Rightarrow> int64 \<Rightarrow> string \<Rightarrow> int64 \<Rightarrow> int64 \<Rightarrow> counter_sample" where
  "usage_sample now tenantID signalType statusCode byteCount =
     \<lparr>s_tenantID = tenantID, s_signalType = signalType, s_hourBucket = format_hour now,
      s_requests = 1, s_bytes = byteCount, s_isError = (statusCode \<ge> 400)\<rparr>"

definition RecordUsage ::
  "time \<Rightarrow> int64 \<Rightarrow> string \<Rightarrow> int64 \<Rightarrow> int64 \<Rightarrow> usage_writer \<Rightarrow> usage_writer" where
  "RecordUsage now tenantID signalType statusCode byteCount w =
     record_sample (usage_sample now tenantID signalType statusCode byteCount) w"

definition DroppedSamples :: "usage_writer \<Rightarrow> int64" where
  "DroppedSamples w = w_dropped w"

text \<open>
  The steps: a handler records; the goroutine receives one sample, serves a flush request
  (\<open>FlushCounters\<close>), flushes on its ticker, or stops (\<open>Stop\<close>: drain, flush, exit). After the stop
  only \<open>record\<close> still runs; \<open>FlushCounters\<close> returns at once.
\<close>

datatype writer_event = Record counter_sample | Recv | FlushReq | Tick | StopWriter

fun writer_step :: "writer_event \<Rightarrow> usage_writer \<times> db \<Rightarrow> usage_writer \<times> db" where
  "writer_step (Record s) (w, d) = (record_sample s w, d)"
| "writer_step Recv (w, d) =
     (if w_stopped w then (w, d)
      else case w_ch w of [] \<Rightarrow> (w, d) | s # ss \<Rightarrow> (accumulate s (w\<lparr>w_ch := ss\<rparr>), d))"
| "writer_step FlushReq (w, d) = (if w_stopped w then (w, d) else flush (drain w, d))"
| "writer_step Tick (w, d) = (if w_stopped w then (w, d) else flush (w, d))"
| "writer_step StopWriter (w, d) =
     (if w_stopped w then (w, d)
      else case flush (drain w, d) of (w', d') \<Rightarrow> (w'\<lparr>w_stopped := True\<rparr>, d'))"

section \<open>Reading usage\<close>

text \<open>\<open>SUM\<close> over integers; SQLite reports an error when the sum leaves 64 bits.\<close>

definition sql_sum :: "int list \<Rightarrow> int64 option result" where
  "sql_sum xs =
     (if xs = [] then Inr None
      else if in_int64 (sum_list xs) then Inr (Some (sum_list xs)) else Inl (Msg ''integer overflow''))"

definition coalesce0 :: "int64 option result \<Rightarrow> int64 result" where
  "coalesce0 r = (case r of Inl e \<Rightarrow> Inl e | Inr None \<Rightarrow> Inr 0 | Inr (Some v) \<Rightarrow> Inr v)"

definition flat :: "'a result result \<times> db \<Rightarrow> 'a result \<times> db" where
  "flat x = (case x of (Inl e, d) \<Rightarrow> (Inl e, d) | (Inr r, d) \<Rightarrow> (r, d))"

definition CounterTotals :: "int64 \<Rightarrow> db \<Rightarrow> (int64 \<times> int64 \<times> int64) result \<times> db" where
  "CounterTotals tid d =
     flat (sql_query (\<lambda>d. let rs = filter (\<lambda>r. uc_tenant_id r = tid) (t_usage_counters d) in
        case (coalesce0 (sql_sum (map uc_requests rs)), coalesce0 (sql_sum (map uc_bytes rs)),
              coalesce0 (sql_sum (map uc_errors rs))) of
          (Inr a, Inr b, Inr c) \<Rightarrow> Inr (a, b, c) | _ \<Rightarrow> Inl (Msg ''integer overflow'')) d)"

definition usage_since :: "int64 \<Rightarrow> string \<Rightarrow> db \<Rightarrow> counter_row list" where
  "usage_since tid since d =
     filter (\<lambda>r. uc_tenant_id r = tid \<and> since \<le> uc_hour_bucket r) (t_usage_counters d)"

definition GetDailyByteUsage :: "time \<Rightarrow> int64 \<Rightarrow> db \<Rightarrow> int64 result \<times> db" where
  "GetDailyByteUsage now tid d =
     flat (sql_query (\<lambda>d. coalesce0 (sql_sum (map uc_bytes (usage_since tid (format_date now @ ''T00'') d)))) d)"

text \<open>\<open>GROUP BY f\<close> with one aggregate, the groups in the order of their label.\<close>

definition group_sum :: "(counter_row \<Rightarrow> string) \<Rightarrow> (counter_row \<Rightarrow> int) \<Rightarrow> counter_row list \<Rightarrow> (string \<times> int) list" where
  "group_sum f v rs =
     map (\<lambda>l. (l, sum_list (map v (filter (\<lambda>r. f r = l) rs)))) (sort (remdups (map f rs)))"

definition checked_groups :: "(string \<times> int) list \<Rightarrow> (string \<times> int64) list result" where
  "checked_groups gs = (if list_all (\<lambda>g. in_int64 (snd g)) gs then Inr gs else Inl (Msg ''integer overflow''))"

definition getUsageRequests :: "int64 \<Rightarrow> string \<Rightarrow> int64 \<Rightarrow> db \<Rightarrow> (string \<times> int64) list result \<times> db" where
  "getUsageRequests tid since hours d =
     flat (sql_query (\<lambda>d. checked_groups (group_sum
        (if hours > 168 then (\<lambda>r. take 10 (uc_hour_bucket r)) else uc_hour_bucket)
        uc_requests (usage_since tid since d))) d)"

definition getUsageVolumes :: "int64 \<Rightarrow> string \<Rightarrow> db \<Rightarrow> (string \<times> int64) list result \<times> db" where
  "getUsageVolumes tid since d =
     flat (sql_query (\<lambda>d. checked_groups (group_sum (\<lambda>r. take 10 (uc_hour_bucket r))
        uc_bytes (usage_since tid since d))) d)"

definition getUsageSignalTypes :: "int64 \<Rightarrow> string \<Rightarrow> db \<Rightarrow> (string \<times> int64) list result \<times> db" where
  "getUsageSignalTypes tid since d =
     flat (sql_query (\<lambda>d. map_sum id (order_desc snd)
        (checked_groups (group_sum uc_signal_type uc_requests (usage_since tid since d)))) d)"

record usage_data =
  ud_Requests :: "(string \<times> int64) list"
  ud_Volumes :: "(string \<times> int64) list"
  ud_SignalTypes :: "(string \<times> int64) list"

definition range_hours :: "string \<Rightarrow> int64" where
  "range_hours rng = (if rng = ''24h'' then 24 else if rng = ''7d'' then 168 else if rng = ''30d'' then 720 else 168)"

definition GetUsageData :: "time \<Rightarrow> int64 \<Rightarrow> string \<Rightarrow> db \<Rightarrow> usage_data result \<times> db" where
  "GetUsageData now tid rng d =
     (let hours = range_hours rng; since = format_hour (now - hours * hour) in
      case getUsageRequests tid since hours d of
        (Inl e, d1) \<Rightarrow> (Inl e, d1)
      | (Inr requests, d1) \<Rightarrow>
          (case getUsageVolumes tid since d1 of
             (Inl e, d2) \<Rightarrow> (Inl e, d2)
           | (Inr volumes, d2) \<Rightarrow>
               (case getUsageSignalTypes tid since d2 of
                  (Inl e, d3) \<Rightarrow> (Inl e, d3)
                | (Inr signalTypes, d3) \<Rightarrow>
                    (Inr \<lparr>ud_Requests = requests, ud_Volumes = volumes, ud_SignalTypes = signalTypes\<rparr>, d3))))"

section \<open>Retention\<close>

definition delete_old_counters :: "string \<Rightarrow> db \<Rightarrow> db option" where
  "delete_old_counters threshold d =
     Some (d\<lparr>t_usage_counters := filter (\<lambda>r. \<not> uc_hour_bucket r < threshold) (t_usage_counters d)\<rparr>)"

definition delete_old_logs :: "time \<Rightarrow> db \<Rightarrow> db option" where
  "delete_old_logs threshold d =
     Some (d\<lparr>t_usage_logs := filter (\<lambda>r. \<not> ul_created_at r < threshold) (t_usage_logs d)\<rparr>)"

text \<open>In UTC, \<open>AddDate (0, 0, -n)\<close> is \<open>n\<close> times 24 hours.\<close>

definition CleanupOldCounters :: "time \<Rightarrow> int64 \<Rightarrow> db \<Rightarrow> unit result \<times> db" where
  "CleanupOldCounters now retentionDays d =
     (let days = (if retentionDays \<le> 0 then 90 else retentionDays);
          threshold = format_hour (now - days * 24 * hour)
      in case sql_exec (delete_old_counters threshold) d of
           (Inl e, d1) \<Rightarrow> (Inl e, d1)
         | (Inr _, d1) \<Rightarrow>
             (case sql_exec (delete_old_logs (current_timestamp now - days * 24 * hour)) d1 of
                (Inl e, d2) \<Rightarrow> (Inl e, d2)
              | (Inr _, d2) \<Rightarrow> (Inr (), d2)))"

section \<open>Conservation\<close>

text \<open>
  The abstract ledger of one key and one field: what the table, the aggregate and the channel hold
  together. Go's additions wrap, so the ledger is read modulo \<open>2 ^ 64\<close>.
\<close>

datatype usage_field = Requests | Bytes | Errors

fun acc_field :: "usage_field \<Rightarrow> counter_accum \<Rightarrow> int" where
  "acc_field Requests a = a_requests a"
| "acc_field Bytes a = a_bytes a"
| "acc_field Errors a = a_errors a"

fun row_field :: "usage_field \<Rightarrow> counter_row \<Rightarrow> int" where
  "row_field Requests r = uc_requests r"
| "row_field Bytes r = uc_bytes r"
| "row_field Errors r = uc_errors r"

definition row_sum :: "usage_field \<Rightarrow> counter_key \<Rightarrow> counter_row list \<Rightarrow> int" where
  "row_sum f k rs = sum_list (map (row_field f) (filter (\<lambda>r. counter_pk r = k) rs))"

definition accum_sum :: "usage_field \<Rightarrow> counter_key \<Rightarrow> (counter_key \<times> counter_accum) list \<Rightarrow> int" where
  "accum_sum f k xs = sum_list (map (\<lambda>e. acc_field f (snd e)) (filter (\<lambda>e. fst e = k) xs))"

definition chan_sum :: "usage_field \<Rightarrow> counter_key \<Rightarrow> counter_sample list \<Rightarrow> int" where
  "chan_sum f k ss = sum_list (map (\<lambda>s. acc_field f (sample_accum s)) (filter (\<lambda>s. sample_key s = k) ss))"

definition ledger :: "usage_field \<Rightarrow> counter_key \<Rightarrow> usage_writer \<times> db \<Rightarrow> int" where
  "ledger f k wd = (case wd of (w, d) \<Rightarrow>
     row_sum f k (t_usage_counters d) + accum_sum f k (w_accum w) + chan_sum f k (w_ch w))"

lemma acc_field_add: "acc_field f (add_accum a b) = wrap64 (acc_field f a + acc_field f b)"
  by (cases f) (simp_all add: add_accum_def)

lemma acc_field_zero [simp]: "acc_field f zero_accum = 0"
  by (cases f) (simp_all add: zero_accum_def)

lemma chan_sum_simps [simp]:
  "chan_sum f k [] = 0"
  "chan_sum f k (s # ss) = (if sample_key s = k then acc_field f (sample_accum s) else 0) + chan_sum f k ss"
  "chan_sum f k (ss @ ts) = chan_sum f k ss + chan_sum f k ts"
  by (simp_all add: chan_sum_def)

lemma accum_sum_simps [simp]:
  "accum_sum f k [] = 0"
  "accum_sum f k (e # xs) = (if fst e = k then acc_field f (snd e) else 0) + accum_sum f k xs"
  by (simp_all add: accum_sum_def)

lemma row_sum_simps [simp]:
  "row_sum f k [] = 0"
  "row_sum f k (r # rs) = (if counter_pk r = k then row_field f r else 0) + row_sum f k rs"
  by (simp_all add: row_sum_def)

text \<open>Congruence modulo the width of the counters.\<close>

lemma wrap64_add_cong: "wrap64 x = wrap64 y \<Longrightarrow> wrap64 (z + x) = wrap64 (z + y)"
  by (metis wrap64_wrap_right)

lemma accum_sum_bump:
  "wrap64 (accum_sum f k (bump k' v xs)) = wrap64 ((if k' = k then acc_field f v else 0) + accum_sum f k xs)"
proof (induction k' v xs rule: bump.induct)
  case (1 k' v)
  then show ?case by (simp add: acc_field_add)
next
  case (2 k' v k2 a xs)
  show ?case
  proof (cases "k2 = k'")
    case True
    have "wrap64 (wrap64 (acc_field f a + acc_field f v) + accum_sum f k xs)
        = wrap64 (acc_field f v + (acc_field f a + accum_sum f k xs))"
      by (simp only: wrap64_wrap_left) (simp add: algebra_simps)
    then show ?thesis using True by (simp add: acc_field_add)
  next
    case False
    then show ?thesis
      using wrap64_add_cong [OF "2.IH" [OF False], of "if k2 = k then acc_field f a else 0"]
      by (auto simp: algebra_simps split: if_splits)
  qed
qed

lemma accum_sum_restore:
  "wrap64 (accum_sum f k (fold (\<lambda>(k, v). bump k v) snap xs)) = wrap64 (accum_sum f k snap + accum_sum f k xs)"
proof (induction snap arbitrary: xs)
  case (Cons e snap)
  obtain k' v where e: "e = (k', v)" by (cases e)
  have "wrap64 (accum_sum f k snap + accum_sum f k (bump k' v xs))
      = wrap64 (accum_sum f k snap + ((if k' = k then acc_field f v else 0) + accum_sum f k xs))"
    by (rule wrap64_add_cong [OF accum_sum_bump])
  then show ?case by (simp add: Cons.IH e algebra_simps)
qed simp

lemma row_sum_upsert:
  "row_sum f k (upsert_row k' v rs) = (if k' = k then acc_field f v else 0) + row_sum f k rs"
  by (induction k' v rs rule: upsert_row.induct)
     (auto simp: row_of_def counter_pk_def split: prod.splits intro: usage_field.exhaust [of f])


lemma accum_sum_accumulate:
  "wrap64 (accum_sum f k (w_accum (fold accumulate ss w))) = wrap64 (chan_sum f k ss + accum_sum f k (w_accum w))"
proof (induction ss arbitrary: w)
  case (Cons s ss)
  have "wrap64 (chan_sum f k ss + accum_sum f k (w_accum (accumulate s w)))
      = wrap64 (chan_sum f k ss + ((if sample_key s = k then acc_field f (sample_accum s) else 0) + accum_sum f k (w_accum w)))"
    using wrap64_add_cong [OF accum_sum_bump] by (simp add: accumulate_def)
  then show ?case by (simp add: Cons.IH algebra_simps)
qed simp

lemma accumulate_frame [simp]:
  "w_ch (fold accumulate ss w) = w_ch w" "w_dropped (fold accumulate ss w) = w_dropped w"
  "w_stopped (fold accumulate ss w) = w_stopped w"
  by (induction ss arbitrary: w) (simp_all add: accumulate_def)

lemma drain_frame [simp]:
  "w_ch (drain w) = []" "w_dropped (drain w) = w_dropped w" "w_stopped (drain w) = w_stopped w"
  by (simp_all add: drain_def)

lemma ledger_drain: "wrap64 (ledger f k (drain w, d)) = wrap64 (ledger f k (w, d))"
proof -
  have "wrap64 (row_sum f k (t_usage_counters d) + accum_sum f k (w_accum (drain w)))
      = wrap64 (row_sum f k (t_usage_counters d) + (chan_sum f k (w_ch w) + accum_sum f k (w_accum w)))"
    unfolding drain_def by (rule wrap64_add_cong) (simp add: accum_sum_accumulate)
  then show ?thesis by (simp add: ledger_def algebra_simps)
qed

text \<open>The outcomes of a flush: nothing to do, everything committed, or everything put back.\<close>

lemma exec_snapshot_Inr:
  "exec_snapshot snap d = (Inr u, d') \<Longrightarrow>
     row_sum f k (t_usage_counters d') = accum_sum f k snap + row_sum f k (t_usage_counters d)"
proof (induction snap d arbitrary: u d' rule: exec_snapshot.induct)
  case (2 k' v xs d)
  from "2.prems" obtain d1 where e: "sql_exec (upsert_counter k' v) d = (Inr (), d1)"
    and r: "exec_snapshot xs d1 = (Inr u, d')"
    by (auto split: prod.splits sum.splits)
  have "row_sum f k (t_usage_counters d1) = (if k' = k then acc_field f v else 0) + row_sum f k (t_usage_counters d)"
    using e by (auto simp: sql_exec_Inr upsert_counter_def row_sum_upsert split: if_splits)
  then show ?case using "2.IH" [OF e [symmetric] refl r] by simp
qed simp

lemma sql_control_eq: "sql_control d = (if next_fault d then Inl DBError else Inr (), pop_fault d)"
  by (simp add: sql_control_def sql_exec_def)

lemma flush_cases:
  obtains (idle) "w_accum w = []" "flush (w, d) = (w, d)"
  | (commit) d3 where "w_accum w \<noteq> []" "flush (w, d) = (w\<lparr>w_accum := []\<rparr>, pop_fault d3)"
      "exec_snapshot (w_accum w) (pop_fault (pop_fault d)) = (Inr (), d3)"
  | (put_back) fs where "w_accum w \<noteq> []"
      "flush (w, d) = (restore (w_accum w) (w\<lparr>w_accum := []\<rparr>), d\<lparr>db_faults := fs\<rparr>)"
proof -
  obtain r d3 where x: "exec_snapshot (w_accum w) (pop_fault (pop_fault d)) = (r, d3)" by fastforce
  show thesis
  proof (cases "w_accum w = []")
    case True
    then have "flush (w, d) = (w, d)" by (cases w) (simp add: flush_def)
    then show ?thesis using idle True by blast
  next
    case ne: False
    show ?thesis
    proof (cases "\<not> next_fault d \<and> \<not> next_fault (pop_fault d) \<and> r = Inr () \<and> \<not> next_fault d3")
      case True
      then show ?thesis using commit [OF ne] x ne by (simp add: flush_def sql_control_eq)
    next
      case False
      then have "\<exists>fs. flush (w, d) = (restore (w_accum w) (w\<lparr>w_accum := []\<rparr>), d\<lparr>db_faults := fs\<rparr>)"
        using ne x by (cases r) (auto simp: flush_def sql_control_eq rollback_def pop_fault_def [of d])
      then show ?thesis using put_back [OF ne] by blast
    qed
  qed
qed

lemma ledger_flush: "wrap64 (ledger f k (flush (w, d))) = wrap64 (ledger f k (w, d))"
proof (cases rule: flush_cases [of w d])
  case idle
  then show ?thesis by simp
next
  case (commit d3)
  then show ?thesis
    using exec_snapshot_Inr [OF commit(3), of f k] by (simp add: ledger_def algebra_simps)
next
  case (put_back fs)
  let ?R = "row_sum f k (t_usage_counters d)" and ?C = "chan_sum f k (w_ch w)"
  have "wrap64 (?C + ?R + accum_sum f k (fold (\<lambda>(k, v). bump k v) (w_accum w) []))
      = wrap64 (?C + ?R + accum_sum f k (w_accum w))"
    by (rule wrap64_add_cong) (simp add: accum_sum_restore)
  then show ?thesis using put_back(2) by (simp add: ledger_def restore_def algebra_simps)
qed

text \<open>The samples that \<open>record\<close> accepts along a run, and the ones it drops.\<close>

fun accepted :: "writer_event list \<Rightarrow> usage_writer \<times> db \<Rightarrow> counter_sample list" where
  "accepted [] wd = []"
| "accepted (e # es) wd =
     (case e of Record s \<Rightarrow> (if length (w_ch (fst wd)) < usageWriterBufferSize then [s] else []) | _ \<Rightarrow> [])
     @ accepted es (writer_step e wd)"

definition recorded :: "writer_event list \<Rightarrow> counter_sample list" where
  "recorded es = List.map_filter (\<lambda>e. case e of Record s \<Rightarrow> Some s | _ \<Rightarrow> None) es"

lemma ledger_stopped [simp]: "ledger f k (w\<lparr>w_stopped := b\<rparr>, d) = ledger f k (w, d)"
  by (simp add: ledger_def)

lemma ledger_step:
  "wrap64 (ledger f k (writer_step e wd)) = wrap64 (ledger f k wd + chan_sum f k (accepted [e] wd))"
proof (cases wd)
  case (Pair w d)
  show ?thesis
  proof (cases e)
    case (Record s)
    then show ?thesis by (simp add: Pair record_sample_def ledger_def algebra_simps)
  next
    case Recv
    have "wrap64 (row_sum f k (t_usage_counters d) + chan_sum f k ss + accum_sum f k (w_accum (accumulate s (w\<lparr>w_ch := ss\<rparr>))))
        = wrap64 (row_sum f k (t_usage_counters d) + chan_sum f k ss +
            ((if sample_key s = k then acc_field f (sample_accum s) else 0) + accum_sum f k (w_accum w)))" for s ss
      using wrap64_add_cong [OF accum_sum_bump] by (simp add: accumulate_def)
    then show ?thesis using Recv
      by (simp add: Pair ledger_def algebra_simps accumulate_def split: list.splits)
  next
    case StopWriter
    obtain w' d' where f: "flush (drain w, d) = (w', d')" by fastforce
    then show ?thesis
      using StopWriter ledger_flush [of f k "drain w" d] ledger_drain [of f k w d] by (simp add: Pair)
  qed (simp_all add: Pair ledger_flush ledger_drain)
qed

lemma ledger_run:
  "wrap64 (ledger f k (fold writer_step es wd)) = wrap64 (ledger f k wd + chan_sum f k (accepted es wd))"
proof (induction es arbitrary: wd)
  case (Cons e es)
  have "wrap64 (ledger f k (writer_step e wd) + chan_sum f k (accepted es (writer_step e wd)))
      = wrap64 (ledger f k wd + chan_sum f k (accepted [e] wd) + chan_sum f k (accepted es (writer_step e wd)))"
    by (metis ledger_step wrap64_wrap_left)
  then show ?case by (simp add: Cons.IH algebra_simps)
qed simp


lemma record_frame [simp]: "w_accum (record_sample s w) = w_accum w" "w_stopped (record_sample s w) = w_stopped w"
  by (simp_all add: record_sample_def)

lemma flush_frame [simp]:
  "w_ch (fst (flush (w, d))) = w_ch w" "w_dropped (fst (flush (w, d))) = w_dropped w"
  "w_stopped (fst (flush (w, d))) = w_stopped w"
  by (cases rule: flush_cases [of w d]; simp add: restore_def)+

text \<open>The channel never exceeds its buffer: memory is bounded by construction.\<close>

definition writer_bounded :: "usage_writer \<times> db \<Rightarrow> bool" where
  "writer_bounded wd \<longleftrightarrow> length (w_ch (fst wd)) \<le> usageWriterBufferSize"

lemma writer_step_bounded: "writer_bounded wd \<Longrightarrow> writer_bounded (writer_step e wd)"
  by (cases wd; cases e)
     (auto simp: writer_bounded_def record_sample_def accumulate_def case_prod_unfold split: list.splits)

interpretation writer_queue: step_machine writer_step writer_bounded
  by unfold_locales (rule writer_step_bounded)

section \<open>The schema invariant\<close>

lemma upsert_row_pk: "map counter_pk (upsert_row k v rs) =
    (if k \<in> counter_pk ` set rs then map counter_pk rs else map counter_pk rs @ [k])"
  by (induction k v rs rule: upsert_row.induct) (auto simp: row_of_def counter_pk_def split: prod.splits)

lemma upsert_row_tenants: "uc_tenant_id ` set (upsert_row k v rs) \<subseteq> insert (fst k) (uc_tenant_id ` set rs)"
  by (induction k v rs rule: upsert_row.induct) (auto simp: row_of_def split: prod.splits)

lemma upsert_counters_ok: "counters_ok T rs \<Longrightarrow> fst k \<in> T \<Longrightarrow> counters_ok T (upsert_row k v rs)"
proof -
  assume *: "counters_ok T rs" "fst k \<in> T"
  then have "insert (fst k) (uc_tenant_id ` set rs) \<subseteq> T" by (simp add: counters_ok_def)
  with upsert_row_tenants have "uc_tenant_id ` set (upsert_row k v rs) \<subseteq> T" by (rule order_trans)
  then show ?thesis using * by (auto simp: counters_ok_def upsert_row_pk image_subset_iff)
qed

lemma upsert_counter_inv: "db_inv d \<Longrightarrow> upsert_counter k v d = Some d' \<Longrightarrow> db_inv d'"
  by (auto simp: upsert_counter_def db_inv_def tenant_ids_def upsert_counters_ok split: if_splits)

lemma exec_snapshot_inv: "db_inv d \<Longrightarrow> db_inv (snd (exec_snapshot snap d))"
proof (induction snap d rule: exec_snapshot.induct)
  case (2 k v xs d)
  have "db_inv (snd (sql_exec (upsert_counter k v) d))"
    by (rule sql_exec_inv [OF "2.prems"]) (rule upsert_counter_inv)
  then show ?case using "2.IH" by (auto split: prod.splits sum.splits)
qed simp

lemma db_inv_faults [simp]: "db_inv (d\<lparr>db_faults := fs\<rparr>) = db_inv d"
  by (simp add: db_inv_def tenant_ids_def)

lemma flush_inv: "db_inv d \<Longrightarrow> db_inv (snd (flush (w, d)))"
proof (cases rule: flush_cases [of w d])
  case (commit d3)
  assume "db_inv d"
  then have "db_inv d3" using exec_snapshot_inv [of "pop_fault (pop_fault d)" "w_accum w"] commit(3) by simp
  then show ?thesis using commit(2) by simp
qed simp_all

lemma writer_step_inv: "db_inv (snd wd) \<Longrightarrow> db_inv (snd (writer_step e wd))"
  by (cases wd; cases e) (auto simp: flush_inv case_prod_unfold split: list.splits)

interpretation writer_db: step_machine writer_step "\<lambda>wd. db_inv (snd wd)"
  by unfold_locales (rule writer_step_inv)

section \<open>A deleted tenant wedges the writer\<close>

text \<open>
  A sample of a tenant that has been deleted meanwhile violates the foreign key of
  \<open>usage_counters\<close>. The flush is one transaction, so the bad key rolls back every other key too, and
  \<open>restore\<close> keeps it for the next attempt.
\<close>

definition key_tenants :: "(counter_key \<times> counter_accum) list \<Rightarrow> int64 set" where
  "key_tenants xs = fst ` fst ` set xs"

definition poisoned :: "usage_writer \<times> db \<Rightarrow> bool" where
  "poisoned wd \<longleftrightarrow> \<not> key_tenants (w_accum (fst wd)) \<subseteq> tenant_ids (snd wd)"

lemma key_tenants_bump [simp]: "key_tenants (bump k v xs) = insert (fst k) (key_tenants xs)"
  unfolding key_tenants_def by (induction k v xs rule: bump.induct) auto

lemma key_tenants_simps [simp]: "key_tenants [] = {}" "key_tenants (e # xs) = insert (fst (fst e)) (key_tenants xs)"
  by (simp_all add: key_tenants_def)

lemma restore_keys: "key_tenants (fold (\<lambda>(k, v). bump k v) snap xs) = key_tenants snap \<union> key_tenants xs"
  by (induction snap arbitrary: xs) (simp_all add: case_prod_unfold)

lemma accumulate_keys: "key_tenants (w_accum (fold accumulate ss w)) = s_tenantID ` set ss \<union> key_tenants (w_accum w)"
  by (induction ss arbitrary: w) (simp_all add: accumulate_def sample_key_def)

lemma exec_snapshot_Inr_known:
  "exec_snapshot snap d = (Inr u, d') \<Longrightarrow> key_tenants snap \<subseteq> tenant_ids d"
proof (induction snap d arbitrary: u d' rule: exec_snapshot.induct)
  case (2 k' v xs d)
  from "2.prems" obtain d1 where e: "sql_exec (upsert_counter k' v) d = (Inr (), d1)"
    and r: "exec_snapshot xs d1 = (Inr u, d')"
    by (auto split: prod.splits sum.splits)
  from e have "fst k' \<in> tenant_ids d" "tenant_ids d1 = tenant_ids d"
    by (auto simp: sql_exec_Inr upsert_counter_def tenant_ids_def split: if_splits)
  then show ?case using "2.IH" [OF e [symmetric] refl r] by auto
qed simp

lemma poisoned_flush:
  assumes "poisoned (w, d)"
  shows "poisoned (flush (w, d)) \<and> t_usage_counters (snd (flush (w, d))) = t_usage_counters d"
proof (cases rule: flush_cases [of w d])
  case idle
  then show ?thesis using assms by (simp add: poisoned_def)
next
  case (commit d3)
  from commit(3) assms have False
    using exec_snapshot_Inr_known [OF commit(3)] by (auto simp: poisoned_def)
  then show ?thesis ..
next
  case (put_back fs)
  then show ?thesis using assms by (simp add: poisoned_def restore_def restore_keys tenant_ids_def)
qed

lemma poisoned_drain: "poisoned (w, d) \<Longrightarrow> poisoned (drain w, d)"
  by (auto simp: poisoned_def drain_def accumulate_keys)

lemma poisoned_step:
  "poisoned wd \<Longrightarrow> poisoned (writer_step e wd) \<and> t_usage_counters (snd (writer_step e wd)) = t_usage_counters (snd wd)"
proof (cases wd)
  case (Pair w d)
  assume p: "poisoned wd"
  show ?thesis
  proof (cases e)
    case Recv
    then show ?thesis using p
      by (auto simp: Pair poisoned_def accumulate_def split: list.splits)
  next
    case StopWriter
    then show ?thesis using p poisoned_flush [OF poisoned_drain, of w d]
      by (auto simp: Pair case_prod_unfold poisoned_def)
  qed (use p poisoned_flush [of w d] poisoned_flush [OF poisoned_drain, of w d] in \<open>auto simp: Pair\<close>,
       simp add: poisoned_def)
qed

lemma poisoned_run:
  "poisoned wd \<Longrightarrow> poisoned (fold writer_step es wd) \<and> t_usage_counters (snd (fold writer_step es wd)) = t_usage_counters (snd wd)"
  by (induction es arbitrary: wd) (simp, metis fold_simps(2) poisoned_step)

section \<open>A flush that succeeds\<close>

lemma exec_snapshot_healthy:
  "healthy d \<Longrightarrow> key_tenants snap \<subseteq> tenant_ids d \<Longrightarrow> \<exists>d'. exec_snapshot snap d = (Inr (), d') \<and> healthy d'"
proof (induction snap arbitrary: d)
  case (Cons e snap)
  obtain k v where e: "e = (k, v)" by (cases e)
  let ?d = "d\<lparr>t_usage_counters := upsert_row k v (t_usage_counters d)\<rparr>"
  have "sql_exec (upsert_counter k v) d = (Inr (), ?d)"
    using Cons.prems e by (simp add: sql_exec_healthy upsert_counter_def)
  moreover have "healthy ?d" "tenant_ids ?d = tenant_ids d"
    using Cons.prems(1) by (simp_all add: healthy_def tenant_ids_def)
  ultimately show ?case using Cons.IH [of ?d] Cons.prems(2) e by simp
qed simp

lemma flush_healthy:
  assumes "healthy d" and "key_tenants (w_accum w) \<subseteq> tenant_ids d"
  shows "w_accum (fst (flush (w, d))) = [] \<and> healthy (snd (flush (w, d)))"
proof -
  obtain d' where "exec_snapshot (w_accum w) d = (Inr (), d')" "healthy d'"
    using exec_snapshot_healthy [OF assms] by blast
  then show ?thesis using assms(1) by (simp add: flush_def sql_control_eq Let_def)
qed

lemma wrap64_row_sum_flush:
  assumes "healthy d" and "key_tenants (w_accum w) \<union> s_tenantID ` set (w_ch w) \<subseteq> tenant_ids d"
  shows "w_accum (fst (flush (drain w, d))) = []"
    "wrap64 (row_sum f k (t_usage_counters (snd (flush (drain w, d))))) = wrap64 (ledger f k (w, d))"
proof -
  have known: "key_tenants (w_accum (drain w)) \<subseteq> tenant_ids d"
    using assms(2) by (simp add: drain_def accumulate_keys)
  show *: "w_accum (fst (flush (drain w, d))) = []"
    using flush_healthy [OF assms(1) known] by simp
  show "wrap64 (row_sum f k (t_usage_counters (snd (flush (drain w, d))))) = wrap64 (ledger f k (w, d))"
    using ledger_flush [of f k "drain w" d] ledger_drain [of f k w d] *
    by (simp add: ledger_def case_prod_unfold)
qed

section \<open>Properties\<close>

lemma dropped_step:
  "w_dropped (fst (writer_step e wd)) = wrap64 (w_dropped (fst wd) + int (length (recorded [e])) - int (length (accepted [e] wd)))"
  if "in_int64 (w_dropped (fst wd))"
  using that
  by (cases wd; cases e)
     (auto simp: recorded_def List.map_filter_simps record_sample_def accumulate_def case_prod_unfold algebra_simps split: list.splits)

lemma dropped_run:
  "in_int64 (w_dropped (fst wd)) \<Longrightarrow> w_dropped (fst (fold writer_step es wd)) =
     wrap64 (w_dropped (fst wd) + int (length (recorded es)) - int (length (accepted es wd)))"
proof (induction es arbitrary: wd)
  case (Cons e es)
  let ?r = "int (length (recorded [e]))" and ?a = "int (length (accepted [e] wd))"
  have step: "w_dropped (fst (writer_step e wd)) = wrap64 (w_dropped (fst wd) + ?r - ?a)"
    by (rule dropped_step [OF Cons.prems])
  have rec: "length (recorded (e # es)) = length (recorded [e]) + length (recorded es)"
    by (simp add: recorded_def List.map_filter_def)
  have "w_dropped (fst (fold writer_step (e # es) wd))
      = wrap64 (wrap64 (w_dropped (fst wd) + ?r - ?a) + (int (length (recorded es)) - int (length (accepted es (writer_step e wd)))))"
    using Cons.IH [of "writer_step e wd"] by (simp add: step wrap64_in_range add_diff_eq)
  also have "\<dots> = wrap64 (w_dropped (fst wd) + int (length (recorded (e # es))) - int (length (accepted (e # es) wd)))"
    unfolding wrap64_wrap_left rec by (simp add: algebra_simps)
  finally show ?case .
qed (simp add: recorded_def)

text \<open>C35. Usage accounting loses nothing and counts nothing twice: for every tenant, signal type and
  hour, after any interleaving of requests, receives, flushes and the shutdown, and whatever database
  statements fail, the committed rows plus what is still in memory equal the rows of the start plus
  every accepted sample (modulo the width of the counters), and the samples that were not accepted
  are exactly the ones \<open>DroppedSamples\<close> reports.\<close>

theorem usage_conserved:
  "let (w, d') = fold writer_step es (NewUsageWriter, d) in
     wrap64 (row_sum f k (t_usage_counters d') + accum_sum f k (w_accum w) + chan_sum f k (w_ch w))
       = wrap64 (row_sum f k (t_usage_counters d) + chan_sum f k (accepted es (NewUsageWriter, d)))
     \<and> DroppedSamples w = wrap64 (int (length (recorded es)) - int (length (accepted es (NewUsageWriter, d))))"
  using ledger_run [of f k es "(NewUsageWriter, d)"] dropped_run [of "(NewUsageWriter, d)" es]
  by (simp add: ledger_def NewUsageWriter_def DroppedSamples_def case_prod_unfold in_int64_def)

text \<open>A flush is all or nothing: it commits the whole snapshot and leaves memory empty, or it
  leaves every table as it was and puts the whole snapshot back.\<close>

lemma flush_all_or_nothing:
  "(let (w', d') = flush (w, d) in
      (w_accum w' = [] \<and> row_sum f k (t_usage_counters d') = row_sum f k (t_usage_counters d) + accum_sum f k (w_accum w)) \<or>
      ((\<exists>fs. d' = d\<lparr>db_faults := fs\<rparr>) \<and> wrap64 (accum_sum f k (w_accum w')) = wrap64 (accum_sum f k (w_accum w))))"
proof (cases rule: flush_cases [of w d])
  case idle
  then show ?thesis by simp
next
  case (commit d3)
  then show ?thesis using exec_snapshot_Inr [OF commit(3), of f k] by simp
next
  case (put_back fs)
  then show ?thesis using accum_sum_restore [of f k "w_accum w" "[]"] by (auto simp: restore_def)
qed

definition demo_tenant :: tenant_row where
  "demo_tenant = \<lparr>tr_id = 1, tr_name = ''acme'', tr_api_key = '''', tr_active = 1, tr_description = '''',
     tr_rate_limit_rps = None, tr_burst_bytes = None, tr_daily_byte_quota = None, tr_created_at = 0, tr_updated_at = 0\<rparr>"

definition demo_db :: db where
  "demo_db = empty_db\<lparr>t_tenants := [demo_tenant], seq_tenants := 1\<rparr>"

lemma demo_db_eq: "healthy demo_db" "tenant_ids demo_db = {1}" "t_usage_counters demo_db = []" "db_inv demo_db"
  by (simp_all add: demo_db_def healthy_def tenant_ids_def empty_db_def demo_tenant_def db_inv_def table_ok_defs)

text \<open>C37. One sample of a tenant that was deleted before the flush stops all accounting: every later
  flush fails on the foreign key, for every tenant, so no committed counter ever changes again.\<close>

theorem deleted_tenant_wedges_writer:
  assumes "\<not> key_tenants (w_accum w) \<subseteq> tenant_ids d"
  shows "t_usage_counters (snd (fold writer_step es (w, d))) = t_usage_counters d"
  using poisoned_run [of "(w, d)" es] assms by (simp add: poisoned_def)

theorem deleted_tenant_wedges_writer_witness:
  "t_usage_counters (snd (fold writer_step
      [Record (usage_sample 0 1 ''traces'' 200 512), Recv, FlushReq, Tick, StopWriter]
      (accumulate (usage_sample 0 7 ''logs'' 200 9) NewUsageWriter, demo_db))) = []"
proof -
  have "\<not> key_tenants (w_accum (accumulate (usage_sample 0 7 ''logs'' 200 9) NewUsageWriter)) \<subseteq> tenant_ids demo_db"
    by (simp add: accumulate_def demo_db_eq usage_sample_def sample_key_def)
  from deleted_tenant_wedges_writer [OF this] show ?thesis by (simp only: demo_db_eq)
qed

text \<open>The daily total that the byte quota is checked against counts exactly the hours of the
  current UTC day and later: text comparison of hour buckets agrees with the order of the hours.\<close>

lemma daily_usage_counts_today:
  assumes "healthy d" and "four_digit_year now"
    and "\<forall>r \<in> set (t_usage_counters d). four_digit_year (at r) \<and> uc_hour_bucket r = format_hour (at r)"
    and "in_int64 (\<Sum>r \<leftarrow> filter (\<lambda>r. uc_tenant_id r = tid \<and> now div (24 * hour) \<le> at r div (24 * hour)) (t_usage_counters d). uc_bytes r)"
  shows "fst (GetDailyByteUsage now tid d) =
    Inr (\<Sum>r \<leftarrow> filter (\<lambda>r. uc_tenant_id r = tid \<and> now div (24 * hour) \<le> at r div (24 * hour)) (t_usage_counters d). uc_bytes r)"
proof -
  let ?t0 = "now div (24 * hour) * (24 * hour)"
  have le: "?t0 div hour \<le> u div hour \<longleftrightarrow> now div (24 * hour) \<le> u div (24 * hour)" for u :: int
  proof -
    have "?t0 div hour = 24 * (now div (24 * hour))"
      using nonzero_mult_div_cancel_right [of hour "now div (24 * hour) * 24"] by (simp add: mult.assoc mult.commute)
    moreover have "24 * a \<le> b \<longleftrightarrow> a \<le> b div 24" for a b :: int by linarith
    ultimately show ?thesis by (simp only: hours_split(1) [of u])
  qed
  have "usage_since tid (format_date now @ ''T00'') d
      = filter (\<lambda>r. uc_tenant_id r = tid \<and> now div (24 * hour) \<le> at r div (24 * hour)) (t_usage_counters d)"
    unfolding usage_since_def day_start_bucket
    by (rule filter_cong [OF refl])
       (use assms(3) format_hour_le_iff [OF four_digit_day_start [OF assms(2)]] le in auto)
  then show ?thesis
    using assms(1,4) by (auto simp: GetDailyByteUsage_def flat_def sql_query_healthy sql_sum_def coalesce0_def)
qed

lemma table_ok_filter:
  "counters_ok T us \<Longrightarrow> counters_ok T (filter P us)" "logs_ok T ls \<Longrightarrow> logs_ok T (filter Q ls)"
  unfolding counters_ok_def logs_ok_def by (auto simp: distinct_map_filter image_subset_iff)

lemma delete_old_inv:
  "db_inv d \<Longrightarrow> delete_old_counters th d = Some d' \<Longrightarrow> db_inv d'"
  "db_inv d \<Longrightarrow> delete_old_logs t d = Some d' \<Longrightarrow> db_inv d'"
  by (auto simp: delete_old_counters_def delete_old_logs_def db_inv_def tenant_ids_def table_ok_filter)

lemma CleanupOldCounters_inv [op_inv]: "db_inv d \<Longrightarrow> db_inv (snd (CleanupOldCounters now days d))"
  unfolding CleanupOldCounters_def Let_def
  by (rule exec_two; rule sql_exec_inv) (auto intro: delete_old_inv)

text \<open>Retention deletes exactly the counters of hours before the retention window (90 days when
  the setting is not positive) and the log rows older than it, and touches nothing else.\<close>

lemma cleanup_keeps_window:
  assumes "healthy d"
    and days: "days = (if retentionDays \<le> 0 then 90 else retentionDays)"
    and "four_digit_year (now - days * 24 * hour)"
    and "\<forall>r \<in> set (t_usage_counters d). four_digit_year (at r) \<and> uc_hour_bucket r = format_hour (at r)"
  shows "CleanupOldCounters now retentionDays d = (Inr (), d\<lparr>
     t_usage_counters := filter (\<lambda>r. (now - days * 24 * hour) div hour \<le> at r div hour) (t_usage_counters d),
     t_usage_logs := filter (\<lambda>r. current_timestamp now - days * 24 * hour \<le> ul_created_at r) (t_usage_logs d)\<rparr>)"
proof -
  let ?th = "now - days * 24 * hour"
  have f: "filter (\<lambda>r. \<not> uc_hour_bucket r < format_hour ?th) (t_usage_counters d)
      = filter (\<lambda>r. ?th div hour \<le> at r div hour) (t_usage_counters d)"
    by (rule filter_cong [OF refl]) (use assms(4) format_hour_le_iff [OF assms(3)] in \<open>auto simp: not_less\<close>)
  have h: "healthy (d\<lparr>t_usage_counters := rs\<rparr>)" for rs using assms(1) by (simp add: healthy_def)
  show ?thesis
    using assms(1) h f unfolding CleanupOldCounters_def days [symmetric] Let_def
    by (simp add: sql_exec_healthy delete_old_counters_def delete_old_logs_def not_less)
qed

end
