(* ===== verification/Store.thy ===== *)
theory Store
  imports Store_Keys Store_Certs Store_Users Usage_Writer
begin

text \<open>
  The store as a whole (\<open>internal/store/store.go\<close>): the database together with the background usage
  writer. Every exported operation that changes state is an event of one step function, so the
  invariants of the schema and of the writer hold after every sequence of operations, in any order,
  under every pattern of engine failures. The theory ends with the theorems about credentials that
  the rest of the gateway relies on.
\<close>

record store =
  st_db :: db
  st_writer :: usage_writer

section \<open>Operations as events\<close>

datatype store_op =
    OpCreateTenant "u8 list" time string string "rate_limit_params option"
  | OpUpdateTenant time int64 string string bool "rate_limit_params option"
  | OpDeleteTenant int64
  | OpRevokeAllKeys time int64
  | OpCreateAPIKey time int64 string string
  | OpRegenerateKey "u8 list" time int64
  | OpLookupTenantByKey time string
  | OpUpdateLastSeen time string
  | OpAddCertificate time int64 string string string time time
  | OpRevokeCertificate time string
  | OpCreateUser time string string
  | OpDeleteUser int64
  | OpCleanup time int64
  | OpRead
  | OpWriter writer_event

text \<open>\<open>OpRead\<close> stands for every operation that only queries: it uses up one statement.\<close>

fun db_step :: "store_op \<Rightarrow> db \<Rightarrow> db" where
  "db_step (OpCreateTenant rnd now n ds l) d = snd (CreateTenant rnd now n ds l d)"
| "db_step (OpUpdateTenant now t n ds a l) d = snd (UpdateTenant now t n ds a l d)"
| "db_step (OpDeleteTenant t) d = snd (DeleteTenant t d)"
| "db_step (OpRevokeAllKeys now t) d = snd (RevokeAllKeysForTenant now t d)"
| "db_step (OpCreateAPIKey now t h p) d = snd (CreateAPIKey now t h p d)"
| "db_step (OpRegenerateKey rnd now t) d = snd (RegenerateKey rnd now t d)"
| "db_step (OpLookupTenantByKey now k) d = snd (LookupTenantByKey now k d)"
| "db_step (OpUpdateLastSeen now fp) d = snd (UpdateLastSeen now fp d)"
| "db_step (OpAddCertificate now t s fp cn nb na) d = snd (AddCertificate now t s fp cn nb na d)"
| "db_step (OpRevokeCertificate now fp) d = snd (RevokeCertificate now fp d)"
| "db_step (OpCreateUser now u p) d = snd (CreateUser now u p d)"
| "db_step (OpDeleteUser u) d = snd (DeleteUser u d)"
| "db_step (OpCleanup now days) d = snd (CleanupOldCounters now days d)"
| "db_step OpRead d = pop_fault d"
| "db_step (OpWriter e) d = d"

definition store_step :: "store_op \<Rightarrow> store \<Rightarrow> store" where
  "store_step op s =
     (case op of
        OpWriter e \<Rightarrow> (case writer_step e (st_writer s, st_db s) of (w, d) \<Rightarrow> \<lparr>st_db = d, st_writer = w\<rparr>)
      | _ \<Rightarrow> s\<lparr>st_db := db_step op (st_db s)\<rparr>)"

definition Close :: "store \<Rightarrow> store" where
  "Close s = store_step (OpWriter StopWriter) s"

text \<open>\<open>PingContext\<close> opens no transaction and reads no table; it fails like any statement.\<close>

definition Ping :: "db \<Rightarrow> unit result \<times> db" where
  "Ping d = sql_query (\<lambda>_. ()) d"

section \<open>The invariant of the store\<close>

definition store_inv :: "store \<Rightarrow> bool" where
  "store_inv s \<longleftrightarrow> db_inv (st_db s) \<and> writer_bounded (st_writer s, st_db s)"

lemma db_step_inv: "db_inv d \<Longrightarrow> db_inv (db_step op d)"
  by (cases op) (simp_all add: op_inv)

lemma store_step_inv: "store_inv s \<Longrightarrow> store_inv (store_step op s)"
proof (cases "\<exists>e. op = OpWriter e")
  case True
  then obtain e where "op = OpWriter e" ..
  moreover assume "store_inv s"
  ultimately show ?thesis
    using writer_step_inv [of "(st_writer s, st_db s)" e] writer_step_bounded [of "(st_writer s, st_db s)" e]
    by (simp add: store_inv_def store_step_def case_prod_unfold)
next
  case False
  assume "store_inv s"
  moreover from False have "store_step op s = s\<lparr>st_db := db_step op (st_db s)\<rparr>"
    by (cases op) (simp_all add: store_step_def)
  ultimately show ?thesis using db_step_inv by (simp add: store_inv_def writer_bounded_def)
qed

interpretation store_ops: step_machine store_step store_inv
  by unfold_locales (rule store_step_inv)

section \<open>Tenant ids are never reused\<close>

definition ids_grow :: "db \<Rightarrow> db \<Rightarrow> bool" where
  "ids_grow d d' \<longleftrightarrow> seq_tenants d \<le> seq_tenants d' \<and> (\<forall>t \<in> tenant_ids d'. t \<in> tenant_ids d \<or> seq_tenants d < t)"

lemma ids_grow_refl [simp]: "ids_grow d d" "ids_grow d (pop_fault d)"
  by (simp_all add: ids_grow_def)

lemma ids_grow_trans: "ids_grow d d' \<Longrightarrow> ids_grow d' d'' \<Longrightarrow> ids_grow d d''"
  unfolding ids_grow_def by (meson order_le_less_trans order_trans)

lemma ids_grow_same: "t_tenants d' = t_tenants d \<Longrightarrow> seq_tenants d' = seq_tenants d \<Longrightarrow> ids_grow d d'"
  by (simp add: ids_grow_def tenant_ids_def)

lemma sql_exec_grow: "(\<And>e e'. f e = Some e' \<Longrightarrow> ids_grow e e') \<Longrightarrow> ids_grow d (snd (sql_exec f d))"
proof -
  assume f: "\<And>e e'. f e = Some e' \<Longrightarrow> ids_grow e e'"
  show ?thesis
  proof (cases "f (pop_fault d)")
    case (Some d')
    from ids_grow_trans [OF ids_grow_refl(2) f [OF Some]] Some show ?thesis by (simp add: sql_exec_def)
  qed (simp add: sql_exec_def)
qed

lemma sql_exec_eq_grow:
  "sql_exec f d = (r, d') \<Longrightarrow> (\<And>e e'. f e = Some e' \<Longrightarrow> ids_grow e e') \<Longrightarrow> ids_grow d d'"
  using sql_exec_grow [of f d] by simp

lemma stmt_grow [grow]:
  "insert_tenant n ds l now d = Some d' \<Longrightarrow> ids_grow d d'"
  "update_tenant t n ds a l now d = Some d' \<Longrightarrow> ids_grow d d'"
  "delete_tenant t d = Some d' \<Longrightarrow> ids_grow d d'"
proof -
  show "ids_grow d d'" if "insert_tenant n ds l now d = Some d'"
    using that by (auto simp: insert_tenant_def next_id_def ids_grow_def tenant_ids_def split: option.splits if_splits)
  show "ids_grow d d'" if "update_tenant t n ds a l now d = Some d'"
  proof -
    have "map tr_id (t_tenants d') = map tr_id (t_tenants d)" "seq_tenants d' = seq_tenants d"
      using that by (auto simp: update_tenant_def)
    then show ?thesis unfolding ids_grow_def tenant_ids_def by (metis image_set order_refl)
  qed
  show "ids_grow d d'" if "delete_tenant t d = Some d'"
    using that by (auto simp: delete_tenant_def ids_grow_def tenant_ids_def)
qed

lemma stmt_same_tenants [grow]:
  "insert_api_key t h p now d = Some d' \<Longrightarrow> ids_grow d d'"
  "revoke_all_keys t now d = Some d' \<Longrightarrow> ids_grow d d'"
  "touch_key h now d = Some d' \<Longrightarrow> ids_grow d d'"
  "update_last_seen fp now d = Some d' \<Longrightarrow> ids_grow d d'"
  "insert_certificate t s fp cn nb na now d = Some d' \<Longrightarrow> ids_grow d d'"
  "revoke_certificate fp now d = Some d' \<Longrightarrow> ids_grow d d'"
  "insert_user u p now d = Some d' \<Longrightarrow> ids_grow d d'"
  "delete_user uid d = Some d' \<Longrightarrow> ids_grow d d'"
  "delete_old_counters th d = Some d' \<Longrightarrow> ids_grow d d'"
  "delete_old_logs tm d = Some d' \<Longrightarrow> ids_grow d d'"
  "upsert_counter k v d = Some d' \<Longrightarrow> ids_grow d d'"
  by (rule ids_grow_same; auto simp: insert_api_key_def revoke_all_keys_def touch_key_def update_last_seen_def
      insert_certificate_def revoke_certificate_def insert_user_def delete_user_def delete_old_counters_def
      delete_old_logs_def upsert_counter_def split: if_splits option.splits)+

lemma op_grow:
  "ids_grow d (snd (CreateTenant rnd now n ds l d))"
  "ids_grow d (snd (RegenerateKey rnd now t d))"
  "ids_grow d (snd (AddCertificate now t s fp cn nb na d))"
  "ids_grow d (snd (CleanupOldCounters now days d))"
  "ids_grow d (snd (LookupTenantByKey now k d))"
proof -
  show "ids_grow d (snd (CreateTenant rnd now n ds l d))"
    by (auto simp: CreateTenant_def Let_def split: prod.splits sum.splits
        dest!: sql_exec_eq_grow intro: grow ids_grow_trans)
  show "ids_grow d (snd (RegenerateKey rnd now t d))"
    by (auto simp: RegenerateKey_def RevokeAllKeysForTenant_def Let_def split: prod.splits sum.splits
        dest!: sql_exec_eq_grow intro: grow ids_grow_trans)
  show "ids_grow d (snd (AddCertificate now t s fp cn nb na d))"
    by (auto simp: AddCertificate_def split: prod.splits sum.splits dest!: sql_exec_eq_grow intro: grow)
  show "ids_grow d (snd (CleanupOldCounters now days d))"
    unfolding CleanupOldCounters_def Let_def
    by (rule exec_two [where P = "ids_grow d"])
       (auto intro: sql_exec_grow grow ids_grow_trans)
  have m: "ids_grow d (snd (matchCandidates now cs h d))" for cs h d
    by (auto simp: matchCandidates_def split: option.splits intro: sql_exec_grow grow)
  then show "ids_grow d (snd (LookupTenantByKey now k d))"
    by (auto simp: LookupTenantByKey_scope query_candidates_def sql_query_def split: option.splits
        intro: ids_grow_trans [OF ids_grow_refl(2)])
qed

lemma db_step_grow: "ids_grow d (db_step op d)"
  by (cases op) (auto simp: op_grow UpdateTenant_def DeleteTenant_def RevokeAllKeysForTenant_def CreateAPIKey_def
      UpdateLastSeen_def RevokeCertificate_def CreateUser_def DeleteUser_def intro: sql_exec_grow grow)

lemma exec_snapshot_grow: "ids_grow d (snd (exec_snapshot snap d))"
proof (induction snap d rule: exec_snapshot.induct)
  case (2 k v xs d)
  have g: "ids_grow d (snd (sql_exec (upsert_counter k v) d))" by (rule sql_exec_grow) (rule grow)
  then show ?case using "2.IH" by (auto split: prod.splits sum.splits intro: ids_grow_trans)
qed simp

lemma flush_grow: "ids_grow d (snd (flush (w, d)))"
proof (cases rule: flush_cases [of w d])
  case (commit d3)
  have "ids_grow (pop_fault (pop_fault d)) d3"
    using exec_snapshot_grow [of "pop_fault (pop_fault d)" "w_accum w"] commit(3) by simp
  then show ?thesis using commit(2) by (simp add: ids_grow_def)
qed (simp_all add: ids_grow_same)

lemma writer_step_grow: "ids_grow (snd wd) (snd (writer_step e wd))"
  by (cases wd; cases e) (auto simp: case_prod_unfold flush_grow split: list.splits)

lemma store_step_grow: "ids_grow (st_db s) (st_db (store_step op s))"
  using writer_step_grow [of "(st_writer s, st_db s)"] db_step_grow [of "st_db s" op]
  by (cases op) (simp_all add: store_step_def case_prod_unfold)

text \<open>A tenant that is gone: its id was used and no row has it.\<close>

definition tenant_gone :: "int64 \<Rightarrow> store \<Rightarrow> bool" where
  "tenant_gone tid s \<longleftrightarrow> store_inv s \<and> tid \<le> seq_tenants (st_db s) \<and> tid \<notin> tenant_ids (st_db s)"

lemma tenant_gone_step: "tenant_gone tid s \<Longrightarrow> tenant_gone tid (store_step op s)"
  using store_step_inv [of s op] store_step_grow [of s op] unfolding tenant_gone_def ids_grow_def
  by (meson order_trans not_less)

interpretation gone: step_machine store_step "tenant_gone tid" for tid
  by unfold_locales (rule tenant_gone_step)

section \<open>Properties\<close>

text \<open>C28. The schema invariant (primary keys, unique names, hashes and fingerprints, foreign keys) and
  the bound on the usage queue hold after every sequence of store operations in any order, whatever
  statements the engine fails.\<close>

theorem store_invariant:
  "store_inv (fold store_step ops \<lparr>st_db = empty_db\<lparr>db_faults := faults\<rparr>, st_writer = NewUsageWriter\<rparr>)"
  by (rule store_ops.inv_run)
     (simp add: store_inv_def db_inv_empty writer_bounded_def NewUsageWriter_def)

text \<open>C3. A presented key authenticates exactly when it is well formed and its hash is on file, live
  (enabled and not revoked) and owned by an active tenant, which is the tenant returned; an engine
  failure never authenticates anybody.\<close>

theorem key_lookup_exact:
  assumes "db_inv d"
  shows "fst (LookupTenantByKey now k d) = Inr (Some t)
     \<longleftrightarrow> \<not> next_fault d \<and> (\<exists>r. key_holds d k r \<and> t = tenant_of_row r '''')"
  using LookupTenantByKey_iff [OF assms, of now k t] LookupTenantByKey_fault [of d now k]
  by (cases "next_fault d") auto

text \<open>Issuing a key and presenting it: the key that \<open>CreateTenant\<close> returns resolves to the new
  tenant, with the name and the limits it was created with, and the tenant's id is fresh.\<close>

lemma create_then_lookup:
  assumes inv: "db_inv d" and rnd: "length rnd = 24"
    and create: "CreateTenant rnd now n ds (Some l) d = (Inr t, d')" and nf: "\<not> next_fault d'"
  shows "ID t \<notin> tenant_ids d \<and> (\<exists>t'. (\<forall>now'. fst (LookupTenantByKey now' (APIKey t) d') = Inr (Some t')) \<and>
     ID t' = ID t \<and> Name t' = n \<and> Active t' \<and> RateLimitRPS t' = lim_RateLimitRPS l \<and>
     BurstBytes t' = lim_BurstBytes l \<and> DailyByteQuota t' = lim_DailyByteQuota l)"
proof -
  from CreateTenant_Inr [OF create] obtain d1 where
    d1: "insert_tenant n ds l now (pop_fault d) = Some d1" and
    d2: "insert_api_key (ID t) (HashKey (APIKey t)) (KeyPrefix t) now (pop_fault d1) = Some d'" and
    t: "ID t = seq_tenants d1" "APIKey t = GenerateAPIKeyV2 rnd (ID t)"
    by auto
  from insert_tenant_row [OF d1] obtain r where r: "t_tenants d1 = t_tenants d @ [r]" "tr_id r = seq_tenants d1"
    "tr_name r = n" "tr_active r = 1" "tr_rate_limit_rps r = lim_RateLimitRPS l" "tr_burst_bytes r = lim_BurstBytes l"
    "tr_daily_byte_quota r = lim_DailyByteQuota l"
    by auto
  have inv1: "db_inv (pop_fault d1)" using insert_tenant_inv [OF _ d1] inv by simp
  have "key_holds d' (APIKey t) r"
    by (rule generated_key_holds [OF inv1 d2 t(2) rnd]) (use r t in auto)
  moreover have "db_inv d'" using CreateTenant_inv [OF inv, of rnd now n ds "Some l"] create by simp
  ultimately have "fst (LookupTenantByKey now' (APIKey t) d') = Inr (Some (tenant_of_row r ''''))" for now'
    using LookupTenantByKey_iff nf by blast
  moreover have "ID t \<notin> tenant_ids d"
    using inv1 r t by (auto simp: db_inv_def ids_ok_def tenant_ids_def)
  ultimately show ?thesis using r t(1) by (auto simp: tenant_of_row_def)
qed

lemma demo_create:
  obtains t d' where "CreateTenant (replicate 24 0) 0 ''acme'' '''' (Some no_limits) empty_db = (Inr t, d')"
    "healthy d'" "ID t = 1" "db_inv d'"
proof -
  have "\<exists>t d'. CreateTenant (replicate 24 0) 0 ''acme'' '''' (Some no_limits) empty_db = (Inr t, d') \<and> healthy d' \<and> ID t = 1"
    by (simp add: CreateTenant_def insert_tenant_def insert_api_key_def sql_exec_healthy healthy_def empty_db_def next_id_def
        tenant_ids_def Let_def)
  then show thesis using that CreateTenant_inv [OF db_inv_empty] by (metis snd_conv)
qed

text \<open>A key of the demonstration store, with the tenant that holds it.\<close>

lemma demo_key:
  obtains t d' r where "CreateTenant (replicate 24 0) 0 ''acme'' '''' (Some no_limits) empty_db = (Inr t, d')"
    "healthy d'" "db_inv d'" "key_holds d' (APIKey t) r" "tr_name r = ''acme''"
proof -
  obtain t d' where c: "CreateTenant (replicate 24 0) 0 ''acme'' '''' (Some no_limits) empty_db = (Inr t, d')"
    and h: "healthy d'" and i: "ID t = 1" "db_inv d'" by (rule demo_create)
  from CreateTenant_Inr [OF c] obtain d1 where
    d1: "insert_tenant ''acme'' '''' no_limits 0 (pop_fault empty_db) = Some d1" and
    d2: "insert_api_key (ID t) (HashKey (APIKey t)) (KeyPrefix t) 0 (pop_fault d1) = Some d'" and
    t: "ID t = seq_tenants d1" "APIKey t = GenerateAPIKeyV2 (replicate 24 0) (ID t)"
    by auto
  from insert_tenant_row [OF d1] obtain r where r: "r \<in> set (t_tenants d1)" "tr_id r = seq_tenants d1" "tr_active r = 1"
    "tr_name r = ''acme''"
    by (metis in_set_conv_decomp)
  have "db_inv (pop_fault d1)" using insert_tenant_inv [OF _ d1] by (simp add: db_inv_empty)
  then have "key_holds d' (APIKey t) r"
    by (rule generated_key_holds [OF _ d2 t(2)]) (use r t in auto)
  then show thesis using that c h i r by blast
qed

theorem key_lookup_exact_witness:
  "\<exists>t t' d'. CreateTenant (replicate 24 0) 0 ''acme'' '''' (Some no_limits) empty_db = (Inr t, d') \<and>
     fst (LookupTenantByKey 7 (APIKey t) d') = Inr (Some t') \<and> Name t' = ''acme''"
proof -
  obtain t d' r where c: "CreateTenant (replicate 24 0) 0 ''acme'' '''' (Some no_limits) empty_db = (Inr t, d')"
    and h: "healthy d'" and i: "db_inv d'" and k: "key_holds d' (APIKey t) r" and n: "tr_name r = ''acme''"
    by (rule demo_key)
  from key_lookup_exact [OF i, of 7 "APIKey t" "tenant_of_row r ''''"] h k
  have "fst (LookupTenantByKey 7 (APIKey t) d') = Inr (Some (tenant_of_row r ''''))" by auto
  then show ?thesis using c n by (auto simp: tenant_of_row_def)
qed
text \<open>C27. Regenerating a tenant's key revokes every earlier key of that tenant, changes nothing for the
  keys of other tenants, and the new key works when the tenant is active. Keys are compared by
  their SHA-256 hash, so the statement is for keys whose hashes differ.\<close>

theorem regenerate_rotates_key:
  assumes inv: "db_inv d" and rnd: "length rnd = 24"
    and regen: "RegenerateKey rnd now tid d = (Inr k, d')" and nf: "\<not> next_fault d" "\<not> next_fault d'"
  shows "(HashKey k' \<noteq> HashKey k \<longrightarrow>
      (fst (LookupTenantByKey now' k' d') = Inr (Some t) \<longleftrightarrow> fst (LookupTenantByKey now' k' d) = Inr (Some t) \<and> ID t \<noteq> tid)) \<and>
     (\<forall>r \<in> set (t_tenants d). tr_id r = tid \<and> tr_active r = 1 \<longrightarrow>
        fst (LookupTenantByKey now' k d') = Inr (Some (tenant_of_row r '''')))"
proof -
  have inv': "db_inv d'" using RegenerateKey_inv [OF inv, of rnd now tid] regen by simp
  from RegenerateKey_Inr [OF regen] obtain d1 where
    d1: "revoke_all_keys tid now (pop_fault d) = Some d1" and
    d2: "insert_api_key tid (HashKey k) (take 12 k) now (pop_fault d1) = Some d'" and k: "k = GenerateAPIKeyV2 rnd tid" .
  have "db_inv (pop_fault d1)" using revoke_all_keys_inv [OF _ d1] inv by simp
  moreover have "t_tenants d1 = t_tenants d" using d1 by (auto simp: revoke_all_keys_def)
  ultimately have "key_holds d' k r" if "r \<in> set (t_tenants d)" "tr_id r = tid" "tr_active r = 1" for r
    using generated_key_holds [OF _ d2 k rnd] that by simp
  then show ?thesis
    using LookupTenantByKey_iff [OF inv nf(1), of now' k' t] LookupTenantByKey_iff [OF inv' nf(2), of now']
      RegenerateKey_others [OF regen, of k']
    by (auto simp: tenant_of_row_def)
qed

theorem regenerate_rotates_key_witness:
  "\<exists>k d'. RegenerateKey (replicate 24 7) 9 1 demo_db = (Inr k, d') \<and>
     fst (LookupTenantByKey 10 k d') = Inr (Some (tenant_of_row demo_tenant ''''))"
proof -
  have "\<exists>k d'. RegenerateKey (replicate 24 7) 9 1 demo_db = (Inr k, d') \<and> healthy d'"
    by (simp add: RegenerateKey_def RevokeAllKeysForTenant_def revoke_all_keys_def insert_api_key_def sql_exec_healthy
        healthy_def demo_db_def empty_db_def next_id_def tenant_ids_def Let_def demo_tenant_def)
  then obtain k d' where r: "RegenerateKey (replicate 24 7) 9 1 demo_db = (Inr k, d')" and h: "healthy d'" by blast
  have "demo_tenant \<in> set (t_tenants demo_db)" "tr_id demo_tenant = 1" "tr_active demo_tenant = 1"
    by (simp_all add: demo_db_def demo_tenant_def)
  then show ?thesis
    using regenerate_rotates_key [OF demo_db_eq(4) _ r, of _ 10] h demo_db_eq(1) r by auto
qed


lemma DeleteTenant_gone:
  assumes "db_inv d" and "tid \<in> tenant_ids d" and "fst (DeleteTenant tid d) = Inr ()"
  shows "tid \<notin> tenant_ids (snd (DeleteTenant tid d))" and "tid \<le> seq_tenants (snd (DeleteTenant tid d))"
proof -
  show "tid \<notin> tenant_ids (snd (DeleteTenant tid d))"
    using assms(3) by (auto simp: DeleteTenant_def sql_exec_def delete_tenant_def tenant_ids_def split: if_splits)
  have "tid \<le> seq_tenants d" using assms(1,2) by (auto simp: db_inv_def ids_ok_def tenant_ids_def)
  then show "tid \<le> seq_tenants (snd (DeleteTenant tid d))" by (auto simp: DeleteTenant_def sql_exec_def delete_tenant_def)
qed

text \<open>Deleting a tenant is final: no API key and no certificate fingerprint resolves to its id
  again, whatever operations follow (ids are never given out twice).\<close>

lemma deleted_tenant_never_resolves:
  fixes ops :: "store_op list"
  assumes "store_inv s" and "tid \<in> tenant_ids (st_db s)" and "fst (DeleteTenant tid (st_db s)) = Inr ()"
  defines "s' \<equiv> fold store_step ops (store_step (OpDeleteTenant tid) s)"
  shows "(\<forall>t. fst (LookupTenantByKey now k (st_db s')) = Inr (Some t) \<longrightarrow> ID t \<noteq> tid) \<and>
         (\<forall>t. fst (LookupTenantByFingerprint fp (st_db s')) = Inr (Some t) \<longrightarrow> ID t \<noteq> tid)"
proof -
  have "store_inv (store_step (OpDeleteTenant tid) s)" by (rule store_step_inv [OF assms(1)])
  then have "tenant_gone tid (store_step (OpDeleteTenant tid) s)"
    using DeleteTenant_gone [OF _ assms(2,3)] assms(1) by (simp add: tenant_gone_def store_step_def store_inv_def)
  then have gone: "tenant_gone tid s'" unfolding s'_def by (rule gone.inv_run)
  then have inv: "db_inv (st_db s')" and absent: "\<And>r. r \<in> set (t_tenants (st_db s')) \<Longrightarrow> tr_id r = tid \<Longrightarrow> tr_active r \<noteq> 1"
    by (auto simp: tenant_gone_def store_inv_def tenant_ids_def)
  show ?thesis
    using api_keys.resolve_none_if_absent [OF inv absent] cert_fps.resolve_none_if_absent [OF inv absent]
    by (metis prod.collapse)
qed

text \<open>Every credential check returns an active tenant that is on file, under its current name.\<close>

lemma resolved_tenant_is_active:
  assumes "db_inv d" and "fst (LookupTenantByKey now k d) = Inr (Some t) \<or> fst (LookupTenantByFingerprint k d) = Inr (Some t)"
  shows "\<exists>r \<in> set (t_tenants d). tr_id r = ID t \<and> tr_name r = Name t \<and> tr_active r = 1 \<and> Active t"
  using assms(2) api_keys.resolve_active [OF assms(1)] cert_fps.resolve_active [OF assms(1)] by (metis prod.collapse)

lemma scan_pop: "scanTenant (pop_fault d) = scanTenant d" "fingerprint_rows fp (pop_fault d) = fingerprint_rows fp d"
  by (simp_all add: fingerprint_rows_def scanTenant_def latest_key_prefix_def fun_eq_iff)

text \<open>Revoking a certificate takes effect at once: its fingerprint resolves to nobody, and every
  other fingerprint resolves as before.\<close>

lemma revoked_certificate_rejected:
  assumes inv: "db_inv d" and rev: "RevokeCertificate now fp d = (Inr (), d')" and nf: "\<not> next_fault d" "\<not> next_fault d'"
  shows "fst (LookupTenantByFingerprint fp d') = Inr None \<and>
     (fp' \<noteq> fp \<longrightarrow> fst (LookupTenantByFingerprint fp' d') = fst (LookupTenantByFingerprint fp' d))"
proof -
  have d': "revoke_certificate fp now (pop_fault d) = Some d'"
    using rev by (simp add: RevokeCertificate_def sql_exec_Inr)
  have rows: "fingerprint_rows fp d' = []"
    using revoke_fp_holds [OF d'] set_fingerprint_rows [of _ fp d'] by (metis list.set_intros(1) neq_Nil_conv)
  have scan: "scanTenant d' = scanTenant (pop_fault d)"
    using d' by (auto simp: revoke_certificate_def scanTenant_def latest_key_prefix_def fun_eq_iff)
  have "fingerprint_rows fp' d' = fingerprint_rows fp' (pop_fault d)" if "fp' \<noteq> fp"
  proof -
    let ?f = "\<lambda>c. if ct_fingerprint c = fp then c\<lparr>ct_revoked_at := Some (current_timestamp now)\<rparr> else c"
    have e: "d' = (pop_fault d)\<lparr>t_certificates := map ?f (t_certificates (pop_fault d))\<rparr>"
      using d' by (simp add: revoke_certificate_def)
    have f: "filter (\<lambda>c. ct_tenant_id c = x \<and> ct_fingerprint c = fp' \<and> ct_revoked_at c = None \<and> b) (map ?f cs)
        = filter (\<lambda>c. ct_tenant_id c = x \<and> ct_fingerprint c = fp' \<and> ct_revoked_at c = None \<and> b) cs" for x b cs
      by (rule filter_map_id) (use that in auto)
    show ?thesis unfolding e fingerprint_rows_def db.simps f pop_fault_tables by (simp add: f [simplified])
  qed
  then show ?thesis
    using nf rows scan by (auto simp: LookupTenantByFingerprint_def sql_query_def scan_pop split: list.splits)
qed

end
