(* ===== verification/Migrate.thy ===== *)
theory Migrate
  imports Store
begin

text \<open>
  \<open>internal/store/migrate.go\<close> and \<open>Open\<close>: bringing a database file to the current schema at startup. The
  record \<open>sqlite\<close> adds to the tables what the migrations look at and change: the bookkeeping table, the
  names of the tables, the shape of \<open>tenants\<close>, the table \<open>tenants_rebuild\<close> while there is one, and the
  pragma for foreign keys. A table that does not exist has no rows. Failures come from the script of
  faults, one per call of the driver.

  The pool has one connection, so a call on the database inside a transaction waits for ever: that is
  the outcome \<open>Stuck\<close>, with the file as it is on disk while the process hangs.
\<close>

section \<open>The database file\<close>

record sqlite =
  sq_versions :: "int64 list option"   \<comment> \<open>rows of \<open>schema_migrations\<close>, if there is such a table\<close>
  sq_tables :: "string list"
  sq_indexes :: "string list"
  sq_unique :: bool                    \<comment> \<open>the text of \<open>tenants\<close> contains UNIQUE\<close>
  sq_limit_cols :: "string list"       \<comment> \<open>the rate-limit columns of \<open>tenants\<close>\<close>
  sq_rebuild :: "(tenant_row list \<times> int64) option"   \<comment> \<open>the rows of \<open>tenants_rebuild\<close> and its AUTOINCREMENT mark\<close>
  sq_foreign_keys :: bool
  sq_data :: db

definition sq_fault :: "sqlite \<Rightarrow> bool" where
  "sq_fault q = next_fault (sq_data q)"

definition sq_pop :: "sqlite \<Rightarrow> sqlite" where
  "sq_pop q = q\<lparr>sq_data := pop_fault (sq_data q)\<rparr>"

definition db_exec :: "(sqlite \<Rightarrow> sqlite option) \<Rightarrow> sqlite \<Rightarrow> unit result \<times> sqlite" where
  "db_exec f q =
     (if sq_fault q then (Inl DBError, sq_pop q)
      else case f (sq_pop q) of None \<Rightarrow> (Inl ConstraintError, sq_pop q) | Some q' \<Rightarrow> (Inr (), q'))"

definition db_read :: "(sqlite \<Rightarrow> 'a) \<Rightarrow> sqlite \<Rightarrow> 'a result \<times> sqlite" where
  "db_read f q = (if sq_fault q then (Inl DBError, sq_pop q) else (Inr (f (sq_pop q)), sq_pop q))"

datatype migration_outcome = Fin "unit result" (outcome_file: sqlite) | Stuck (outcome_file: sqlite)

section \<open>The migration scripts\<close>

datatype script = Init | Retention_Index

definition limit_columns :: "string list" where
  "limit_columns = [''rate_limit_rps'', ''burst_bytes'', ''daily_byte_quota'']"

definition init_tables :: "string list" where
  "init_tables = [''users'', ''tenants'', ''usage_logs'', ''certificates'', ''usage_counters'', ''api_keys'']"

definition init_indexes :: "string list" where
  "init_indexes = [''idx_tenants_api_key'', ''idx_usage_tenant_time'', ''idx_usage_created'', ''idx_certificates_fingerprint'',
     ''idx_certificates_tenant'', ''idx_api_keys_tenant'', ''idx_api_keys_hash'']"

definition add_missing :: "string list \<Rightarrow> string list \<Rightarrow> string list" where
  "add_missing xs new = xs @ filter (\<lambda>x. x \<notin> set xs) new"

text \<open>
  \<open>0001_init.sql\<close>: every table and index that is missing. A new \<open>tenants\<close> has the limit columns and no
  UNIQUE; the unique index on the key hashes fails when two rows share one.
\<close>

fun run_script :: "script \<Rightarrow> sqlite \<Rightarrow> sqlite option" where
  "run_script Init q =
     (if \<not> distinct (map ak_key_hash (t_api_keys (sq_data q))) then None
      else Some (q\<lparr>sq_tables := add_missing (sq_tables q) init_tables, sq_indexes := add_missing (sq_indexes q) init_indexes,
        sq_unique := (sq_unique q \<and> ''tenants'' \<in> set (sq_tables q)),
        sq_limit_cols := (if ''tenants'' \<in> set (sq_tables q) then sq_limit_cols q else limit_columns)\<rparr>))"
| "run_script Retention_Index q = Some (q\<lparr>sq_indexes := add_missing (sq_indexes q) [''idx_usage_counters_hour'']\<rparr>)"

record migration =
  mg_version :: int64
  mg_sql :: script

fun read_entries :: "(string \<times> script) list \<Rightarrow> migration list result" where
  "read_entries [] = Inr []"
| "read_entries ((name, body) # es) =
     (if \<not> has_suffix name ''.sql'' then read_entries es
      else case index_byte name CHR ''_'' of
        None \<Rightarrow> Inl (Msg (''migration filename missing version: '' @ name))
      | Some underscore \<Rightarrow>
          (case parse_int (take underscore name) of
             None \<Rightarrow> Inl (Msg ''migration version parse'')
           | Some version \<Rightarrow>
               (case read_entries es of
                  Inl e \<Rightarrow> Inl e
                | Inr ms \<Rightarrow> Inr (\<lparr>mg_version = version, mg_sql = body\<rparr> # ms))))"

text \<open>The embedded directory is read without errors.\<close>

definition loadMigrations :: "(string \<times> script) list \<Rightarrow> migration list result" where
  "loadMigrations entries = map_sum id (sort_key mg_version) (read_entries entries)"

definition migrationsFS :: "(string \<times> script) list" where
  "migrationsFS = [(''0001_init.sql'', Init), (''0002_usage_retention_index.sql'', Retention_Index)]"

section \<open>Bookkeeping\<close>

definition create_versions :: "sqlite \<Rightarrow> sqlite option" where
  "create_versions q = Some (q\<lparr>sq_versions := Some (case sq_versions q of None \<Rightarrow> [] | Some vs \<Rightarrow> vs)\<rparr>)"

definition applied_versions :: "sqlite \<Rightarrow> int64 list" where
  "applied_versions q = (case sq_versions q of None \<Rightarrow> [] | Some vs \<Rightarrow> vs)"

definition loadAppliedVersions :: "sqlite \<Rightarrow> int64 list result \<times> sqlite" where
  "loadAppliedVersions q = db_read applied_versions q"

definition recordVersion :: "int64 \<Rightarrow> sqlite \<Rightarrow> unit result \<times> sqlite" where
  "recordVersion v q =
     db_exec (\<lambda>q. if v \<in> set (applied_versions q) then None else Some (q\<lparr>sq_versions := Some (applied_versions q @ [v])\<rparr>)) q"

text \<open>An error of the probe reads as ``no such table''.\<close>

definition tableExists :: "string \<Rightarrow> sqlite \<Rightarrow> bool \<times> sqlite" where
  "tableExists name q = (case db_read (\<lambda>q. name \<in> set (sq_tables q)) q of (Inl _, q1) \<Rightarrow> (False, q1) | (Inr b, q1) \<Rightarrow> (b, q1))"

text \<open>Begin, run, commit; a failure rolls back to the tables before.\<close>

definition applyMigration :: "migration \<Rightarrow> sqlite \<Rightarrow> unit result \<times> sqlite" where
  "applyMigration m q =
     (if sq_fault q then (Inl DBError, sq_pop q)
      else case db_exec (run_script (mg_sql m)) (sq_pop q) of
        (Inl e, q2) \<Rightarrow> (Inl e, q2)
      | (Inr _, q2) \<Rightarrow> if sq_fault q2 then (Inl DBError, sq_pop (sq_pop (sq_pop q))) else (Inr (), sq_pop q2))"

section \<open>Adopting a database from before the migrations\<close>

text \<open>\<open>ALTER TABLE tenants ADD COLUMN\<close>, best effort.\<close>

definition add_column :: "string \<Rightarrow> sqlite \<Rightarrow> sqlite" where
  "add_column col q =
     snd (db_exec (\<lambda>q. if ''tenants'' \<notin> set (sq_tables q) \<or> col \<in> set (sq_limit_cols q) then None
                       else Some (q\<lparr>sq_limit_cols := sq_limit_cols q @ [col]\<rparr>)) q)"

text \<open>
  The steps of the rebuild. The copy names every column, so it needs the limit columns, and the primary
  key of the new table refuses a repeated id; an explicit id raises the AUTOINCREMENT mark of the table.
  Dropping a table takes its rows, its indexes and its mark along, and the rows that refer to it when
  foreign keys are enforced. After the renaming the copy is the table \<open>tenants\<close>, with the copy's mark.
\<close>

definition create_rebuild :: "sqlite \<Rightarrow> sqlite option" where
  "create_rebuild q = (if sq_rebuild q = None then Some (q\<lparr>sq_rebuild := Some ([], 0)\<rparr>) else None)"

definition max_id :: "tenant_row list \<Rightarrow> int64" where
  "max_id rs = foldr (\<lambda>r m. max (tr_id r) m) rs 0"

definition selected :: "tenant_row \<Rightarrow> tenant_row" where
  "selected r = \<lparr>tr_id = tr_id r, tr_name = tr_name r, tr_api_key = tr_api_key r, tr_active = tr_active r,
     tr_description = tr_description r, tr_rate_limit_rps = tr_rate_limit_rps r, tr_burst_bytes = tr_burst_bytes r,
     tr_daily_byte_quota = tr_daily_byte_quota r, tr_created_at = tr_created_at r, tr_updated_at = tr_updated_at r\<rparr>"

definition copy_tenants :: "sqlite \<Rightarrow> sqlite option" where
  "copy_tenants q =
     (case sq_rebuild q of
        None \<Rightarrow> None
      | Some (rows, mark) \<Rightarrow>
          (let new = map selected (t_tenants (sq_data q)) in
           if ''tenants'' \<notin> set (sq_tables q) \<or> \<not> set limit_columns \<subseteq> set (sq_limit_cols q) \<or>
              \<not> distinct (map tr_id (rows @ new)) then None
           else Some (q\<lparr>sq_rebuild := Some (rows @ new, max mark (max_id new))\<rparr>)))"

definition drop_tenants :: "sqlite \<Rightarrow> sqlite option" where
  "drop_tenants q =
     (if ''tenants'' \<notin> set (sq_tables q) then None
      else let d1 = (sq_data q)\<lparr>t_tenants := [], seq_tenants := 0\<rparr> in
           Some (q\<lparr>sq_tables := filter (\<lambda>t. t \<noteq> ''tenants'') (sq_tables q),
             sq_indexes := filter (\<lambda>i. i \<noteq> ''idx_tenants_api_key'') (sq_indexes q), sq_unique := False, sq_limit_cols := [],
             sq_data := (if sq_foreign_keys q
                         then d1\<lparr>t_api_keys := [], t_certificates := [], t_usage_counters := [], t_usage_logs := []\<rparr> else d1)\<rparr>))"

definition rename_rebuild :: "sqlite \<Rightarrow> sqlite option" where
  "rename_rebuild q =
     (case sq_rebuild q of
        None \<Rightarrow> None
      | Some (rows, mark) \<Rightarrow>
          if ''tenants'' \<in> set (sq_tables q) then None
          else Some (q\<lparr>sq_rebuild := None, sq_tables := sq_tables q @ [''tenants''], sq_unique := False, sq_limit_cols := limit_columns,
            sq_data := (sq_data q)\<lparr>t_tenants := rows, seq_tenants := mark\<rparr>\<rparr>))"

definition add_key_index :: "sqlite \<Rightarrow> sqlite option" where
  "add_key_index q =
     (if ''tenants'' \<notin> set (sq_tables q) then None
      else Some (q\<lparr>sq_indexes := add_missing (sq_indexes q) [''idx_tenants_api_key'']\<rparr>))"

definition rebuild_steps :: "(sqlite \<Rightarrow> sqlite option) list" where
  "rebuild_steps = [create_rebuild, copy_tenants, drop_tenants, rename_rebuild, add_key_index]"

fun exec_steps :: "(sqlite \<Rightarrow> sqlite option) list \<Rightarrow> sqlite \<Rightarrow> unit result \<times> sqlite" where
  "exec_steps [] q = (Inr (), q)"
| "exec_steps (f # fs) q = (case db_exec f q of (Inl e, q1) \<Rightarrow> (Inl e, q1) | (Inr _, q1) \<Rightarrow> exec_steps fs q1)"

definition set_foreign_keys :: "bool \<Rightarrow> sqlite \<Rightarrow> unit result \<times> sqlite" where
  "set_foreign_keys b q = db_exec (\<lambda>q. Some (q\<lparr>sq_foreign_keys := b\<rparr>)) q"

text \<open>
  \<open>restore\<close> runs on the pool. After a failed step of the rebuild the transaction still holds the only
  connection, so it never returns, and the file keeps what it had before the transaction; after a failed
  commit the transaction is over.
\<close>

definition rolled_back :: "sqlite \<Rightarrow> bool list \<Rightarrow> sqlite" where
  "rolled_back q fs = q\<lparr>sq_data := (sq_data q)\<lparr>db_faults := fs\<rparr>\<rparr>"

definition rebuildTenants :: "sqlite \<Rightarrow> migration_outcome" where
  "rebuildTenants q1 =
     (case set_foreign_keys False q1 of
        (Inl e, q2) \<Rightarrow> Fin (Inl e) q2
      | (Inr _, q2) \<Rightarrow>
          if sq_fault q2 then Fin (Inl (Msg ''rebuild begin tx'')) (snd (set_foreign_keys True (sq_pop q2)))
          else (case exec_steps rebuild_steps (sq_pop q2) of
                  (Inl _, q3) \<Rightarrow> Stuck (rolled_back q2 (db_faults (sq_data q3)))
                | (Inr _, q3) \<Rightarrow>
                    if sq_fault q3
                    then Fin (Inl (Msg ''rebuild commit''))
                           (snd (set_foreign_keys True (rolled_back q2 (tl (db_faults (sq_data q3))))))
                    else Fin (Inr ()) (snd (set_foreign_keys True (sq_pop q3)))))"

definition ensureTenantSchema :: "sqlite \<Rightarrow> migration_outcome" where
  "ensureTenantSchema q =
     (case db_read (\<lambda>q. if ''tenants'' \<in> set (sq_tables q) then Some (sq_unique q) else None) q of
        (Inl _, q1) \<Rightarrow> Fin (Inl (Msg ''read tenants schema'')) q1
      | (Inr None, q1) \<Rightarrow> Fin (Inr ()) q1
      | (Inr (Some uniq), q1) \<Rightarrow> if \<not> uniq then Fin (Inr ()) q1 else rebuildTenants q1)"
definition normalizeLegacyTenants :: "sqlite \<Rightarrow> migration_outcome" where
  "normalizeLegacyTenants q = ensureTenantSchema (fold add_column limit_columns q)"

definition insert_or_ignore_key :: "int64 \<Rightarrow> string \<Rightarrow> string \<Rightarrow> time \<Rightarrow> db \<Rightarrow> db option" where
  "insert_or_ignore_key tid keyHash prefix now d =
     (if keyHash \<in> ak_key_hash ` set (t_api_keys d) then Some d else insert_api_key tid keyHash prefix now d)"

definition blank_key :: "int64 \<Rightarrow> db \<Rightarrow> db option" where
  "blank_key tid d = Some (d\<lparr>t_tenants := map (\<lambda>r. if tr_id r = tid then r\<lparr>tr_api_key := ''''\<rparr> else r) (t_tenants d)\<rparr>)"

fun migrate_rows :: "time \<Rightarrow> (int64 \<times> string) list \<Rightarrow> db \<Rightarrow> unit result \<times> db" where
  "migrate_rows now [] d = (Inr (), d)"
| "migrate_rows now ((tid, apiKey) # rs) d =
     (case sql_exec (insert_or_ignore_key tid (HashKey apiKey) (take 12 apiKey) now) d of
        (Inl _, d1) \<Rightarrow> (Inl (Msg ''migrate api_key for tenant''), d1)
      | (Inr _, d1) \<Rightarrow>
          (case sql_exec (blank_key tid) d1 of
             (Inl e, d2) \<Rightarrow> (Inl e, d2)
           | (Inr _, d2) \<Rightarrow> migrate_rows now rs d2))"

definition plaintext_keys :: "db \<Rightarrow> (int64 \<times> string) list" where
  "plaintext_keys d = map (\<lambda>r. (tr_id r, tr_api_key r)) (filter (\<lambda>r. tr_api_key r \<noteq> '''') (t_tenants d))"

definition migratePlaintextKeys :: "time \<Rightarrow> db \<Rightarrow> unit result \<times> db" where
  "migratePlaintextKeys now d =
     (case sql_query plaintext_keys d of
        (Inl _, d1) \<Rightarrow> (Inl (Msg ''migrate api_keys''), d1)
      | (Inr rs, d1) \<Rightarrow> migrate_rows now rs d1)"

section \<open>The migration\<close>

fun apply_each :: "migration list \<Rightarrow> sqlite \<Rightarrow> unit result \<times> sqlite" where
  "apply_each [] q = (Inr (), q)"
| "apply_each (m # ms) q = (case applyMigration m q of (Inl e, q1) \<Rightarrow> (Inl e, q1) | (Inr _, q1) \<Rightarrow> apply_each ms q1)"

definition adoptLegacy :: "time \<Rightarrow> migration list \<Rightarrow> sqlite \<Rightarrow> migration_outcome" where
  "adoptLegacy now migrations q =
     (case apply_each (filter (\<lambda>m. mg_version m = 1) migrations) q of
        (Inl e, q1) \<Rightarrow> Fin (Inl e) q1
      | (Inr _, q1) \<Rightarrow>
          (case normalizeLegacyTenants q1 of
             Stuck q2 \<Rightarrow> Stuck q2
           | Fin (Inl e) q2 \<Rightarrow> Fin (Inl e) q2
           | Fin (Inr _) q2 \<Rightarrow>
               (case migratePlaintextKeys now (sq_data q2) of
                  (Inl e, d) \<Rightarrow> Fin (Inl e) (q2\<lparr>sq_data := d\<rparr>)
                | (Inr _, d) \<Rightarrow> (case recordVersion 1 (q2\<lparr>sq_data := d\<rparr>) of (res, q3) \<Rightarrow> Fin res q3))))"

fun apply_new :: "int64 list \<Rightarrow> migration list \<Rightarrow> sqlite \<Rightarrow> unit result \<times> sqlite" where
  "apply_new applied [] q = (Inr (), q)"
| "apply_new applied (m # ms) q =
     (if mg_version m \<in> set applied then apply_new applied ms q
      else case applyMigration m q of
        (Inl e, q1) \<Rightarrow> (Inl e, q1)
      | (Inr _, q1) \<Rightarrow>
          (case recordVersion (mg_version m) q1 of
             (Inl e, q2) \<Rightarrow> (Inl e, q2)
           | (Inr _, q2) \<Rightarrow> apply_new applied ms q2))"

definition is_legacy :: "int64 list \<Rightarrow> sqlite \<Rightarrow> bool \<times> sqlite" where
  "is_legacy applied q =
     (if applied \<noteq> [] then (False, q)
      else case tableExists ''users'' q of
        (False, q1) \<Rightarrow> (False, q1)
      | (True, q1) \<Rightarrow> tableExists ''tenants'' q1)"

definition apply_pending :: "migration list \<Rightarrow> sqlite \<Rightarrow> migration_outcome" where
  "apply_pending migrations q =
     (case loadAppliedVersions q of
        (Inl e, q1) \<Rightarrow> Fin (Inl e) q1
      | (Inr applied, q1) \<Rightarrow> (case apply_new applied migrations q1 of (res, q2) \<Rightarrow> Fin res q2))"

definition migrate :: "time \<Rightarrow> sqlite \<Rightarrow> migration_outcome" where
  "migrate now q =
     (case db_exec create_versions q of
        (Inl _, q1) \<Rightarrow> Fin (Inl (Msg ''create schema_migrations'')) q1
      | (Inr _, q1) \<Rightarrow>
          (case loadAppliedVersions q1 of
             (Inl e, q2) \<Rightarrow> Fin (Inl e) q2
           | (Inr applied, q2) \<Rightarrow>
               (case is_legacy applied q2 of
                  (legacy, q3) \<Rightarrow>
                    (case loadMigrations migrationsFS of
                       Inl e \<Rightarrow> Fin (Inl e) q3
                     | Inr migrations \<Rightarrow>
                         if \<not> legacy then apply_pending migrations q3
                         else (case adoptLegacy now migrations q3 of
                                 Fin (Inr _) q4 \<Rightarrow> apply_pending migrations q4
                               | x \<Rightarrow> x)))))"

text \<open>\<open>Open\<close>: a failed migration closes the database; the two pragma queries only feed the log.\<close>

definition Open :: "time \<Rightarrow> sqlite \<Rightarrow> (store result \<times> sqlite) option" where
  "Open now q =
     (case migrate now q of
        Stuck _ \<Rightarrow> None
      | Fin (Inl e) q1 \<Rightarrow> Some (Inl e, q1)
      | Fin (Inr _) q1 \<Rightarrow>
          (let q2 = sq_pop (sq_pop q1) in Some (Inr \<lparr>st_db = sq_data q2, st_writer = NewUsageWriter\<rparr>, q2)))"

section \<open>Nothing is lost\<close>

text \<open>
  What a migration may do to the rows: users, certificates and usage stay, key rows are only added, and
  a tenant row stays or trades its plaintext key for its hash in the key table.
\<close>

definition adopts :: "db \<Rightarrow> db \<Rightarrow> bool" where
  "adopts d d' \<longleftrightarrow> t_users d' = t_users d \<and> t_certificates d' = t_certificates d \<and> t_usage_counters d' = t_usage_counters d \<and>
     t_usage_logs d' = t_usage_logs d \<and> set (t_api_keys d) \<subseteq> set (t_api_keys d') \<and>
     list_all2 (\<lambda>r r'. r' = r \<or> r' = r\<lparr>tr_api_key := ''''\<rparr> \<and> HashKey (tr_api_key r) \<in> ak_key_hash ` set (t_api_keys d'))
       (t_tenants d) (t_tenants d')"

lemma adopts_same_rows:
  "t_users d' = t_users d \<Longrightarrow> t_certificates d' = t_certificates d \<Longrightarrow> t_usage_counters d' = t_usage_counters d \<Longrightarrow>
   t_usage_logs d' = t_usage_logs d \<Longrightarrow> set (t_api_keys d) \<subseteq> set (t_api_keys d') \<Longrightarrow> t_tenants d' = t_tenants d \<Longrightarrow> adopts d d'"
  by (simp add: adopts_def list_all2_refl)

lemma adopts_trans: "adopts a b \<Longrightarrow> adopts b c \<Longrightarrow> adopts a c"
proof -
  assume a: "adopts a b" and b: "adopts b c"
  have k: "set (t_api_keys b) \<subseteq> set (t_api_keys c)" using b by (simp add: adopts_def)
  have "list_all2 (\<lambda>r r'. r' = r \<or> r' = r\<lparr>tr_api_key := ''''\<rparr> \<and> HashKey (tr_api_key r) \<in> ak_key_hash ` set (t_api_keys c))
      (t_tenants a) (t_tenants c)"
  proof (rule list_all2_trans)
    show "list_all2 (\<lambda>r r'. r' = r \<or> r' = r\<lparr>tr_api_key := ''''\<rparr> \<and> HashKey (tr_api_key r) \<in> ak_key_hash ` set (t_api_keys b))
      (t_tenants a) (t_tenants b)" using a by (simp add: adopts_def)
    show "list_all2 (\<lambda>r r'. r' = r \<or> r' = r\<lparr>tr_api_key := ''''\<rparr> \<and> HashKey (tr_api_key r) \<in> ak_key_hash ` set (t_api_keys c))
      (t_tenants b) (t_tenants c)" using b by (simp add: adopts_def)
  qed (use k in auto)
  then show ?thesis using a b by (auto simp: adopts_def)
qed

definition safe :: "sqlite \<Rightarrow> sqlite \<Rightarrow> bool" where
  "safe q q' \<longleftrightarrow> (db_inv (sq_data q) \<longrightarrow> db_inv (sq_data q') \<and> adopts (sq_data q) (sq_data q'))"

lemma safe_same_data: "sq_data q' = sq_data q \<Longrightarrow> safe q q'"
  by (simp add: safe_def adopts_same_rows)

lemma safe_refl: "safe q q"
  by (rule safe_same_data) simp

lemma safe_trans: "safe a b \<Longrightarrow> safe b c \<Longrightarrow> safe a c"
  unfolding safe_def using adopts_trans by blast

lemma safe_pop: "safe q (sq_pop q)"
  by (simp add: safe_def sq_pop_def adopts_same_rows)

lemma safe_exec: "db_exec f q = (r, q') \<Longrightarrow> (\<And>q q'. f q = Some q' \<Longrightarrow> safe q q') \<Longrightarrow> safe q q'"
  by (auto simp: db_exec_def split: if_splits option.splits intro: safe_pop safe_trans)

lemma safe_read: "db_read f q = (r, q') \<Longrightarrow> safe q q'"
  by (auto simp: db_read_def split: if_splits intro: safe_pop)

lemma safe_script: "run_script s q = Some q' \<Longrightarrow> safe q q'"
  by (cases s) (auto intro: safe_same_data split: if_splits)

lemma safe_simple:
  "loadAppliedVersions q = (r1, q') \<Longrightarrow> safe q q'" "tableExists t q = (r2, q') \<Longrightarrow> safe q q'" "set_foreign_keys b q = (r3, q') \<Longrightarrow> safe q q'"
  "recordVersion v q = (r4, q') \<Longrightarrow> safe q q'" "db_exec create_versions q = (r5, q') \<Longrightarrow> safe q q'"
  by (auto simp: loadAppliedVersions_def tableExists_def set_foreign_keys_def recordVersion_def create_versions_def
      split: prod.splits sum.splits if_splits dest!: safe_read elim!: safe_exec simp: safe_same_data)

lemma safe_applyMigration: "applyMigration m q = (r, q') \<Longrightarrow> safe q q'"
proof -
  have three: "safe q (sq_pop (sq_pop (sq_pop q)))" by (rule safe_trans [OF safe_trans, OF safe_pop safe_pop safe_pop])
  have run: "safe q q2" if "db_exec (run_script (mg_sql m)) (sq_pop q) = (x, q2)" for x q2
    using safe_trans [OF safe_pop safe_exec [OF that safe_script]] .
  show "applyMigration m q = (r, q') \<Longrightarrow> safe q q'"
    by (auto simp: applyMigration_def split: if_splits prod.splits sum.splits dest!: run intro: three safe_pop safe_trans)
qed

lemma safe_apply_each: "apply_each ms q = (r, q') \<Longrightarrow> safe q q'"
  by (induction ms q rule: apply_each.induct) (auto split: prod.splits sum.splits dest!: safe_applyMigration intro: safe_refl safe_trans)

lemma safe_apply_new: "apply_new vs ms q = (r, q') \<Longrightarrow> safe q q'"
  by (induction vs ms q rule: apply_new.induct)
     (auto split: prod.splits sum.splits if_splits dest!: safe_applyMigration safe_simple intro: safe_refl safe_trans)

lemma safe_add_column: "safe q (add_column c q)"
  unfolding add_column_def by (rule safe_exec [OF prod.collapse [symmetric]]) (auto intro: safe_same_data split: if_splits)

lemma safe_add_columns: "safe q (fold add_column cs q)"
  by (induction cs arbitrary: q) (auto intro: safe_refl safe_trans [OF safe_add_column])

lemma max_id_bounds: "r \<in> set rs \<Longrightarrow> tr_id r \<le> max_id rs" "0 \<le> max_id rs"
  "(\<And>r. r \<in> set rs \<Longrightarrow> tr_id r \<le> s) \<Longrightarrow> 0 \<le> s \<Longrightarrow> max_id rs \<le> s"
  by (induction rs) (auto simp: max_id_def)

lemma rebuilt_ids:
  assumes "ids_ok (map tr_id rs) s"
  shows "ids_ok (map tr_id rs) (max_id rs)"
proof -
  have "max_id rs \<le> s" by (rule max_id_bounds(3)) (use assms in \<open>auto simp: ids_ok_def\<close>)
  then show ?thesis using assms max_id_bounds(1) [of _ rs] max_id_bounds(2) [of rs] by (auto simp: ids_ok_def)
qed

lemma db_exec_Inr: "db_exec f q = (Inr u, q') \<longleftrightarrow> \<not> sq_fault q \<and> f (sq_pop q) = Some q'"
  by (auto simp: db_exec_def split: option.splits)

lemma exec_steps_Inr:
  "exec_steps (f # fs) q = (Inr u, q') \<longleftrightarrow> (\<exists>q1. \<not> sq_fault q \<and> f (sq_pop q) = Some q1 \<and> exec_steps fs q1 = (Inr u, q'))"
  by (auto simp: db_exec_def split: if_splits option.splits)

lemma selected_id [simp]: "selected = id"
  by (rule ext) (simp add: selected_def)

lemma sq_pop_simps [simp]:
  "sq_data (sq_pop q) = pop_fault (sq_data q)" "sq_tables (sq_pop q) = sq_tables q" "sq_rebuild (sq_pop q) = sq_rebuild q"
  "sq_foreign_keys (sq_pop q) = sq_foreign_keys q" "sq_limit_cols (sq_pop q) = sq_limit_cols q" "sq_versions (sq_pop q) = sq_versions q"
  "sq_unique (sq_pop q) = sq_unique q" "sq_indexes (sq_pop q) = sq_indexes q"
  by (simp_all add: sq_pop_def)

text \<open>The five steps together: with foreign keys off, every row survives by way of the copy.\<close>

lemma rebuilt:
  assumes "exec_steps rebuild_steps q = (Inr u, q')" "\<not> sq_foreign_keys q"
  shows "\<exists>fs. sq_data q' = (sq_data q)\<lparr>seq_tenants := max_id (t_tenants (sq_data q)), db_faults := fs\<rparr>"
    "sq_rebuild q' = None" "\<not> sq_foreign_keys q'"
proof -
  from assms(1) obtain q1 q2 q3 q4 where s: "create_rebuild (sq_pop q) = Some q1" "copy_tenants (sq_pop q1) = Some q2"
    "drop_tenants (sq_pop q2) = Some q3" "rename_rebuild (sq_pop q3) = Some q4" "add_key_index (sq_pop q4) = Some q'"
    unfolding rebuild_steps_def exec_steps_Inr by auto
  have 1: "sq_data q1 = pop_fault (sq_data q)" "sq_rebuild q1 = Some ([], 0)" "\<not> sq_foreign_keys q1"
    using s(1) assms(2) by (auto simp: create_rebuild_def split: if_splits)
  have 2: "sq_data q2 = pop_fault (sq_data q1)" "sq_rebuild q2 = Some (t_tenants (sq_data q), max 0 (max_id (t_tenants (sq_data q))))"
    "\<not> sq_foreign_keys q2"
    using s(2) 1 by (auto simp: copy_tenants_def Let_def split: if_splits)
  have 3: "sq_data q3 = (pop_fault (sq_data q2))\<lparr>t_tenants := [], seq_tenants := 0\<rparr>" "sq_rebuild q3 = sq_rebuild q2" "\<not> sq_foreign_keys q3"
    using s(3) 2(3) by (auto simp: drop_tenants_def Let_def split: if_splits)
  have 4: "sq_data q4 = (pop_fault (sq_data q3))\<lparr>t_tenants := t_tenants (sq_data q), seq_tenants := max_id (t_tenants (sq_data q))\<rparr>"
    "sq_rebuild q4 = None" "\<not> sq_foreign_keys q4"
    using s(4) 3(3) 2(2) max_id_bounds(2) [of "t_tenants (sq_data q)"] unfolding 3(2) [symmetric]
    by (auto simp: rename_rebuild_def split: if_splits)
  have 5: "sq_data q' = pop_fault (sq_data q4)" "sq_rebuild q' = sq_rebuild q4" "sq_foreign_keys q' = sq_foreign_keys q4"
    using s(5) by (auto simp: add_key_index_def split: if_splits)
  show "\<exists>fs. sq_data q' = (sq_data q)\<lparr>seq_tenants := max_id (t_tenants (sq_data q)), db_faults := fs\<rparr>"
    by (rule exI [of _ "db_faults (sq_data q')"]) (simp add: 1 2 3 4 5 pop_fault_def)
  show "sq_rebuild q' = None" "\<not> sq_foreign_keys q'" using 4 5 by simp_all
qed

definition safe_outcome :: "sqlite \<Rightarrow> migration_outcome \<Rightarrow> bool" where
  "safe_outcome q out \<longleftrightarrow> safe q (outcome_file out)"

lemma safe_rebuildTenants: "safe_outcome q (rebuildTenants q)"
proof -
  have fk: "safe q1 (snd (set_foreign_keys b q1))" for b q1 by (rule safe_simple(3) [OF prod.collapse [symmetric]])
  have rolled: "safe q2 (rolled_back q2 fs)" for q2 fs
    by (simp add: rolled_back_def safe_def adopts_same_rows db_inv_def tenant_ids_def)
  obtain x q2 where q2: "set_foreign_keys False q = (x, q2)" by fastforce
  have a: "safe q q2" by (rule safe_simple(3) [OF q2])
  show ?thesis
  proof (cases x)
    case (Inr u)
    then have off: "\<not> sq_foreign_keys (sq_pop q2)" using q2 by (auto simp: set_foreign_keys_def db_exec_Inr)
    obtain y q3 where q3: "exec_steps rebuild_steps (sq_pop q2) = (y, q3)" by fastforce
    have b: "safe q q3" if "y = Inr v" for v
    proof -
      from that q3 have "exec_steps rebuild_steps (sq_pop q2) = (Inr v, q3)" by simp
      from rebuilt(1) [OF this off] obtain fs where
        "sq_data q3 = (sq_data (sq_pop q2))\<lparr>seq_tenants := max_id (t_tenants (sq_data (sq_pop q2))), db_faults := fs\<rparr>" by blast
      then have "safe (sq_pop q2) q3" by (auto simp: safe_def db_inv_def tenant_ids_def adopts_same_rows intro: rebuilt_ids)
      then show ?thesis by (rule safe_trans [OF a safe_trans [OF safe_pop]])
    qed
    show ?thesis using q2 q3 Inr
      by (auto simp: rebuildTenants_def safe_outcome_def split: sum.splits
          intro: safe_trans [OF a rolled] safe_trans [OF a safe_trans [OF safe_pop fk]] safe_trans [OF a safe_trans [OF rolled fk]]
            safe_trans [OF b safe_trans [OF safe_pop fk]])
  qed (use q2 a in \<open>simp add: rebuildTenants_def safe_outcome_def\<close>)
qed
lemma safe_outcome_trans: "safe q q1 \<Longrightarrow> safe_outcome q1 out \<Longrightarrow> safe_outcome q out"
  by (auto simp: safe_outcome_def intro: safe_trans)

lemma safe_normalize: "safe_outcome q (normalizeLegacyTenants q)"
proof -
  have "safe_outcome q1 (ensureTenantSchema q1)" for q1
  proof -
    obtain x q2 where r: "db_read (\<lambda>q. if ''tenants'' \<in> set (sq_tables q) then Some (sq_unique q) else None) q1 = (x, q2)" by fastforce
    have s: "safe q1 q2" by (rule safe_read [OF r])
    then show ?thesis using r safe_outcome_trans [OF s safe_rebuildTenants]
      by (auto simp: ensureTenantSchema_def safe_outcome_def split: sum.splits option.splits)
  qed
  then show ?thesis unfolding normalizeLegacyTenants_def by (rule safe_outcome_trans [OF safe_add_columns])
qed

text \<open>The hash is stored before the plaintext is blanked.\<close>

definition keys_of :: "(int64 \<times> string) list \<Rightarrow> db \<Rightarrow> bool" where
  "keys_of rs d \<longleftrightarrow> (\<forall>tid k. (tid, k) \<in> set rs \<longrightarrow> (\<forall>r \<in> set (t_tenants d). tr_id r = tid \<longrightarrow> tr_api_key r = k \<or> tr_api_key r = ''''))"

lemma insert_or_ignore_adopts:
  assumes "db_inv d" "insert_or_ignore_key tid h p now d = Some d'"
  shows "db_inv d' \<and> adopts d d' \<and> h \<in> ak_key_hash ` set (t_api_keys d') \<and> t_tenants d' = t_tenants d"
proof (cases "h \<in> ak_key_hash ` set (t_api_keys d)")
  case True
  then show ?thesis using assms by (auto simp: insert_or_ignore_key_def intro: adopts_same_rows)
next
  case False
  then have i: "insert_api_key tid h p now d = Some d'" using assms(2) by (simp add: insert_or_ignore_key_def)
  from insert_api_key_tables(5) [OF i] insert_api_key_inv [OF assms(1) i] show ?thesis by (auto intro!: adopts_same_rows)
qed

lemma blank_key_adopts:
  assumes "db_inv d" "\<forall>r \<in> set (t_tenants d). tr_id r = tid \<longrightarrow> tr_api_key r = k \<or> tr_api_key r = ''''"
    and "HashKey k \<in> ak_key_hash ` set (t_api_keys d)" "blank_key tid d = Some d'"
  shows "db_inv d' \<and> adopts d d'"
proof -
  let ?f = "\<lambda>r. if tr_id r = tid then r\<lparr>tr_api_key := ''''\<rparr> else r"
  have d': "d' = d\<lparr>t_tenants := map ?f (t_tenants d)\<rparr>" using assms(4) by (simp add: blank_key_def)
  have "db_inv d'" unfolding d' by (rule map_tenants_inv [OF assms(1)]) simp
  moreover have "adopts d d'"
    using assms(2,3) by (auto simp: adopts_def d' list_all2_map2 intro!: list_all2_all_nthI)
  ultimately show ?thesis by blast
qed

lemma sql_exec_adopts:
  assumes "sql_exec f d = (r, d')" "db_inv d" "\<And>e. db_inv (pop_fault d) \<Longrightarrow> f (pop_fault d) = Some e \<Longrightarrow> db_inv e \<and> adopts (pop_fault d) e"
  shows "db_inv d' \<and> adopts d d'"
proof -
  have p: "adopts d (pop_fault d)" by (simp add: adopts_same_rows)
  show ?thesis
  proof (cases "d' = pop_fault d")
    case False
    with assms(1) have "f (pop_fault d) = Some d'" by (auto simp: sql_exec_def split: if_splits option.splits)
    from assms(3) [OF _ this] assms(2) adopts_trans [OF p] show ?thesis by simp
  qed (use assms(2) p in simp)
qed

lemma keys_of_blanked:
  assumes rs: "keys_of rs d"
    and d': "t_tenants d' = t_tenants d \<or> t_tenants d' = map (\<lambda>r. if tr_id r = tid then r\<lparr>tr_api_key := ''''\<rparr> else r) (t_tenants d)"
  shows "keys_of rs d'"
  unfolding keys_of_def
proof (intro allI impI ballI)
  fix t k r assume k: "(t, k) \<in> set rs" and r: "r \<in> set (t_tenants d')" "tr_id r = t"
  then obtain r0 where "r0 \<in> set (t_tenants d)" "r = r0 \<or> r = r0\<lparr>tr_api_key := ''''\<rparr>" using d' by (auto split: if_splits)
  then show "tr_api_key r = k \<or> tr_api_key r = ''''" using rs k r(2) unfolding keys_of_def by auto
qed

lemma migrate_rows_adopts:
  "migrate_rows now rs d = (x, d') \<Longrightarrow> db_inv d \<Longrightarrow> keys_of rs d \<Longrightarrow> db_inv d' \<and> adopts d d'"
proof (induction now rs d rule: migrate_rows.induct)
  case (1 now d) then show ?case by (simp add: adopts_same_rows)
next
  case (2 now tid k rs d)
  obtain x1 d1 where e1: "sql_exec (insert_or_ignore_key tid (HashKey k) (take 12 k) now) d = (x1, d1)" by fastforce
  obtain x2 d2 where e2: "sql_exec (blank_key tid) d1 = (x2, d2)" by fastforce
  have a1: "db_inv d1 \<and> adopts d d1"
    by (rule sql_exec_adopts [OF e1 "2.prems"(2)]) (use insert_or_ignore_adopts in blast)
  show ?case
  proof (cases x1)
    case (Inr u)
    then have i: "insert_or_ignore_key tid (HashKey k) (take 12 k) now (pop_fault d) = Some d1" using e1 by (simp add: sql_exec_Inr)
    have h: "HashKey k \<in> ak_key_hash ` set (t_api_keys d1)" "t_tenants d1 = t_tenants d"
      using insert_or_ignore_adopts [OF _ i] "2.prems"(2) by simp_all
    have k: "\<forall>r \<in> set (t_tenants (pop_fault d1)). tr_id r = tid \<longrightarrow> tr_api_key r = k \<or> tr_api_key r = ''''"
      using "2.prems"(3) h(2) by (auto simp: keys_of_def)
    have a2: "db_inv d2 \<and> adopts d1 d2"
      by (rule sql_exec_adopts [OF e2]) (use a1 h(1) blank_key_adopts [OF _ k] in auto)
    have rs: "keys_of rs d" using "2.prems"(3) unfolding keys_of_def by (meson list.set_intros(2))
    have "t_tenants d2 = t_tenants d \<or> t_tenants d2 = map (\<lambda>r. if tr_id r = tid then r\<lparr>tr_api_key := ''''\<rparr> else r) (t_tenants d)"
      using e2 h(2) by (auto simp: sql_exec_def blank_key_def split: if_splits)
    then have ko: "keys_of rs d2" by (rule keys_of_blanked [OF rs])
    have "db_inv d' \<and> adopts d2 d'" if "x2 = Inr ()"
      using "2.IH" [OF e1 [symmetric] Inr e2 [symmetric] that] "2.prems"(1) e1 e2 Inr that a2 ko by simp
    then show ?thesis using "2.prems"(1) e1 e2 Inr a1 a2 adopts_trans
      by (cases x2) (auto intro: adopts_trans)
  qed (use "2.prems"(1) e1 a1 in simp)
qed

lemma keys_of_plaintext: "db_inv d \<Longrightarrow> keys_of (plaintext_keys d) (pop_fault d)"
proof -
  assume "db_inv d"
  then have "distinct (map tr_id (t_tenants d))" by (simp add: db_inv_def ids_ok_def)
  then show ?thesis by (auto simp: keys_of_def plaintext_keys_def dest: distinct_map_eqD)
qed

lemma plaintext_pop [simp]: "plaintext_keys (pop_fault d) = plaintext_keys d"
  by (simp add: plaintext_keys_def)

lemma safe_plaintext: "migratePlaintextKeys now (sq_data q) = (r, d') \<Longrightarrow> safe q (q\<lparr>sq_data := d'\<rparr>)"
proof -
  assume r: "migratePlaintextKeys now (sq_data q) = (r, d')"
  have "db_inv d' \<and> adopts (sq_data q) d'" if inv: "db_inv (sq_data q)"
  proof (cases "next_fault (sq_data q)")
    case True
    then show ?thesis using r inv by (auto simp: migratePlaintextKeys_def sql_query_def intro: adopts_same_rows)
  next
    case False
    then have "migrate_rows now (plaintext_keys (sq_data q)) (pop_fault (sq_data q)) = (r, d')"
      using r by (simp add: migratePlaintextKeys_def sql_query_def)
    from migrate_rows_adopts [OF this _ keys_of_plaintext [OF inv]] inv
    have "db_inv d' \<and> adopts (pop_fault (sq_data q)) d'" by simp
    moreover have "adopts (sq_data q) (pop_fault (sq_data q))" by (simp add: adopts_same_rows)
    ultimately show ?thesis using adopts_trans by blast
  qed
  then show ?thesis by (simp add: safe_def)
qed

lemma safe_adoptLegacy: "safe_outcome q (adoptLegacy now ms q)"
proof -
  obtain x q1 where e: "apply_each (filter (\<lambda>m. mg_version m = 1) ms) q = (x, q1)" by fastforce
  have s1: "safe q q1" by (rule safe_apply_each [OF e])
  have n: "safe_outcome q1 (normalizeLegacyTenants q1)" by (rule safe_normalize)
  have k: "safe_outcome q2 (case migratePlaintextKeys now (sq_data q2) of
      (Inl e, d) \<Rightarrow> Fin (Inl e) (q2\<lparr>sq_data := d\<rparr>)
    | (Inr _, d) \<Rightarrow> (case recordVersion 1 (q2\<lparr>sq_data := d\<rparr>) of (res, q3) \<Rightarrow> Fin res q3))" for q2
    by (auto simp: safe_outcome_def split: prod.splits sum.splits dest!: safe_plaintext safe_simple(4) intro: safe_trans)
  show ?thesis
  proof (cases "normalizeLegacyTenants q1")
    case (Fin res q2)
    then have "safe q1 q2" using n by (simp add: safe_outcome_def)
    then have "safe_outcome q1 (case migratePlaintextKeys now (sq_data q2) of
      (Inl e, d) \<Rightarrow> Fin (Inl e) (q2\<lparr>sq_data := d\<rparr>)
    | (Inr _, d) \<Rightarrow> (case recordVersion 1 (q2\<lparr>sq_data := d\<rparr>) of (res, q3) \<Rightarrow> Fin res q3))" using k safe_outcome_trans by blast
    then show ?thesis using e s1 n Fin safe_outcome_trans [OF s1]
      by (cases x; cases res) (simp_all add: adoptLegacy_def, simp_all add: safe_outcome_def)
  qed (use e s1 n safe_trans [OF s1] in \<open>cases x; simp add: adoptLegacy_def safe_outcome_def\<close>)
qed

lemma safe_apply_pending: "safe_outcome q (apply_pending ms q)"
  by (auto simp: apply_pending_def safe_outcome_def split: prod.splits sum.splits
      dest!: safe_simple(1) safe_apply_new intro: safe_trans)

lemma safe_is_legacy: "is_legacy vs q = (b, q') \<Longrightarrow> safe q q'"
  by (auto simp: is_legacy_def split: if_splits prod.splits bool.splits dest!: safe_simple(2) intro: safe_refl safe_trans)

lemma safe_migrate: "safe_outcome q (migrate now q)"
proof -
  obtain x1 q1 where e1: "db_exec create_versions q = (x1, q1)" by fastforce
  obtain x2 q2 where e2: "loadAppliedVersions q1 = (x2, q2)" by fastforce
  obtain b q3 where e3: "is_legacy (projr x2) q2 = (b, q3)" by fastforce
  have s1: "safe q q1" by (rule safe_simple(5) [OF e1])
  have s2: "safe q q2" by (rule safe_trans [OF s1 safe_simple(1) [OF e2]])
  have s3: "safe q q3" by (rule safe_trans [OF s2 safe_is_legacy [OF e3]])
  have ad: "safe_outcome q (case adoptLegacy now ms q3 of Fin (Inr _) q4 \<Rightarrow> apply_pending ms q4 | x \<Rightarrow> x)" for ms
  proof (cases "adoptLegacy now ms q3")
    case (Fin res q4)
    then have "safe q q4" using safe_adoptLegacy [of q3 now ms] safe_trans [OF s3] by (simp add: safe_outcome_def)
    then show ?thesis using Fin safe_outcome_trans [OF _ safe_apply_pending] by (cases res) (simp_all add: safe_outcome_def)
  next
    case (Stuck q4)
    then show ?thesis using safe_adoptLegacy [of q3 now ms] safe_trans [OF s3] by (simp add: safe_outcome_def)
  qed
  have m: "migrate now q = (case x1 of Inl _ \<Rightarrow> Fin (Inl (Msg ''create schema_migrations'')) q1
     | Inr _ \<Rightarrow> (case x2 of Inl e \<Rightarrow> Fin (Inl e) q2
       | Inr applied \<Rightarrow> (case loadMigrations migrationsFS of Inl e \<Rightarrow> Fin (Inl e) q3
          | Inr ms \<Rightarrow> if \<not> b then apply_pending ms q3
              else (case adoptLegacy now ms q3 of Fin (Inr _) q4 \<Rightarrow> apply_pending ms q4 | x \<Rightarrow> x))))"
    using e1 e2 e3 by (cases x2) (simp_all add: migrate_def split: sum.split)
  show ?thesis unfolding m
    using s1 s2 s3 ad safe_outcome_trans [OF s3 safe_apply_pending]
    by (simp add: safe_outcome_def split: sum.split)
qed

section \<open>Properties\<close>

text \<open>C29. No migration loses data, whichever statements fail, and also when the startup hangs in the rebuild of
  the tenants table: in the file that is left, users, certificates and usage are untouched, key rows are
  only added, every tenant keeps its row, and a plaintext key has disappeared only if its hash is in the
  key table. The schema invariant holds, so the migration can be repeated on it.\<close>

theorem migrate_loses_nothing:
  assumes "db_inv (sq_data q)"
  shows "db_inv (sq_data (outcome_file (migrate now q))) \<and> adopts (sq_data q) (sq_data (outcome_file (migrate now q)))"
  using safe_migrate [of q now] assms by (simp add: safe_outcome_def safe_def)


text \<open>A file from before the migrations, with one tenant and its plaintext key.\<close>

definition demo_legacy :: sqlite where
  "demo_legacy = \<lparr>sq_versions = None, sq_tables = [''users'', ''tenants''], sq_indexes = [], sq_unique = True, sq_limit_cols = [],
     sq_rebuild = None, sq_foreign_keys = True,
     sq_data = demo_db\<lparr>t_tenants := [demo_tenant\<lparr>tr_api_key := ''0123456789abcdef0123456789abcdef''\<rparr>], db_faults := []\<rparr>\<rparr>"

section \<open>Runs without failures\<close>

lemma exec_healthy: "healthy (sq_data q) \<Longrightarrow> db_exec f q = (case f q of None \<Rightarrow> (Inl ConstraintError, q) | Some q' \<Rightarrow> (Inr (), q'))"
  by (simp add: db_exec_def sq_fault_def sq_pop_def split: option.split)

lemma read_healthy: "healthy (sq_data q) \<Longrightarrow> db_read f q = (Inr (f q), q)"
  by (simp add: db_read_def sq_fault_def sq_pop_def)

lemma script_data: "run_script s q = Some q' \<Longrightarrow> sq_data q' = sq_data q \<and> sq_versions q' = sq_versions q \<and> sq_rebuild q' = sq_rebuild q"
  by (cases s) (auto split: if_splits)

lemma apply_healthy:
  assumes "healthy (sq_data q)" "run_script (mg_sql m) q = Some q'"
  shows "applyMigration m q = (Inr (), q')"
  using assms script_data [OF assms(2)] by (simp add: applyMigration_def exec_healthy sq_fault_def sq_pop_def)

lemma embedded_migrations:
  "loadMigrations migrationsFS = Inr [\<lparr>mg_version = 1, mg_sql = Init\<rparr>, \<lparr>mg_version = 2, mg_sql = Retention_Index\<rparr>]"
proof -
  have "read_entries migrationsFS = Inr [\<lparr>mg_version = 1, mg_sql = Init\<rparr>, \<lparr>mg_version = 2, mg_sql = Retention_Index\<rparr>]" by code_simp
  then show ?thesis by (simp add: loadMigrations_def)
qed

text \<open>A database with both versions on record is left alone.\<close>

lemma migrated_stays:
  assumes "healthy (sq_data q)" "sq_versions q = Some vs" "1 \<in> set vs" "2 \<in> set vs"
  shows "migrate now q = Fin (Inr ()) q"
proof -
  have c: "create_versions q = Some q" using assms(2) by (simp add: create_versions_def)
  have "vs \<noteq> []" using assms(3) by auto
  then show ?thesis
    using assms(2-4) by (simp add: migrate_def exec_healthy [OF assms(1)] c loadAppliedVersions_def read_healthy [OF assms(1)]
        applied_versions_def is_legacy_def embedded_migrations apply_pending_def)
qed

lemma applyMigration_versions: "applyMigration m q = (r, q') \<Longrightarrow> sq_versions q' = sq_versions q"
  by (auto simp: applyMigration_def db_exec_def sq_pop_def split: if_splits option.splits prod.splits sum.splits dest!: script_data)

lemma recordVersion_ok: "recordVersion v q = (Inr u, q') \<Longrightarrow> sq_versions q' = Some (applied_versions q @ [v])"
  by (auto simp: recordVersion_def db_exec_def sq_pop_def applied_versions_def split: if_splits option.splits)

lemma apply_new_versions:
  "apply_new applied ms q = (Inr u, q') \<Longrightarrow> set applied \<subseteq> set (applied_versions q) \<Longrightarrow>
   set (applied_versions q) \<union> mg_version ` set ms \<subseteq> set (applied_versions q')"
proof (induction applied ms q rule: apply_new.induct)
  case (2 applied m ms q)
  show ?case
  proof (cases "mg_version m \<in> set applied")
    case True then show ?thesis using "2.IH"(1) "2.prems" by auto
  next
    case False
    then obtain q1 q2 x y where m: "applyMigration m q = (Inr x, q1)" "recordVersion (mg_version m) q1 = (Inr y, q2)"
      and rest: "apply_new applied ms q2 = (Inr u, q')"
      using "2.prems"(1) by (auto split: prod.splits sum.splits)
    have v: "applied_versions q2 = applied_versions q @ [mg_version m]"
      using recordVersion_ok [OF m(2)] applyMigration_versions [OF m(1)] by (simp add: applied_versions_def)
    then have "set applied \<subseteq> set (applied_versions q2)" using "2.prems"(2) by auto
    from "2.IH"(2) [OF False m(1) [symmetric] refl m(2) [symmetric] refl rest this] v show ?thesis by auto
  qed
qed simp

lemma apply_pending_versions:
  assumes "apply_pending [\<lparr>mg_version = 1, mg_sql = a\<rparr>, \<lparr>mg_version = 2, mg_sql = b\<rparr>] q = Fin (Inr u) q'"
  shows "{1, 2} \<subseteq> set (applied_versions q')"
proof -
  from assms obtain applied q1 where l: "loadAppliedVersions q = (Inr applied, q1)"
    and n: "apply_new applied [\<lparr>mg_version = 1, mg_sql = a\<rparr>, \<lparr>mg_version = 2, mg_sql = b\<rparr>] q1 = (Inr u, q')"
    by (auto simp: apply_pending_def split: prod.splits sum.splits)
  have "set applied \<subseteq> set (applied_versions q1)"
    using l by (auto simp: loadAppliedVersions_def db_read_def split: if_splits)
  from apply_new_versions [OF n this] show ?thesis by simp
qed

text \<open>Starting again changes nothing: after a migration that succeeded, in whatever state and with whatever
  failures it started, the next one leaves the database exactly as it is.\<close>

lemma migrate_idempotent:
  assumes "migrate now q = Fin (Inr u) q'" and "healthy (sq_data q')"
  shows "migrate now' q' = Fin (Inr ()) q'"
proof -
  from assms(1) obtain q3 where "apply_pending [\<lparr>mg_version = 1, mg_sql = Init\<rparr>, \<lparr>mg_version = 2, mg_sql = Retention_Index\<rparr>] q3 = Fin (Inr u) q'"
    by (auto simp: migrate_def embedded_migrations split: prod.splits sum.splits if_splits migration_outcome.splits)
  then have v: "{1, 2} \<subseteq> set (applied_versions q')" by (rule apply_pending_versions)
  then obtain vs where vs: "sq_versions q' = Some vs" by (cases "sq_versions q'") (auto simp: applied_versions_def)
  show ?thesis by (rule migrated_stays [OF assms(2) vs]) (use v vs in \<open>auto simp: applied_versions_def\<close>)
qed

definition blanked :: "int64 set \<Rightarrow> tenant_row \<Rightarrow> tenant_row" where
  "blanked T r = (if tr_id r \<in> T then r\<lparr>tr_api_key := ''''\<rparr> else r)"

lemma blanked_id [simp]: "tr_id (blanked T r) = tr_id r"
  by (simp add: blanked_def)

lemma migrate_rows_healthy:
  assumes "healthy d" "fst ` set rs \<subseteq> tenant_ids d" "distinct (map (HashKey \<circ> snd) rs)"
    and "(HashKey \<circ> snd) ` set rs \<inter> ak_key_hash ` set (t_api_keys d) = {}" "seq_api_keys d + int (length rs) < 2 ^ 63"
  shows "\<exists>d'. migrate_rows now rs d = (Inr (), d') \<and> healthy d' \<and> t_tenants d' = map (blanked (fst ` set rs)) (t_tenants d) \<and>
    (\<forall>(t, k) \<in> set rs. \<exists>ak \<in> set (t_api_keys d'). ak_tenant_id ak = t \<and> ak_key_hash ak = HashKey k \<and> ak_enabled ak = 1 \<and> ak_revoked_at ak = None) \<and>
    set (t_api_keys d) \<subseteq> set (t_api_keys d')"
  using assms
proof (induction rs arbitrary: d)
  case Nil
  have "blanked {} = id" by (rule ext) (simp add: blanked_def)
  then show ?case using Nil by simp
next
  case (Cons x rs)
  obtain t k where x: "x = (t, k)" by (cases x)
  let ?ak = "\<lparr>ak_id = seq_api_keys d + 1, ak_tenant_id = t, ak_key_hash = HashKey k, ak_key_prefix = take 12 k, ak_enabled = 1,
      ak_created_at = current_timestamp now, ak_last_used_at = None, ak_revoked_at = None\<rparr>"
  let ?d1 = "d\<lparr>seq_api_keys := seq_api_keys d + 1, t_api_keys := t_api_keys d @ [?ak]\<rparr>"
  let ?d2 = "?d1\<lparr>t_tenants := map (blanked {t}) (t_tenants d)\<rparr>"
  have i: "sql_exec (insert_or_ignore_key t (HashKey k) (take 12 k) now) d = (Inr (), ?d1)"
    using Cons.prems x
    by (auto simp: sql_exec_healthy insert_or_ignore_key_def insert_api_key_def next_id_def)
  have h1: "healthy ?d1" using Cons.prems(1) by (simp add: healthy_def)
  have b: "sql_exec (blank_key t) ?d1 = (Inr (), ?d2)"
    by (simp add: sql_exec_healthy [OF h1] blank_key_def blanked_def)
  have ids: "tenant_ids ?d2 = tenant_ids d" by (simp add: tenant_ids_def image_image)
  have "\<exists>d'. migrate_rows now rs ?d2 = (Inr (), d') \<and> healthy d' \<and> t_tenants d' = map (blanked (fst ` set rs)) (t_tenants ?d2) \<and>
    (\<forall>(t, k) \<in> set rs. \<exists>ak \<in> set (t_api_keys d'). ak_tenant_id ak = t \<and> ak_key_hash ak = HashKey k \<and> ak_enabled ak = 1 \<and> ak_revoked_at ak = None) \<and>
    set (t_api_keys ?d2) \<subseteq> set (t_api_keys d')"
  proof (rule Cons.IH)
    show "healthy ?d2" using Cons.prems(1) by (simp add: healthy_def)
    show "fst ` set rs \<subseteq> tenant_ids ?d2" using Cons.prems(2) ids by simp
    show "(HashKey \<circ> snd) ` set rs \<inter> ak_key_hash ` set (t_api_keys ?d2) = {}"
      using Cons.prems(3,4) x by auto
  qed (use Cons.prems in simp_all)
  then obtain d' where d': "migrate_rows now rs ?d2 = (Inr (), d')" "healthy d'" "t_tenants d' = map (blanked (fst ` set rs)) (t_tenants ?d2)"
    "\<forall>(t, k) \<in> set rs. \<exists>ak \<in> set (t_api_keys d'). ak_tenant_id ak = t \<and> ak_key_hash ak = HashKey k \<and> ak_enabled ak = 1 \<and> ak_revoked_at ak = None"
    "set (t_api_keys ?d2) \<subseteq> set (t_api_keys d')" by blast
  have run: "migrate_rows now (x # rs) d = (Inr (), d')" using x i b d'(1) by simp
  have "t_tenants d' = map (blanked (fst ` set (x # rs))) (t_tenants d)"
    using d'(3) x by (auto simp: blanked_def)
  moreover have "?ak \<in> set (t_api_keys d')" using d'(5) by simp
  then have "\<exists>ak \<in> set (t_api_keys d'). ak_tenant_id ak = t \<and> ak_key_hash ak = HashKey k \<and> ak_enabled ak = 1 \<and> ak_revoked_at ak = None"
    by (rule bexI [rotated]) simp
  ultimately show ?case using run d' x by auto
qed

lemma add_column_healthy:
  assumes "healthy (sq_data q)"
  shows "\<exists>cols. add_column c q = q\<lparr>sq_limit_cols := cols\<rparr> \<and> set (sq_limit_cols q) \<subseteq> set cols \<and>
    (''tenants'' \<in> set (sq_tables q) \<longrightarrow> c \<in> set cols)"
  by (cases "''tenants'' \<notin> set (sq_tables q) \<or> c \<in> set (sq_limit_cols q)")
     (auto simp: add_column_def exec_healthy [OF assms] intro: exI [of _ "sq_limit_cols q"])

lemma add_columns_healthy:
  "healthy (sq_data q) \<Longrightarrow> \<exists>cols. fold add_column cs q = q\<lparr>sq_limit_cols := cols\<rparr> \<and> set (sq_limit_cols q) \<subseteq> set cols \<and>
    (''tenants'' \<in> set (sq_tables q) \<longrightarrow> set cs \<subseteq> set cols)"
proof (induction cs arbitrary: q)
  case Nil show ?case by (intro exI [of _ "sq_limit_cols q"]) simp
next
  case (Cons c cs)
  from add_column_healthy [OF Cons.prems, of c] obtain cols where a: "add_column c q = q\<lparr>sq_limit_cols := cols\<rparr>"
    "set (sq_limit_cols q) \<subseteq> set cols" "''tenants'' \<in> set (sq_tables q) \<longrightarrow> c \<in> set cols" by blast
  have "healthy (sq_data (q\<lparr>sq_limit_cols := cols\<rparr>))" using Cons.prems by simp
  from Cons.IH [OF this] obtain cols' where "fold add_column cs (q\<lparr>sq_limit_cols := cols\<rparr>) = q\<lparr>sq_limit_cols := cols'\<rparr>"
    "set cols \<subseteq> set cols'" "''tenants'' \<in> set (sq_tables q) \<longrightarrow> set cs \<subseteq> set cols'" by auto
  with a show ?case by (intro exI [of _ cols']) auto
qed

lemma rebuild_healthy:
  assumes h: "healthy (sq_data q)" and inv: "db_inv (sq_data q)" and t: "''tenants'' \<in> set (sq_tables q)"
    and cols: "set limit_columns \<subseteq> set (sq_limit_cols q)" and none: "sq_rebuild q = None"
  shows "\<exists>q'. rebuildTenants q = Fin (Inr ()) q' \<and> sq_data q' = (sq_data q)\<lparr>seq_tenants := max_id (t_tenants (sq_data q))\<rparr> \<and>
    sq_versions q' = sq_versions q \<and> \<not> sq_unique q'"
proof -
  let ?d = "sq_data q" and ?rows = "t_tenants (sq_data q)"
  let ?q1 = "q\<lparr>sq_foreign_keys := False\<rparr>"
  let ?q2 = "?q1\<lparr>sq_rebuild := Some ([], 0)\<rparr>"
  let ?q3 = "?q2\<lparr>sq_rebuild := Some (?rows, max_id ?rows)\<rparr>"
  let ?q4 = "?q3\<lparr>sq_tables := filter (\<lambda>t. t \<noteq> ''tenants'') (sq_tables q), sq_unique := False, sq_limit_cols := [],
     sq_indexes := filter (\<lambda>i. i \<noteq> ''idx_tenants_api_key'') (sq_indexes q), sq_data := ?d\<lparr>t_tenants := [], seq_tenants := 0\<rparr>\<rparr>"
  let ?q5 = "?q4\<lparr>sq_rebuild := None, sq_tables := sq_tables ?q4 @ [''tenants''], sq_limit_cols := limit_columns,
     sq_data := ?d\<lparr>seq_tenants := max_id ?rows\<rparr>\<rparr>"
  have ids: "distinct (map tr_id ?rows)" using inv by (simp add: db_inv_def ids_ok_def)
  have steps: "create_rebuild ?q1 = Some ?q2" "copy_tenants ?q2 = Some ?q3" "drop_tenants ?q3 = Some ?q4" "rename_rebuild ?q4 = Some ?q5"
    using none t cols ids max_id_bounds(2) [of ?rows]
    by (simp_all add: create_rebuild_def copy_tenants_def drop_tenants_def rename_rebuild_def Let_def)
  have hs: "healthy (sq_data ?q1)" "healthy (sq_data ?q2)" "healthy (sq_data ?q3)" "healthy (sq_data ?q4)" "healthy (sq_data ?q5)"
    using h by (simp_all add: healthy_def)
  let ?q6 = "?q5\<lparr>sq_indexes := add_missing (sq_indexes ?q5) [''idx_tenants_api_key'']\<rparr>"
  have "add_key_index ?q5 = Some ?q6" by (simp add: add_key_index_def)
  then have run: "exec_steps rebuild_steps ?q1 = (Inr (), ?q6)"
    unfolding rebuild_steps_def exec_steps.simps
    by (simp only: exec_healthy [OF hs(1)] exec_healthy [OF hs(2)] exec_healthy [OF hs(3)] exec_healthy [OF hs(4)] exec_healthy [OF hs(5)]
        steps option.case prod.case sum.case)
  have p: "sq_pop x = x" "\<not> sq_fault x" if "healthy (sq_data x)" for x using that by (simp_all add: sq_pop_def sq_fault_def)
  have fk: "set_foreign_keys b x = (Inr (), x\<lparr>sq_foreign_keys := b\<rparr>)" if "healthy (sq_data x)" for b x
    using that by (simp add: set_foreign_keys_def exec_healthy)
  have h6: "healthy (sq_data ?q6)" using h by (simp add: healthy_def)
  have "rebuildTenants q = Fin (Inr ()) (?q6\<lparr>sq_foreign_keys := True\<rparr>)"
    unfolding rebuildTenants_def fk [OF h] prod.case sum.case p(1) [OF hs(1)] run using p [OF hs(1)] p [OF h6] fk [OF h6] by simp
  then show ?thesis by (intro exI [of _ "?q6\<lparr>sq_foreign_keys := True\<rparr>"]) simp
qed

lemma normalize_healthy:
  assumes "healthy (sq_data q)" "db_inv (sq_data q)" "''tenants'' \<in> set (sq_tables q)" "sq_rebuild q = None"
  shows "\<exists>q' s. normalizeLegacyTenants q = Fin (Inr ()) q' \<and> sq_data q' = (sq_data q)\<lparr>seq_tenants := s\<rparr> \<and>
    sq_versions q' = sq_versions q \<and> \<not> sq_unique q'"
proof -
  from add_columns_healthy [OF assms(1), of limit_columns] assms(3) obtain cols where
    c: "fold add_column limit_columns q = q\<lparr>sq_limit_cols := cols\<rparr>" "set limit_columns \<subseteq> set cols" by blast
  let ?q1 = "q\<lparr>sq_limit_cols := cols\<rparr>"
  have h: "healthy (sq_data ?q1)" using assms(1) by simp
  from rebuild_healthy [OF h] c(2) assms(2-4) obtain q' where r: "rebuildTenants ?q1 = Fin (Inr ()) q'"
    "sq_data q' = (sq_data q)\<lparr>seq_tenants := max_id (t_tenants (sq_data q))\<rparr>" "sq_versions q' = sq_versions q" "\<not> sq_unique q'" by auto
  show ?thesis
  proof (cases "sq_unique q")
    case True
    then show ?thesis using r assms(3) by (simp add: normalizeLegacyTenants_def c(1) ensureTenantSchema_def read_healthy [OF h]) blast
  next
    case False
    then have "normalizeLegacyTenants q = Fin (Inr ()) ?q1"
      using assms(3) by (simp add: normalizeLegacyTenants_def c(1) ensureTenantSchema_def read_healthy [OF h])
    then show ?thesis using False by (intro exI [of _ ?q1] exI [of _ "seq_tenants (sq_data q)"]) simp
  qed
qed
definition adoptable :: "db \<Rightarrow> bool" where
  "adoptable d \<longleftrightarrow> distinct (map (HashKey \<circ> snd) (plaintext_keys d)) \<and>
     (HashKey \<circ> snd) ` set (plaintext_keys d) \<inter> ak_key_hash ` set (t_api_keys d) = {} \<and>
     seq_api_keys d + int (length (plaintext_keys d)) < 2 ^ 63"

lemma plaintext_tenants: "fst ` set (plaintext_keys d) = tr_id ` {r \<in> set (t_tenants d). tr_api_key r \<noteq> ''''}"
  by (force simp: plaintext_keys_def)

lemma plaintext_healthy:
  assumes "healthy d" "adoptable d"
  shows "\<exists>d'. migratePlaintextKeys now d = (Inr (), d') \<and> healthy d' \<and>
    t_tenants d' = map (\<lambda>r. r\<lparr>tr_api_key := ''''\<rparr>) (t_tenants d) \<and>
    (\<forall>r \<in> set (t_tenants d). tr_api_key r \<noteq> '''' \<longrightarrow>
      (\<exists>ak \<in> set (t_api_keys d'). ak_tenant_id ak = tr_id r \<and> ak_key_hash ak = HashKey (tr_api_key r) \<and> ak_enabled ak = 1 \<and> ak_revoked_at ak = None))"
proof -
  let ?rs = "plaintext_keys d"
  have "fst ` set ?rs \<subseteq> tenant_ids d" by (auto simp: plaintext_tenants tenant_ids_def)
  from migrate_rows_healthy [OF assms(1) this, of now] assms(2) obtain d' where
    d': "migrate_rows now ?rs d = (Inr (), d')" "healthy d'" "t_tenants d' = map (blanked (fst ` set ?rs)) (t_tenants d)"
    and ks: "\<forall>(t, k) \<in> set ?rs. \<exists>ak \<in> set (t_api_keys d'). ak_tenant_id ak = t \<and> ak_key_hash ak = HashKey k \<and> ak_enabled ak = 1 \<and> ak_revoked_at ak = None"
    unfolding adoptable_def by blast
  have run: "migratePlaintextKeys now d = (Inr (), d')"
    using d'(1) assms(1) by (simp add: migratePlaintextKeys_def sql_query_healthy)
  have "blanked (fst ` set ?rs) r = r\<lparr>tr_api_key := ''''\<rparr>" if "r \<in> set (t_tenants d)" for r
    using that by (cases r) (auto simp: blanked_def plaintext_tenants)
  then have "t_tenants d' = map (\<lambda>r. r\<lparr>tr_api_key := ''''\<rparr>) (t_tenants d)" using d'(3) by simp
  moreover have "(tr_id r, tr_api_key r) \<in> set ?rs" if "r \<in> set (t_tenants d)" "tr_api_key r \<noteq> ''''" for r
    using that by (auto simp: plaintext_keys_def)
  ultimately show ?thesis using run d'(2) ks by blast
qed
lemma migrate_legacy:
  assumes inv: "db_inv (sq_data q)" and h: "healthy (sq_data q)" and ok: "adoptable (sq_data q)"
    and legacy: "applied_versions q = []" "''users'' \<in> set (sq_tables q)" "''tenants'' \<in> set (sq_tables q)" "sq_rebuild q = None"
  shows "\<exists>q' s. migrate now q = Fin (Inr ()) q' \<and> sq_versions q' = Some [1, 2] \<and> \<not> sq_unique q' \<and>
    migratePlaintextKeys now ((sq_data q)\<lparr>seq_tenants := s\<rparr>) = (Inr (), sq_data q')"
proof -
  let ?q1 = "q\<lparr>sq_versions := Some []\<rparr>"
  have c: "create_versions q = Some ?q1" using legacy(1) by (auto simp: create_versions_def applied_versions_def split: option.splits)
  have h1: "healthy (sq_data ?q1)" using h by simp
  have "distinct (map ak_key_hash (t_api_keys (sq_data q)))" using inv by (simp add: db_inv_def keys_ok_def)
  then obtain q2 where q2: "run_script Init ?q1 = Some q2" "''tenants'' \<in> set (sq_tables q2)"
    using legacy(3) by (auto simp: add_missing_def)
  have d2: "sq_data q2 = sq_data q" "sq_versions q2 = Some []" "sq_rebuild q2 = None" using script_data [OF q2(1)] legacy(4) by simp_all
  from normalize_healthy [of q2] q2(2) h inv d2 obtain q3 s where
    q3: "normalizeLegacyTenants q2 = Fin (Inr ()) q3" "sq_data q3 = (sq_data q)\<lparr>seq_tenants := s\<rparr>" "sq_versions q3 = Some []" "\<not> sq_unique q3"
    by auto
  have "healthy (sq_data q3)" "adoptable (sq_data q3)"
    using h ok by (simp_all add: q3(2) healthy_def adoptable_def plaintext_keys_def)
  from plaintext_healthy [OF this] obtain d' where d': "migratePlaintextKeys now (sq_data q3) = (Inr (), d')" "healthy d'" by blast
  let ?q4 = "q3\<lparr>sq_data := d', sq_versions := Some [1]\<rparr>"
  have rec: "recordVersion v x = (Inr (), x\<lparr>sq_versions := Some (applied_versions x @ [v])\<rparr>)"
    if "healthy (sq_data x)" "v \<notin> set (applied_versions x)" for v x
    using that by (simp add: recordVersion_def exec_healthy)
  have m1: "applyMigration \<lparr>mg_version = 1, mg_sql = Init\<rparr> ?q1 = (Inr (), q2)" by (rule apply_healthy) (use h1 q2 in simp_all)
  have a: "adoptLegacy now [\<lparr>mg_version = 1, mg_sql = Init\<rparr>, \<lparr>mg_version = 2, mg_sql = Retention_Index\<rparr>] ?q1 = Fin (Inr ()) ?q4"
    using rec [of "q3\<lparr>sq_data := d'\<rparr>" 1] d' q3(1,3) by (simp add: adoptLegacy_def m1 applied_versions_def)
  let ?q5 = "?q4\<lparr>sq_indexes := add_missing (sq_indexes ?q4) [''idx_usage_counters_hour'']\<rparr>"
  have h4: "healthy (sq_data ?q4)" "healthy (sq_data ?q5)" using d'(2) by simp_all
  have m2: "applyMigration \<lparr>mg_version = 2, mg_sql = Retention_Index\<rparr> ?q4 = (Inr (), ?q5)"
    by (rule apply_healthy [OF h4(1)]) simp
  have p: "apply_pending [\<lparr>mg_version = 1, mg_sql = Init\<rparr>, \<lparr>mg_version = 2, mg_sql = Retention_Index\<rparr>] ?q4 =
      Fin (Inr ()) (?q5\<lparr>sq_versions := Some [1, 2]\<rparr>)"
    using rec [OF h4(2), of 2]
    by (simp add: apply_pending_def loadAppliedVersions_def read_healthy [OF h4(1)] applied_versions_def m2)
  have l: "is_legacy [] ?q1 = (True, ?q1)" using legacy(2,3) by (simp add: is_legacy_def tableExists_def read_healthy [OF h1])
  have "migrate now q = Fin (Inr ()) (?q5\<lparr>sq_versions := Some [1, 2]\<rparr>)"
    using l by (simp add: migrate_def exec_healthy [OF h] c loadAppliedVersions_def read_healthy [OF h1] applied_versions_def
        embedded_migrations a p)
  then show ?thesis using d'(1) q3(2,4) by (intro exI [of _ "?q5\<lparr>sq_versions := Some [1, 2]\<rparr>"] exI [of _ s]) simp
qed

lemma legacy_key_scope: "length k = 32 \<Longrightarrow> isHex k \<Longrightarrow> key_scope k = Some (\<lambda>ak. ak_key_hash ak = HashKey k)"
proof -
  assume k: "length k = 32" "isHex k"
  then obtain c cs where "k = c # cs" by (cases k) auto
  then have "\<not> has_prefix k ''ing_''" using k(2) by (auto simp: isHex_def Let_def)
  then show ?thesis using k by (simp add: key_scope_def)
qed

text \<open>C30. A database from before the migrations is adopted in place by a migration without failures, provided
  no two plaintext keys have one hash and none of the hashes is on file already (and no table
  \<open>tenants_rebuild\<close> is in the way): both versions are recorded, no plaintext key is left, every tenant
  keeps its row, every plaintext key is on file as a live hash of its tenant, and every
  key of the old format (32 hexadecimal digits) of an active tenant authenticates that tenant.\<close>
theorem legacy_keys_adopted:
  assumes inv: "db_inv (sq_data q)" and h: "healthy (sq_data q)" and ok: "adoptable (sq_data q)"
    and legacy: "applied_versions q = []" "''users'' \<in> set (sq_tables q)" "''tenants'' \<in> set (sq_tables q)" "sq_rebuild q = None"
  shows "\<exists>q'. migrate now q = Fin (Inr ()) q' \<and> sq_versions q' = Some [1, 2] \<and> \<not> sq_unique q' \<and>
    t_tenants (sq_data q') = map (\<lambda>r. r\<lparr>tr_api_key := ''''\<rparr>) (t_tenants (sq_data q)) \<and>
    (\<forall>r \<in> set (t_tenants (sq_data q)). tr_api_key r \<noteq> '''' \<longrightarrow>
      (\<exists>ak \<in> set (t_api_keys (sq_data q')). ak_tenant_id ak = tr_id r \<and> ak_key_hash ak = HashKey (tr_api_key r) \<and>
         ak_enabled ak = 1 \<and> ak_revoked_at ak = None)) \<and>
    (\<forall>r \<in> set (t_tenants (sq_data q)). length (tr_api_key r) = 32 \<and> isHex (tr_api_key r) \<and> tr_active r = 1 \<longrightarrow>
      fst (LookupTenantByKey now' (tr_api_key r) (sq_data q')) = Inr (Some (tenant_of_row (r\<lparr>tr_api_key := ''''\<rparr>) '''')))"
proof -
  from migrate_legacy [OF assms, of now] obtain q' s where m: "migrate now q = Fin (Inr ()) q'" "sq_versions q' = Some [1, 2]" "\<not> sq_unique q'"
    and k: "migratePlaintextKeys now ((sq_data q)\<lparr>seq_tenants := s\<rparr>) = (Inr (), sq_data q')" by blast
  have "healthy ((sq_data q)\<lparr>seq_tenants := s\<rparr>)" "adoptable ((sq_data q)\<lparr>seq_tenants := s\<rparr>)"
    using h ok by (simp_all add: healthy_def adoptable_def plaintext_keys_def)
  from plaintext_healthy [OF this, of now] k have h': "healthy (sq_data q')"
    and rows: "t_tenants (sq_data q') = map (\<lambda>r. r\<lparr>tr_api_key := ''''\<rparr>) (t_tenants (sq_data q))"
    and moved: "\<forall>r \<in> set (t_tenants (sq_data q)). tr_api_key r \<noteq> '''' \<longrightarrow>
      (\<exists>ak \<in> set (t_api_keys (sq_data q')). ak_tenant_id ak = tr_id r \<and> ak_key_hash ak = HashKey (tr_api_key r) \<and> ak_enabled ak = 1 \<and> ak_revoked_at ak = None)"
    by auto
  have inv': "db_inv (sq_data q')" using safe_migrate [of q now] inv m(1) by (simp add: safe_outcome_def safe_def)
  have "fst (LookupTenantByKey now' (tr_api_key r) (sq_data q')) = Inr (Some (tenant_of_row (r\<lparr>tr_api_key := ''''\<rparr>) ''''))"
    if r: "r \<in> set (t_tenants (sq_data q))" "length (tr_api_key r) = 32" "isHex (tr_api_key r)" "tr_active r = 1" for r
  proof -
    have "key_holds (sq_data q') (tr_api_key r) (r\<lparr>tr_api_key := ''''\<rparr>)"
      using bspec [OF moved r(1)] r(1,2,4) by (auto simp: rows key_holds_def legacy_key_scope [OF r(2,3)] live_key_def)
    then show ?thesis using LookupTenantByKey_iff [OF inv', of now' "tr_api_key r"] h' by auto
  qed
  then show ?thesis using m rows moved by blast
qed

lemma demo_legacy_ok:
  "db_inv (sq_data demo_legacy)" "healthy (sq_data demo_legacy)" "adoptable (sq_data demo_legacy)" "applied_versions demo_legacy = []"
  "''users'' \<in> set (sq_tables demo_legacy)" "''tenants'' \<in> set (sq_tables demo_legacy)" "sq_rebuild demo_legacy = None"
proof -
  show "db_inv (sq_data demo_legacy)"
    by (simp add: demo_legacy_def demo_db_def demo_tenant_def empty_db_def db_inv_def table_ok_defs tenant_ids_def)
  show "healthy (sq_data demo_legacy)" by (simp add: demo_legacy_def healthy_def)
  show "adoptable (sq_data demo_legacy)" by (simp add: demo_legacy_def adoptable_def plaintext_keys_def demo_db_def empty_db_def)
qed (simp_all add: demo_legacy_def applied_versions_def)

theorem migrate_loses_nothing_witness:
  "\<exists>q'. migrate 5 (demo_legacy\<lparr>sq_data := (sq_data demo_legacy)\<lparr>db_faults := replicate 14 False @ [True]\<rparr>\<rparr>) = Stuck q' \<and>
     adopts ((sq_data demo_legacy)\<lparr>db_faults := replicate 14 False @ [True]\<rparr>) (sq_data q')"
proof -
  let ?q = "demo_legacy\<lparr>sq_data := (sq_data demo_legacy)\<lparr>db_faults := replicate 14 False @ [True]\<rparr>\<rparr>"
  have inv: "db_inv (sq_data ?q)" using demo_legacy_ok(1) by (simp add: db_inv_def tenant_ids_def)
  have "case migrate 5 ?q of Stuck _ \<Rightarrow> True | Fin _ _ \<Rightarrow> False" by code_simp
  then obtain q' where m: "migrate 5 ?q = Stuck q'" by (cases "migrate 5 ?q") simp_all
  from migrate_loses_nothing [OF inv, of 5] m show ?thesis by simp
qed
theorem legacy_keys_adopted_witness:
  "\<exists>q' t. migrate 5 demo_legacy = Fin (Inr ()) q' \<and>
     fst (LookupTenantByKey 6 ''0123456789abcdef0123456789abcdef'' (sq_data q')) = Inr (Some t) \<and> Name t = tr_name demo_tenant"
proof -
  let ?r = "demo_tenant\<lparr>tr_api_key := ''0123456789abcdef0123456789abcdef''\<rparr>"
  have r: "?r \<in> set (t_tenants (sq_data demo_legacy))" "tr_active ?r = 1" "length (tr_api_key ?r) = 32"
    by (simp_all add: demo_legacy_def demo_tenant_def)
  have x: "isHex ''0123456789abcdef0123456789abcdef''" by code_simp
  from legacy_keys_adopted [OF demo_legacy_ok, of 5 6] obtain q' where "migrate 5 demo_legacy = Fin (Inr ()) q'"
    "fst (LookupTenantByKey 6 (tr_api_key ?r) (sq_data q')) = Inr (Some (tenant_of_row (?r\<lparr>tr_api_key := ''''\<rparr>) ''''))"
    using r x by auto
  then show ?thesis by (auto simp: tenant_of_row_def)
qed

text \<open>
  The probes for the old tables report an error as ``no such table''. One failed probe makes the startup
  take the old database for a new one: it records both versions, leaves the plaintext keys where they
  are, and no later start adopts them.
\<close>

lemma failed_probe_skips_adoption:
  assumes inv: "db_inv (sq_data q)" and legacy: "applied_versions q = []" and probe: "db_faults (sq_data q) = [False, False, True]"
  shows "\<exists>q'. migrate now q = Fin (Inr ()) q' \<and> t_tenants (sq_data q') = t_tenants (sq_data q) \<and>
    t_api_keys (sq_data q') = t_api_keys (sq_data q) \<and> migrate now' q' = Fin (Inr ()) q'"
proof -
  let ?d = "(sq_data q)\<lparr>db_faults := []\<rparr>"
  let ?q1 = "q\<lparr>sq_versions := Some [], sq_data := (sq_data q)\<lparr>db_faults := [False, True]\<rparr>\<rparr>"
  let ?q3 = "q\<lparr>sq_versions := Some [], sq_data := ?d\<rparr>"
  have c: "db_exec create_versions q = (Inr (), ?q1)"
    using legacy probe by (auto simp: db_exec_def sq_fault_def sq_pop_def next_fault_def pop_fault_def create_versions_def
        applied_versions_def split: option.splits)
  have l: "loadAppliedVersions ?q1 = (Inr [], q\<lparr>sq_versions := Some [], sq_data := (sq_data q)\<lparr>db_faults := [True]\<rparr>\<rparr>)"
    by (simp add: loadAppliedVersions_def db_read_def sq_fault_def sq_pop_def next_fault_def pop_fault_def applied_versions_def)
  have i: "is_legacy [] (q\<lparr>sq_versions := Some [], sq_data := (sq_data q)\<lparr>db_faults := [True]\<rparr>\<rparr>) = (False, ?q3)"
    by (simp add: is_legacy_def tableExists_def db_read_def sq_fault_def sq_pop_def next_fault_def pop_fault_def)
  have h: "healthy (sq_data ?q3)" by (simp add: healthy_def)
  have "distinct (map ak_key_hash (t_api_keys (sq_data ?q3)))" using inv by (simp add: db_inv_def keys_ok_def)
  then obtain q4 where q4: "run_script Init ?q3 = Some q4" by simp
  note d4 = script_data [OF q4]
  have rec: "recordVersion v x = (Inr (), x\<lparr>sq_versions := Some (applied_versions x @ [v])\<rparr>)"
    if "healthy (sq_data x)" "v \<notin> set (applied_versions x)" for v x
    using that by (simp add: recordVersion_def exec_healthy)
  let ?q5 = "q4\<lparr>sq_versions := Some [1]\<rparr>"
  let ?q6 = "?q5\<lparr>sq_indexes := add_missing (sq_indexes ?q5) [''idx_usage_counters_hour'']\<rparr>"
  have h4: "healthy (sq_data q4)" "healthy (sq_data ?q5)" "healthy (sq_data ?q6)" using d4 h by simp_all
  have m1: "applyMigration \<lparr>mg_version = 1, mg_sql = Init\<rparr> ?q3 = (Inr (), q4)" by (rule apply_healthy [OF h]) (simp only: migration.simps q4)
  have m2: "applyMigration \<lparr>mg_version = 2, mg_sql = Retention_Index\<rparr> ?q5 = (Inr (), ?q6)" by (rule apply_healthy [OF h4(2)]) simp
  have r1: "recordVersion 1 q4 = (Inr (), ?q5)" using rec [OF h4(1), of 1] d4 by (simp add: applied_versions_def)
  have r2: "recordVersion 2 ?q6 = (Inr (), ?q6\<lparr>sq_versions := Some [1, 2]\<rparr>)" using rec [OF h4(3), of 2] by (simp add: applied_versions_def)
  let ?q7 = "?q6\<lparr>sq_versions := Some [1, 2]\<rparr>"
  have p: "apply_pending [\<lparr>mg_version = 1, mg_sql = Init\<rparr>, \<lparr>mg_version = 2, mg_sql = Retention_Index\<rparr>] ?q3 = Fin (Inr ()) ?q7"
    by (simp add: apply_pending_def loadAppliedVersions_def read_healthy [OF h] applied_versions_def m1 r1 m2 r2 [simplified])
  have "migrate now q = Fin (Inr ()) ?q7" by (simp add: migrate_def c l i embedded_migrations p)
  moreover have "healthy (sq_data ?q7)" using h4 by simp
  then have "migrate now' ?q7 = Fin (Inr ()) ?q7" by (rule migrated_stays [where vs = "[1, 2]"]) simp_all
  ultimately show ?thesis using d4 by (intro exI [of _ ?q7]) simp
qed

text \<open>A statement of the rebuild that fails blocks the startup for ever: restoring the pragma waits for the
  connection that the open transaction holds.\<close>

lemma failed_step:
  assumes "db_faults (sq_data q) = replicate n False @ [True]" "n < length fs"
    and "\<And>f q q'. f \<in> set fs \<Longrightarrow> f q = Some q' \<Longrightarrow> db_faults (sq_data q') = db_faults (sq_data q)"
  shows "\<exists>e q'. exec_steps fs q = (Inl e, q')"
  using assms
proof (induction n arbitrary: q fs)
  case 0
  then show ?case by (cases fs) (simp_all add: db_exec_def sq_fault_def next_fault_def)
next
  case (Suc n)
  then obtain f gs where fs: "fs = f # gs" by (cases fs) simp_all
  have nf: "\<not> sq_fault q" "db_faults (sq_data (sq_pop q)) = replicate n False @ [True]"
    using Suc.prems(1) by (simp_all add: sq_fault_def next_fault_def pop_fault_def)
  show ?case
  proof (cases "f (sq_pop q)")
    case (Some q1)
    have "db_faults (sq_data q1) = replicate n False @ [True]" using Suc.prems(3) [of f "sq_pop q" q1] Some fs nf(2) by simp
    then have "\<exists>e q'. exec_steps gs q1 = (Inl e, q')"
    proof (rule Suc.IH)
      show "n < length gs" using Suc.prems(2) fs by simp
      show "db_faults (sq_data b) = db_faults (sq_data a)" if "g \<in> set gs" "g a = Some b" for g a b
        by (rule Suc.prems(3) [of g]) (use that fs in simp_all)
    qed
    then show ?thesis using fs nf(1) Some by (simp add: db_exec_def)
  qed (use fs nf(1) in \<open>simp add: db_exec_def\<close>)
qed

lemma rebuild_step_faults: "f \<in> set rebuild_steps \<Longrightarrow> f q = Some q' \<Longrightarrow> db_faults (sq_data q') = db_faults (sq_data q)"
  by (auto simp: rebuild_steps_def create_rebuild_def copy_tenants_def drop_tenants_def rename_rebuild_def add_key_index_def Let_def
      split: if_splits option.splits)

lemma failed_rebuild_hangs:
  assumes "db_faults (sq_data q) = False # False # replicate n False @ [True]" and "n < length rebuild_steps"
  shows "\<exists>q'. rebuildTenants q = Stuck q' \<and> t_tenants (sq_data q') = t_tenants (sq_data q) \<and> sq_tables q' = sq_tables q"
proof -
  let ?q1 = "q\<lparr>sq_foreign_keys := False, sq_data := (sq_data q)\<lparr>db_faults := False # replicate n False @ [True]\<rparr>\<rparr>"
  have fk: "set_foreign_keys False q = (Inr (), ?q1)"
    using assms(1) by (simp add: set_foreign_keys_def db_exec_def sq_fault_def sq_pop_def next_fault_def pop_fault_def)
  have "db_faults (sq_data (sq_pop ?q1)) = replicate n False @ [True]" by (simp add: pop_fault_def)
  then have "\<exists>e q'. exec_steps rebuild_steps (sq_pop ?q1) = (Inl e, q')"
    by (rule failed_step [OF _ assms(2)]) (rule rebuild_step_faults)
  then obtain e q' where "exec_steps rebuild_steps (sq_pop ?q1) = (Inl e, q')" by blast
  then show ?thesis using fk by (simp add: rebuildTenants_def rolled_back_def sq_fault_def next_fault_def)
qed

text \<open>
  The rebuild forgets the AUTOINCREMENT mark of the old table: a tenant id above the largest one that is
  left is free again, although it was given out before.
\<close>

lemma rebuild_forgets_ids:
  assumes "healthy (sq_data q)" "db_inv (sq_data q)" "''tenants'' \<in> set (sq_tables q)" "set limit_columns \<subseteq> set (sq_limit_cols q)"
    "sq_rebuild q = None" and "max_id (t_tenants (sq_data q)) < seq_tenants (sq_data q)" "seq_tenants (sq_data q) < 2 ^ 63"
  shows "\<exists>q' id. rebuildTenants q = Fin (Inr ()) q' \<and> next_id (seq_tenants (sq_data q')) = Some id \<and> id \<le> seq_tenants (sq_data q)"
  using rebuild_healthy [OF assms(1-5)] assms(6,7) by (auto simp: next_id_def)

end
