(* ===== verification/Auth_Gateway.thy ===== *)
theory Auth_Gateway
  imports Store
begin

text \<open>
  \<open>internal/auth/gateway.go\<close>: one entry point for both kinds of credentials. The gateway satisfies
  the same contract \<open>credential_source\<close> as the two lookups behind it, so the HTTP proxy and the
  syslog listener rely on one set of laws.
\<close>

datatype CredentialType = CredTypeAPIKey | CredTypeCertFingerprint

record Credential =
  cred_Type :: CredentialType
  cred_Value :: string

definition NewAPIKeyCredential :: "string \<Rightarrow> Credential" where
  "NewAPIKeyCredential key = \<lparr>cred_Type = CredTypeAPIKey, cred_Value = key\<rparr>"

definition NewCertCredential :: "string \<Rightarrow> Credential" where
  "NewCertCredential fingerprint = \<lparr>cred_Type = CredTypeCertFingerprint, cred_Value = fingerprint\<rparr>"

definition ResolveTenant :: "time \<Rightarrow> Credential \<Rightarrow> db \<Rightarrow> tenant option result \<times> db" where
  "ResolveTenant now cred d =
     (case cred_Type cred of
        CredTypeAPIKey \<Rightarrow> LookupTenantByKey now (cred_Value cred) d
      | CredTypeCertFingerprint \<Rightarrow> LookupTenantByFingerprint (cred_Value cred) d)"

definition cred_holds :: "CredentialType \<Rightarrow> db \<Rightarrow> string \<Rightarrow> tenant_row \<Rightarrow> bool" where
  "cred_holds ty = (case ty of CredTypeAPIKey \<Rightarrow> key_holds | CredTypeCertFingerprint \<Rightarrow> fp_holds)"

lemma gateway_source: "credential_source (\<lambda>now v. ResolveTenant now \<lparr>cred_Type = ty, cred_Value = v\<rparr>) (cred_holds ty)"
proof (cases ty)
  case CredTypeAPIKey
  then have "(\<lambda>now v. ResolveTenant now \<lparr>cred_Type = ty, cred_Value = v\<rparr>) = LookupTenantByKey"
    by (simp add: fun_eq_iff ResolveTenant_def)
  then show ?thesis using api_keys.credential_source_axioms CredTypeAPIKey by (simp add: cred_holds_def)
next
  case CredTypeCertFingerprint
  then have "(\<lambda>now v. ResolveTenant now \<lparr>cred_Type = ty, cred_Value = v\<rparr>) = (\<lambda>_. LookupTenantByFingerprint)"
    by (simp add: fun_eq_iff ResolveTenant_def)
  then show ?thesis using cert_fps.credential_source_axioms CredTypeCertFingerprint by (simp add: cred_holds_def)
qed
interpretation gateway: credential_source "\<lambda>now v. ResolveTenant now \<lparr>cred_Type = ty, cred_Value = v\<rparr>" "cred_holds ty" for ty
  by (rule gateway_source)

lemma ResolveTenant_active:
  assumes "db_inv d" "ResolveTenant now cred d = (Inr (Some t), d')"
  shows "\<exists>r \<in> set (t_tenants d). tr_id r = ID t \<and> tr_name r = Name t \<and> tr_active r = 1 \<and> Active t"
  using gateway.resolve_active [OF assms(1), of now "cred_Type cred" "cred_Value cred"] assms(2) by (cases cred) simp

lemma ResolveTenant_inv: "db_inv d \<Longrightarrow> db_inv (snd (ResolveTenant now cred d))"
  using gateway.resolve_inv [of d now "cred_Type cred" "cred_Value cred"] by (cases cred) simp
end
