(* ===== verification/Rate_Limit.thy ===== *)
theory Rate_Limit
  imports Store
begin

text \<open>
  \<open>internal/ratelimit\<close>: requests per second and burst bytes by token buckets, and a daily byte quota
  with a 60 second cache in front of the store. The token bucket itself is
  \<open>golang.org/x/time/rate\<close>, which is not part of the program: it is the parameter \<open>ops\<close>, a record of
  its constructor and of \<open>AllowN\<close>, and what a theorem needs of it is a named hypothesis.
\<close>

section \<open>State\<close>

record 'l rate_ops =
  rl_NewLimiter :: "int \<Rightarrow> int64 \<Rightarrow> 'l"              \<comment> \<open>events per second, burst\<close>
  rl_AllowN :: "time \<Rightarrow> int64 \<Rightarrow> 'l \<Rightarrow> bool \<times> 'l"

record Decision =
  Allowed :: bool
  Reason :: string

record 'l tenantBucket =
  tb_rpsLimiter :: 'l
  tb_burstLimiter :: 'l
  tb_lastAccess :: time

record quotaEntry =
  qe_used :: int64
  qe_expiresAt :: time

record 'l limiter =
  lm_buckets :: "int64 \<rightharpoonup> 'l tenantBucket"
  lm_quotaCache :: "int64 \<rightharpoonup> quotaEntry"
  lm_quotaFailures :: int64

definition NewLimiter :: "'l limiter" where
  "NewLimiter = \<lparr>lm_buckets = Map.empty, lm_quotaCache = Map.empty, lm_quotaFailures = 0\<rparr>"

definition QuotaFailures :: "'l limiter \<Rightarrow> int64" where
  "QuotaFailures l = lm_quotaFailures l"

definition allow :: Decision where
  "allow = \<lparr>Allowed = True, Reason = ''''\<rparr>"

definition deny :: "string \<Rightarrow> Decision" where
  "deny reason = \<lparr>Allowed = False, Reason = reason\<rparr>"

section \<open>Buckets\<close>

definition positive :: "int64 option \<Rightarrow> bool" where
  "positive x \<longleftrightarrow> (case x of None \<Rightarrow> False | Some v \<Rightarrow> v > 0)"

text \<open>The bucket of a tenant is made from the limits of the first check and is then reused.\<close>

definition getOrCreateBucket :: "'l rate_ops \<Rightarrow> time \<Rightarrow> tenant \<Rightarrow> 'l limiter \<Rightarrow> 'l tenantBucket \<times> 'l limiter" where
  "getOrCreateBucket ops now t l =
     (case lm_buckets l (ID t) of
        Some b \<Rightarrow> (b, l)
      | None \<Rightarrow>
          (let rpsRate = (if positive (RateLimitRPS t) then the (RateLimitRPS t) else 100);
               rpsBurst = (if positive (RateLimitRPS t) then the (RateLimitRPS t) else 200);
               byteRate = (if positive (BurstBytes t) then the (BurstBytes t) else 10000000);
               byteBurst = (if positive (BurstBytes t) then the (BurstBytes t) else 10000000);
               b = \<lparr>tb_rpsLimiter = rl_NewLimiter ops rpsRate rpsBurst,
                    tb_burstLimiter = rl_NewLimiter ops byteRate byteBurst, tb_lastAccess = now\<rparr>
           in (b, l\<lparr>lm_buckets := (lm_buckets l)(ID t \<mapsto> b)\<rparr>)))"

definition evictBuckets :: "time \<Rightarrow> 'l limiter \<Rightarrow> 'l limiter" where
  "evictBuckets now l =
     l\<lparr>lm_buckets := (\<lambda>i. case lm_buckets l i of None \<Rightarrow> None
        | Some b \<Rightarrow> if tb_lastAccess b < now - hour then None else Some b)\<rparr>"

section \<open>Daily usage\<close>

text \<open>A cache miss: ask the store; an error is counted and treated as no usage.\<close>

definition fetch_usage :: "time \<Rightarrow> int64 \<Rightarrow> 'l limiter \<Rightarrow> db \<Rightarrow> int64 \<times> 'l limiter \<times> db" where
  "fetch_usage now tenantID l d =
     (case GetDailyByteUsage now tenantID d of
        (Inl _, d1) \<Rightarrow> (0, l\<lparr>lm_quotaFailures := wrap64 (lm_quotaFailures l + 1)\<rparr>, d1)
      | (Inr used, d1) \<Rightarrow>
          (used, l\<lparr>lm_quotaCache := (lm_quotaCache l)(tenantID \<mapsto> \<lparr>qe_used = used, qe_expiresAt = now + 60 * second\<rparr>)\<rparr>, d1))"

definition getDailyUsage :: "time \<Rightarrow> int64 \<Rightarrow> 'l limiter \<Rightarrow> db \<Rightarrow> int64 \<times> 'l limiter \<times> db" where
  "getDailyUsage now tenantID l d =
     (case lm_quotaCache l tenantID of
        Some entry \<Rightarrow> if now < qe_expiresAt entry then (qe_used entry, l, d) else fetch_usage now tenantID l d
      | None \<Rightarrow> fetch_usage now tenantID l d)"

definition refreshQuotaCache :: "'l limiter \<Rightarrow> 'l limiter" where
  "refreshQuotaCache l = l\<lparr>lm_quotaCache := Map.empty\<rparr>"

text \<open>One turn of the background loop (\<open>Start\<close>): evict idle buckets, drop the cache.\<close>

definition background_tick :: "time \<Rightarrow> 'l limiter \<Rightarrow> 'l limiter" where
  "background_tick now l = refreshQuotaCache (evictBuckets now l)"

section \<open>The two checks\<close>

definition put_bucket :: "int64 \<Rightarrow> 'l tenantBucket \<Rightarrow> 'l limiter \<Rightarrow> 'l limiter" where
  "put_bucket i b l = l\<lparr>lm_buckets := (lm_buckets l)(i \<mapsto> b)\<rparr>"

definition AllowRPS :: "'l rate_ops \<Rightarrow> time \<Rightarrow> int64 \<Rightarrow> 'l limiter \<Rightarrow> db \<Rightarrow> Decision \<times> 'l limiter \<times> db" where
  "AllowRPS ops now tenantID l d =
     (case LookupTenantByID tenantID d of
        (Inl _, d1) \<Rightarrow> (deny ''lookup_failed'', l, d1)
      | (Inr None, d1) \<Rightarrow> (deny ''lookup_failed'', l, d1)
      | (Inr (Some t), d1) \<Rightarrow>
          if \<not> positive (RateLimitRPS t) then (allow, l, d1)
          else (let (b, l1) = getOrCreateBucket ops now t l;
                    (ok, rps) = rl_AllowN ops now 1 (tb_rpsLimiter b);
                    l2 = put_bucket (ID t) (b\<lparr>tb_lastAccess := now, tb_rpsLimiter := rps\<rparr>) l1
                in if ok then (allow, l2, d1) else (deny ''rps'', l2, d1)))"

text \<open>The quota part of \<open>AllowBytes\<close>; the sum of Go's \<open>int64\<close>s wraps.\<close>

definition check_quota :: "time \<Rightarrow> tenant \<Rightarrow> int64 \<Rightarrow> int64 \<Rightarrow> 'l limiter \<Rightarrow> db \<Rightarrow> Decision \<times> 'l limiter \<times> db" where
  "check_quota now t tenantID byteCount l d =
     (if positive (DailyByteQuota t)
      then case getDailyUsage now tenantID l d of
        (used, l', d') \<Rightarrow>
          if wrap64 (used + byteCount) > the (DailyByteQuota t) then (deny ''daily_quota'', l', d') else (allow, l', d')
      else (allow, l, d))"

definition AllowBytes ::
  "'l rate_ops \<Rightarrow> time \<Rightarrow> int64 \<Rightarrow> int64 \<Rightarrow> 'l limiter \<Rightarrow> db \<Rightarrow> Decision \<times> 'l limiter \<times> db" where
  "AllowBytes ops now tenantID byteCount l d =
     (case LookupTenantByID tenantID d of
        (Inl _, d1) \<Rightarrow> (deny ''lookup_failed'', l, d1)
      | (Inr None, d1) \<Rightarrow> (deny ''lookup_failed'', l, d1)
      | (Inr (Some t), d1) \<Rightarrow>
          if BurstBytes t = None \<and> DailyByteQuota t = None then (allow, l, d1)
          else (let (b, l1) = getOrCreateBucket ops now t l;
                    b1 = b\<lparr>tb_lastAccess := now\<rparr>
                in if positive (BurstBytes t)
                   then (let (ok, bl) = rl_AllowN ops now byteCount (tb_burstLimiter b1);
                             l2 = put_bucket (ID t) (b1\<lparr>tb_burstLimiter := bl\<rparr>) l1
                         in if ok then check_quota now t tenantID byteCount l2 d1 else (deny ''burst_bytes'', l2, d1))
                   else check_quota now t tenantID byteCount (put_bucket (ID t) b1 l1) d1))"

section \<open>Laws\<close>

lemma getOrCreateBucket_cache [simp]: "lm_quotaCache (snd (getOrCreateBucket ops now t l)) = lm_quotaCache l"
  "lm_quotaFailures (snd (getOrCreateBucket ops now t l)) = lm_quotaFailures l"
  by (simp_all add: getOrCreateBucket_def Let_def split: option.splits)

lemma LookupTenantByID_cases:
  obtains (fault) "LookupTenantByID tid d = (Inl DBError, pop_fault d)"
  | (absent) "LookupTenantByID tid d = (Inr None, pop_fault d)" "tid \<notin> tenant_ids d"
  | (found) r where "LookupTenantByID tid d = (Inr (Some (scanTenant (pop_fault d) r)), pop_fault d)"
      "r \<in> set (t_tenants d)" "tr_id r = tid"
proof (cases "next_fault d")
  case True
  then show ?thesis using fault by (simp add: LookupTenantByID_def sql_query_def)
next
  case False
  then show ?thesis
  proof (cases "find (\<lambda>r. tr_id r = tid) (t_tenants d)")
    case None
    then have "tid \<notin> tenant_ids d" by (auto simp: find_None_iff tenant_ids_def)
    then show ?thesis using absent None False by (simp add: LookupTenantByID_def sql_query_def)
  next
    case (Some r)
    then show ?thesis using found [of r] find_Some_mem [OF Some] False by (simp add: LookupTenantByID_def sql_query_def)
  qed
qed

lemma tables_flat: "flat (sql_query f d) = (r, d') \<Longrightarrow> d' = pop_fault d"
  by (auto simp: flat_def sql_query_def split: if_splits prod.splits sum.splits)

text \<open>Rate limiting reads the store and changes no table.\<close>

lemma fetch_usage_db: "snd (snd (fetch_usage now tid l d)) = pop_fault d"
  by (auto simp: fetch_usage_def GetDailyByteUsage_def split: prod.splits sum.splits dest: tables_flat)

definition same_tables :: "db \<Rightarrow> db \<Rightarrow> bool" where
  "same_tables d d' \<longleftrightarrow> (\<exists>fs. d' = d\<lparr>db_faults := fs\<rparr>)"

lemma same_tables_refl [simp]: "same_tables d d" "same_tables d (pop_fault d)"
proof -
  have "d = d\<lparr>db_faults := db_faults d\<rparr>" by simp
  then show "same_tables d d" unfolding same_tables_def ..
  show "same_tables d (pop_fault d)" by (auto simp: same_tables_def pop_fault_def)
qed

lemma same_tables_trans: "same_tables d d' \<Longrightarrow> same_tables d' d'' \<Longrightarrow> same_tables d d''"
  by (auto simp: same_tables_def)

lemma same_tables_inv: "same_tables d d' \<Longrightarrow> db_inv d' = db_inv d"
  by (auto simp: same_tables_def)

lemma check_quota_tables: "same_tables d (snd (snd (check_quota now t tid n l d)))"
  using fetch_usage_db [of now tid l d] by (auto simp: check_quota_def getDailyUsage_def split: option.splits prod.splits)

lemma limiter_tables:
  "same_tables d (snd (snd (AllowRPS ops now tid l d)))"
  "same_tables d (snd (snd (AllowBytes ops now tid n l d)))"
proof -
  show "same_tables d (snd (snd (AllowRPS ops now tid l d)))"
    by (rule LookupTenantByID_cases [of tid d]) (auto simp: AllowRPS_def Let_def split: prod.splits)
  have c: "same_tables d (snd (snd (check_quota now t tid n l (pop_fault d))))" for t l
    by (rule same_tables_trans [OF same_tables_refl(2) check_quota_tables])
  show "same_tables d (snd (snd (AllowBytes ops now tid n l d)))"
    by (rule LookupTenantByID_cases [of tid d]) (simp_all add: AllowBytes_def Let_def case_prod_unfold c)
qed

section \<open>Properties\<close>

text \<open>A tenant that cannot be looked up (deleted, or the store fails) is never let through by
  either check.\<close>

lemma lookup_failure_denies:
  assumes "next_fault d \<or> tid \<notin> tenant_ids d"
  shows "fst (AllowRPS ops now tid l d) = deny ''lookup_failed'' \<and> fst (AllowBytes ops now tid n l d) = deny ''lookup_failed''"
proof (cases rule: LookupTenantByID_cases [of tid d])
  case (found r)
  then have "\<not> next_fault d" by (auto simp: LookupTenantByID_def sql_query_def split: if_splits)
  moreover have "tid \<in> tenant_ids d" using found by (auto simp: tenant_ids_def)
  ultimately show ?thesis using assms by simp
qed (simp_all add: AllowRPS_def AllowBytes_def)

text \<open>An integer token bucket in the style of \<open>x/time/rate\<close> (tokens in billionths), for the witnesses.\<close>

definition int_bucket :: "(int \<times> int \<times> int \<times> int) rate_ops" where
  "int_bucket = \<lparr>rl_NewLimiter = (\<lambda>r b. (r, b, b * second, 0)),
     rl_AllowN = (\<lambda>now n (r, b, tok, last).
        let tok' = min (b * second) (tok + max 0 (now - last) * r) in
        if n * second \<le> tok' then (True, (r, b, tok' - n * second, now)) else (False, (r, b, tok', now)))\<rparr>"

text \<open>The daily quota: without a fresh cache entry, a request of \<open>n\<close> bytes is refused exactly when
  today's recorded bytes plus \<open>n\<close> exceed the quota; when the store cannot answer, usage counts as
  zero (the check fails open) and the failure counter moves.\<close>

lemma quota_enforced:
  assumes "\<not> next_fault d" and "find (\<lambda>r. tr_id r = tid) (t_tenants d) = Some r"
    and "tr_daily_byte_quota r = Some q" and "q > 0" and "tr_burst_bytes r = None"
    and "\<forall>e. lm_quotaCache l tid = Some e \<longrightarrow> qe_expiresAt e \<le> now"
    and "used = (case fst (GetDailyByteUsage now tid (pop_fault d)) of Inl _ \<Rightarrow> 0 | Inr u \<Rightarrow> u)" and "in_int64 (used + n)"
  shows "fst (AllowBytes ops now tid n l d) = (if used + n > q then deny ''daily_quota'' else allow) \<and>
    lm_quotaFailures (fst (snd (AllowBytes ops now tid n l d))) =
      (case fst (GetDailyByteUsage now tid (pop_fault d)) of Inl _ \<Rightarrow> wrap64 (lm_quotaFailures l + 1) | Inr _ \<Rightarrow> lm_quotaFailures l)"
proof -
  let ?t = "scanTenant (pop_fault d) r"
  have t: "LookupTenantByID tid d = (Inr (Some ?t), pop_fault d)"
    using assms(1,2) by (simp add: LookupTenantByID_def sql_query_def)
  have f: "DailyByteQuota ?t = Some q" "BurstBytes ?t = None"
    using assms by (simp_all add: scanTenant_def tenant_of_row_def)
  define l1 where "l1 = put_bucket (ID ?t) ((fst (getOrCreateBucket ops now ?t l))\<lparr>tb_lastAccess := now\<rparr>) (snd (getOrCreateBucket ops now ?t l))"
  have l1: "lm_quotaCache l1 = lm_quotaCache l" "lm_quotaFailures l1 = lm_quotaFailures l"
    by (simp_all add: l1_def put_bucket_def)
  have a: "AllowBytes ops now tid n l d = check_quota now ?t tid n l1 (pop_fault d)"
    using t f by (simp add: AllowBytes_def Let_def case_prod_unfold positive_def l1_def)
  have g: "getDailyUsage now tid l1 (pop_fault d) = fetch_usage now tid l1 (pop_fault d)"
    using assms(6) by (auto simp: getDailyUsage_def l1 split: option.splits)
  show ?thesis
    using assms(4,7,8) f
    by (cases "GetDailyByteUsage now tid (pop_fault d)")
       (auto simp: a check_quota_def g fetch_usage_def positive_def l1 split: sum.splits)
qed

definition quota_db :: db where
  "quota_db = empty_db\<lparr>t_tenants := [demo_tenant\<lparr>tr_daily_byte_quota := Some 1000\<rparr>],
     t_usage_counters := [row_of (1, ''logs'', ''1970-01-01T00'') (sample_accum (usage_sample 0 1 ''logs'' 200 900))]\<rparr>"

text \<open>Changing a tenant's limits does not reach a bucket that already exists: as long as the
  tenant stays active the old rates keep applying, although the limits are looked up on every check.\<close>

lemma existing_bucket_keeps_old_limits:
  assumes "lm_buckets l (ID t) = Some b" and "ID t' = ID t"
  shows "getOrCreateBucket ops now t' l = (b, l)"
  using assms by (simp add: getOrCreateBucket_def)

end
