(* ===== verification/Otlp_Stamp.thy ===== *)
theory Otlp_Stamp
  imports Go_Crypto
begin

text \<open>
  \<open>internal/ingest/stamp.go\<close>: writing the server's tenant identity into an OTLP payload. The message
  types are generated from the OpenTelemetry protocol; the model has the fields that the stamping
  reads or writes and keeps everything else as an opaque value of type \<open>'x\<close>. The codecs
  (\<open>proto\<close>, \<open>protojson\<close>) and the gzip format are parameters: the records \<open>otlp_codec\<close> and \<open>gzip_ops\<close>.
\<close>

section \<open>Messages\<close>

datatype 'x any_value = StringValue string | OtherValue 'x

record 'x key_value =
  kv_Key :: string
  kv_Value :: "'x any_value option"

record 'x otlp_resource =
  res_Attributes :: "'x key_value list"
  res_rest :: 'x

text \<open>\<open>ResourceSpans\<close> and \<open>ResourceMetrics\<close>: the stamping sees only the resource pointer.\<close>

record 'x resource_item =
  ri_Resource :: "'x otlp_resource option"
  ri_rest :: 'x

record 'x log_record =
  lr_Body :: "'x any_value option"
  lr_rest :: 'x

record 'x scope_logs =
  sl_LogRecords :: "'x log_record list"
  sl_rest :: 'x

record 'x resource_logs =
  rl_Resource :: "'x otlp_resource option"
  rl_ScopeLogs :: "'x scope_logs list"
  rl_rest :: 'x

datatype 'x otlp_msg =
    ExportTraceServiceRequest "'x resource_item list" 'x
  | ExportMetricsServiceRequest "'x resource_item list" 'x
  | ExportLogsServiceRequest "'x resource_logs list" 'x

section \<open>Errors and codecs\<close>

datatype codec_error = ErrUnexpectedEOF | ErrEOF | ErrText string

fun codec_text :: "codec_error \<Rightarrow> string" where
  "codec_text ErrUnexpectedEOF = ''unexpected EOF''"
| "codec_text ErrEOF = ''EOF''"
| "codec_text (ErrText s) = s"

text \<open>An error made by \<open>fmt.Errorf ("<context>: %w", err)\<close>.\<close>

record stamp_error =
  se_context :: string
  se_err :: codec_error

definition stamp_error_text :: "stamp_error \<Rightarrow> string" where
  "stamp_error_text e = se_context e @ '': '' @ codec_text (se_err e)"

definition errorf :: "string \<Rightarrow> codec_error + 'a \<Rightarrow> stamp_error + 'a" where
  "errorf ctx r = map_sum (\<lambda>e. \<lparr>se_context = ctx, se_err = e\<rparr>) id r"

text \<open>\<open>oc_rest\<close> is the contents of a freshly allocated \<open>Resource\<close> besides its attributes.\<close>

record 'x otlp_codec =
  oc_Unmarshal :: "bool \<Rightarrow> string \<Rightarrow> u8 list \<Rightarrow> codec_error + 'x otlp_msg"   \<comment> \<open>JSON?, signal type\<close>
  oc_Marshal :: "bool \<Rightarrow> 'x otlp_msg \<Rightarrow> codec_error + u8 list"
  oc_rest :: 'x

record gzip_ops =
  gz_decompress :: "u8 list \<Rightarrow> codec_error + u8 list"
  gz_compress :: "u8 list \<Rightarrow> codec_error + u8 list"

section \<open>Stamping\<close>

definition string_attr :: "string \<Rightarrow> string \<Rightarrow> 'x key_value" where
  "string_attr k v = \<lparr>kv_Key = k, kv_Value = Some (StringValue v)\<rparr>"

definition reserved_key :: "string \<Rightarrow> bool" where
  "reserved_key k \<longleftrightarrow> k = ''tenant.id'' \<or> k = ''tenant.name'' \<or> k = ''service.namespace''"

definition stampSingleResource :: "'x \<Rightarrow> string \<Rightarrow> string \<Rightarrow> 'x otlp_resource option \<Rightarrow> 'x otlp_resource option" where
  "stampSingleResource rest tenantID tenantName res =
     (let r = (case res of None \<Rightarrow> \<lparr>res_Attributes = [], res_rest = rest\<rparr> | Some r \<Rightarrow> r);
          filtered = filter (\<lambda>kv. \<not> reserved_key (kv_Key kv)) (res_Attributes r)
      in Some (r\<lparr>res_Attributes := filtered @ [string_attr ''tenant.id'' tenantID, string_attr ''tenant.name'' tenantName]\<rparr>))"

definition stampLogBody :: "string \<Rightarrow> 'x log_record \<Rightarrow> 'x log_record" where
  "stampLogBody prefix lr =
     (case lr_Body lr of
        None \<Rightarrow> lr
      | Some (StringValue s) \<Rightarrow> lr\<lparr>lr_Body := Some (StringValue (prefix @ s))\<rparr>
      | Some (OtherValue _) \<Rightarrow> lr)"

definition log_prefix :: "string \<Rightarrow> string \<Rightarrow> string" where
  "log_prefix tenantID tenantName = ''['' @ tenantID @ '']['' @ tenantName @ ''] ''"

definition stamp_item :: "'x \<Rightarrow> string \<Rightarrow> string \<Rightarrow> 'x resource_item \<Rightarrow> 'x resource_item" where
  "stamp_item rest tid name ri = ri\<lparr>ri_Resource := stampSingleResource rest tid name (ri_Resource ri)\<rparr>"

definition stamp_resource_logs :: "'x \<Rightarrow> string \<Rightarrow> string \<Rightarrow> 'x resource_logs \<Rightarrow> 'x resource_logs" where
  "stamp_resource_logs rest tid name rl =
     rl\<lparr>rl_Resource := stampSingleResource rest tid name (rl_Resource rl),
        rl_ScopeLogs := map (\<lambda>sl. sl\<lparr>sl_LogRecords := map (stampLogBody (log_prefix tid name)) (sl_LogRecords sl)\<rparr>) (rl_ScopeLogs rl)\<rparr>"

fun stampResources :: "'x \<Rightarrow> string \<Rightarrow> string \<Rightarrow> 'x otlp_msg \<Rightarrow> 'x otlp_msg" where
  "stampResources rest tid name (ExportTraceServiceRequest rs u) = ExportTraceServiceRequest (map (stamp_item rest tid name) rs) u"
| "stampResources rest tid name (ExportMetricsServiceRequest rs u) = ExportMetricsServiceRequest (map (stamp_item rest tid name) rs) u"
| "stampResources rest tid name (ExportLogsServiceRequest rs u) = ExportLogsServiceRequest (map (stamp_resource_logs rest tid name) rs) u"

definition isJSONContentType :: "string \<Rightarrow> bool" where
  "isJSONContentType ct = equal_fold (trim_space (cut_before ct CHR '';'')) ''application/json''"

definition unmarshalOTLP :: "'x otlp_codec \<Rightarrow> u8 list \<Rightarrow> bool \<Rightarrow> string \<Rightarrow> codec_error + 'x otlp_msg" where
  "unmarshalOTLP codec payload isJSON signalType =
     (if signalType = ''traces'' \<or> signalType = ''metrics'' \<or> signalType = ''logs''
      then oc_Unmarshal codec isJSON signalType payload
      else Inl (ErrText (''unknown signal type: '' @ signalType)))"

definition stampTenantIdentity ::
  "'x otlp_codec \<Rightarrow> gzip_ops \<Rightarrow> u8 list \<Rightarrow> string \<Rightarrow> string \<Rightarrow> string \<Rightarrow> string \<Rightarrow> string \<Rightarrow> stamp_error + u8 list" where
  "stampTenantIdentity codec gz rawBody contentType contentEncoding signalType tenantID tenantName =
     (let wasGzip = equal_fold contentEncoding ''gzip'';
          isJSON = isJSONContentType contentType
      in case (if wasGzip then errorf ''gzip decompress'' (gz_decompress gz rawBody) else Inr rawBody) of
           Inl e \<Rightarrow> Inl e
         | Inr payload \<Rightarrow>
             (case errorf ''otlp unmarshal'' (unmarshalOTLP codec payload isJSON signalType) of
                Inl e \<Rightarrow> Inl e
              | Inr msg \<Rightarrow>
                  (case errorf ''otlp marshal'' (oc_Marshal codec isJSON (stampResources (oc_rest codec) tenantID tenantName msg)) of
                     Inl e \<Rightarrow> Inl e
                   | Inr encoded \<Rightarrow>
                       if wasGzip then errorf ''gzip compress'' (gz_compress gz encoded) else Inr encoded)))"

definition isMalformedBody :: "stamp_error option \<Rightarrow> bool" where
  "isMalformedBody err =
     (case err of None \<Rightarrow> False
      | Some e \<Rightarrow>
          (let msg = stamp_error_text e in
           se_err e = ErrUnexpectedEOF \<or> contains msg ''cannot parse'' \<or> contains msg ''syntax error'' \<or>
           contains msg ''unknown field'' \<or> contains msg ''invalid header'' \<or> contains msg ''unexpected EOF''))"

section \<open>What a stamped message looks like\<close>

definition attrs_of :: "'x otlp_resource option \<Rightarrow> 'x key_value list" where
  "attrs_of r = (case r of None \<Rightarrow> [] | Some r \<Rightarrow> res_Attributes r)"

text \<open>The identity on a resource is the server's: each key exactly once, with the server's value.\<close>

definition identity_ok :: "string \<Rightarrow> string \<Rightarrow> 'x otlp_resource option \<Rightarrow> bool" where
  "identity_ok tid name r \<longleftrightarrow>
     filter (\<lambda>kv. reserved_key (kv_Key kv)) (attrs_of r) = [string_attr ''tenant.id'' tid, string_attr ''tenant.name'' name]"

fun msg_resources :: "'x otlp_msg \<Rightarrow> 'x otlp_resource option list" where
  "msg_resources (ExportTraceServiceRequest rs u) = map ri_Resource rs"
| "msg_resources (ExportMetricsServiceRequest rs u) = map ri_Resource rs"
| "msg_resources (ExportLogsServiceRequest rs u) = map rl_Resource rs"

definition msg_stamped :: "string \<Rightarrow> string \<Rightarrow> 'x otlp_msg \<Rightarrow> bool" where
  "msg_stamped tid name m \<longleftrightarrow> list_all (identity_ok tid name) (msg_resources m)"

lemma reserved_simps [simp]: "reserved_key ''tenant.id''" "reserved_key ''tenant.name''" "reserved_key ''service.namespace''"
  by (simp_all add: reserved_key_def)

lemma string_attr_key [simp]: "kv_Key (string_attr k v) = k"
  by (simp add: string_attr_def)

lemma stampSingleResource_eq:
  "stampSingleResource rest tid name r =
     Some \<lparr>res_Attributes = filter (\<lambda>kv. \<not> reserved_key (kv_Key kv)) (attrs_of r) @
             [string_attr ''tenant.id'' tid, string_attr ''tenant.name'' name],
           res_rest = (case r of None \<Rightarrow> rest | Some r \<Rightarrow> res_rest r)\<rparr>"
  by (cases r) (auto simp: stampSingleResource_def attrs_of_def Let_def)

lemma stamp_identity: "identity_ok tid name (stampSingleResource rest tid name r)"
  by (simp add: identity_ok_def stampSingleResource_eq attrs_of_def)

lemma stamp_keeps_others:
  "filter (\<lambda>kv. \<not> reserved_key (kv_Key kv)) (attrs_of (stampSingleResource rest tid name r))
     = filter (\<lambda>kv. \<not> reserved_key (kv_Key kv)) (attrs_of r)"
  by (simp add: stampSingleResource_eq attrs_of_def)

lemma stamp_stamp: "stampSingleResource rest t2 n2 (stampSingleResource rest' t1 n1 r)
    = stampSingleResource (case r of None \<Rightarrow> rest' | Some _ \<Rightarrow> rest) t2 n2 r"
  by (cases r) (simp_all add: stampSingleResource_eq attrs_of_def)

lemma stampResources_stamped: "msg_stamped tid name (stampResources rest tid name m)"
  by (cases m) (auto simp: msg_stamped_def list_all_iff stamp_item_def stamp_resource_logs_def stamp_identity)

lemma msg_resources_stamp: "msg_resources (stampResources rest tid name m) = map (stampSingleResource rest tid name) (msg_resources m)"
  by (cases m) (simp_all add: stamp_item_def stamp_resource_logs_def)

text \<open>The log bodies of a message, and that stamping prefixes exactly the string bodies.\<close>

fun msg_bodies :: "'x otlp_msg \<Rightarrow> 'x any_value option list" where
  "msg_bodies (ExportLogsServiceRequest rs u) = concat (map (\<lambda>rl. concat (map (\<lambda>sl. map lr_Body (sl_LogRecords sl)) (rl_ScopeLogs rl))) rs)"
| "msg_bodies _ = []"

definition prefix_body :: "string \<Rightarrow> 'x any_value option \<Rightarrow> 'x any_value option" where
  "prefix_body p b = (case b of Some (StringValue s) \<Rightarrow> Some (StringValue (p @ s)) | _ \<Rightarrow> b)"

lemma stampLogBody_body: "lr_Body (stampLogBody p lr) = prefix_body p (lr_Body lr)"
  by (simp add: stampLogBody_def prefix_body_def split: option.splits any_value.splits)

lemma msg_bodies_stamp: "msg_bodies (stampResources rest tid name m) = map (prefix_body (log_prefix tid name)) (msg_bodies m)"
  by (cases m) (simp_all add: stamp_resource_logs_def map_concat comp_def stampLogBody_body)

section \<open>Properties\<close>

text \<open>C1. Tenant identity cannot be forged: after stamping, every resource of the message carries the
  server's \<open>tenant.id\<close> and \<open>tenant.name\<close> exactly once and no \<open>service.namespace\<close>, every other
  attribute is kept in its order, string log bodies get the tenant prefix, and whatever identity an
  earlier sender stamped has no influence.\<close>

theorem stamping_overrides_identity:
  "msg_stamped tid name (stampResources rest tid name m) \<and>
   map (\<lambda>r. filter (\<lambda>kv. \<not> reserved_key (kv_Key kv)) (attrs_of r)) (msg_resources (stampResources rest tid name m))
     = map (\<lambda>r. filter (\<lambda>kv. \<not> reserved_key (kv_Key kv)) (attrs_of r)) (msg_resources m) \<and>
   msg_bodies (stampResources rest tid name m) = map (prefix_body (log_prefix tid name)) (msg_bodies m) \<and>
   msg_resources (stampResources rest tid name (stampResources rest tid' name' m)) = msg_resources (stampResources rest tid name m)"
  by (simp add: stampResources_stamped msg_resources_stamp stamp_keeps_others msg_bodies_stamp stamp_stamp
      split: option.splits)

fun msg_signal :: "'x otlp_msg \<Rightarrow> string" where
  "msg_signal (ExportTraceServiceRequest _ _) = ''traces''"
| "msg_signal (ExportMetricsServiceRequest _ _) = ''metrics''"
| "msg_signal (ExportLogsServiceRequest _ _) = ''logs''"

lemma msg_signal_stamp [simp]: "msg_signal (stampResources rest tid name m) = msg_signal m"
  by (cases m) simp_all

lemma errorf_simps [simp]:
  "errorf c r = Inr x \<longleftrightarrow> r = Inr x" "errorf c (Inr x) = Inr x" "errorf c (Inl e) = Inl \<lparr>se_context = c, se_err = e\<rparr>"
  by (cases r; simp add: errorf_def)+

text \<open>The steps of a successful stamping.\<close>

lemma stampTenantIdentity_Inr:
  assumes "stampTenantIdentity codec gz raw ct ce sig tid name = Inr body"
  obtains p m enc where "(if equal_fold ce ''gzip'' then gz_decompress gz raw else Inr raw) = Inr p"
    "oc_Unmarshal codec (isJSONContentType ct) sig p = Inr m"
    "oc_Marshal codec (isJSONContentType ct) (stampResources (oc_rest codec) tid name m) = Inr enc"
    "(if equal_fold ce ''gzip'' then gz_compress gz enc else Inr enc) = Inr body"
  using assms unfolding stampTenantIdentity_def Let_def unmarshalOTLP_def
  by (cases "equal_fold ce ''gzip''") (auto split: if_splits sum.splits)

text \<open>C2. The stamped body decodes, in the same format, to the stamped message: with codecs that
  decode what they encode and a gzip pair that inverts, what the upstream reads is what the client
  sent with the server's identity on every resource.\<close>

theorem stamped_body_decodes:
  assumes kind: "\<And>j bs m. oc_Unmarshal codec j sig bs = Inr m \<Longrightarrow> msg_signal m = sig"
    and codec: "\<And>j m bs. msg_signal m = sig \<Longrightarrow> oc_Marshal codec j m = Inr bs \<Longrightarrow> oc_Unmarshal codec j sig bs = Inr m"
    and gzip: "\<And>bs cs. gz_compress gz bs = Inr cs \<Longrightarrow> gz_decompress gz cs = Inr bs"
    and stamp: "stampTenantIdentity codec gz raw ct ce sig tid name = Inr body"
    and dec: "decode = (\<lambda>b. case (if equal_fold ce ''gzip'' then gz_decompress gz b else Inr b) of
                Inl e \<Rightarrow> Inl e | Inr p \<Rightarrow> oc_Unmarshal codec (isJSONContentType ct) sig p)"
  shows "\<exists>m. decode raw = Inr m \<and> decode body = Inr (stampResources (oc_rest codec) tid name m) \<and>
     msg_stamped tid name (stampResources (oc_rest codec) tid name m)"
proof -
  from stampTenantIdentity_Inr [OF stamp] obtain p m enc where
    p: "(if equal_fold ce ''gzip'' then gz_decompress gz raw else Inr raw) = Inr p" and
    m: "oc_Unmarshal codec (isJSONContentType ct) sig p = Inr m" and
    e: "oc_Marshal codec (isJSONContentType ct) (stampResources (oc_rest codec) tid name m) = Inr enc" and
    b: "(if equal_fold ce ''gzip'' then gz_compress gz enc else Inr enc) = Inr body" .
  show ?thesis
    using p m codec [OF _ e] kind [OF m] b gzip [of enc body] by (auto simp: dec stampResources_stamped split: if_splits)
qed

text \<open>A codec that knows one message (a trace with a forged tenant id) and its stamped form.\<close>

definition demo_msg :: "unit otlp_msg" where
  "demo_msg = ExportTraceServiceRequest [\<lparr>ri_Resource = Some \<lparr>res_Attributes =
     [string_attr ''tenant.id'' ''999'', string_attr ''host.name'' ''h''], res_rest = ()\<rparr>, ri_rest = ()\<rparr>] ()"

definition demo_codec :: "unit otlp_codec" where
  "demo_codec = \<lparr>oc_Unmarshal = (\<lambda>_ sig bs. if sig \<noteq> ''traces'' then Inl ErrEOF else if bs = [0] then Inr demo_msg
       else if bs = [1] then Inr (stampResources () ''1'' ''acme'' demo_msg) else Inl (ErrText ''proto: cannot parse invalid wire-format data'')),
     oc_Marshal = (\<lambda>_ m. if m = stampResources () ''1'' ''acme'' demo_msg then Inr [1] else Inl ErrEOF), oc_rest = ()\<rparr>"

definition demo_gzip :: gzip_ops where
  "demo_gzip = \<lparr>gz_decompress = (\<lambda>bs. case bs of [] \<Rightarrow> Inl ErrEOF | _ # r \<Rightarrow> Inr r), gz_compress = (\<lambda>bs. Inr (31 # bs))\<rparr>"

lemma demo_content: "isJSONContentType '''' = False" "equal_fold '''' ''gzip'' = False"
  by (simp_all add: isJSONContentType_def cut_before_def equal_fold_def)

lemma demo_stamp: "stampTenantIdentity demo_codec demo_gzip [0] '''' '''' ''traces'' ''1'' ''acme'' = Inr [1]"
  by (simp add: stampTenantIdentity_def unmarshalOTLP_def demo_codec_def demo_content)

theorem stamped_body_decodes_witness:
  "\<exists>m. oc_Unmarshal demo_codec False ''traces'' [0] = Inr m \<and>
     oc_Unmarshal demo_codec False ''traces'' [1] = Inr (stampResources () ''1'' ''acme'' m) \<and>
     msg_stamped ''1'' ''acme'' (stampResources () ''1'' ''acme'' m)"
proof -
  have kind: "\<And>j bs m. oc_Unmarshal demo_codec j ''traces'' bs = Inr m \<Longrightarrow> msg_signal m = ''traces''"
    by (auto simp: demo_codec_def demo_msg_def split: if_splits)
  have codec: "\<And>j m bs. msg_signal m = ''traces'' \<Longrightarrow> oc_Marshal demo_codec j m = Inr bs \<Longrightarrow> oc_Unmarshal demo_codec j ''traces'' bs = Inr m"
    by (auto simp: demo_codec_def split: if_splits)
  have gzip: "\<And>bs cs. gz_compress demo_gzip bs = Inr cs \<Longrightarrow> gz_decompress demo_gzip cs = Inr bs"
    by (auto simp: demo_gzip_def)

  from stamped_body_decodes [OF kind codec gzip demo_stamp refl] show ?thesis
    by (simp add: demo_content demo_codec_def)
qed

text \<open>A rejected body: which failures of a request body the handler reports as the client's
  (malformed) rather than its own. A truncated stream and every protobuf or JSON parse error are;
  a gzip stream whose checksum does not match is not.\<close>

lemma malformed_classification:
  "isMalformedBody (Some \<lparr>se_context = ctx, se_err = ErrUnexpectedEOF\<rparr>) \<and>
   isMalformedBody (Some \<lparr>se_context = ''otlp unmarshal'', se_err = ErrText (''proto: cannot parse invalid wire-format data'' @ s)\<rparr>) \<and>
   isMalformedBody (Some \<lparr>se_context = ''otlp unmarshal'', se_err = ErrText (''proto: syntax error (line 1:1): '' @ s)\<rparr>) \<and>
   isMalformedBody (Some \<lparr>se_context = ''gzip decompress'', se_err = ErrText ''gzip: invalid header''\<rparr>) \<and>
   \<not> isMalformedBody (Some \<lparr>se_context = ''gzip decompress'', se_err = ErrText ''gzip: invalid checksum''\<rparr>) \<and>
   \<not> isMalformedBody (Some \<lparr>se_context = ''gzip decompress'', se_err = ErrEOF\<rparr>)"
  by (simp add: isMalformedBody_def stamp_error_text_def)
end
