(* ===== verification/Go_Http.thy ===== *)
theory Go_Http
  imports Go_Strings
begin

text \<open>
  The part of \<open>net/http\<close> that handlers touch: the request (method, path, header, parsed form, query,
  path values, cookies, peer address), the response that a handler builds (status, header, cookies,
  body), and the helpers \<open>http.Error\<close>, \<open>http.Redirect\<close>, \<open>http.SetCookie\<close>. A status of 0 means that
  nothing has been written yet; the first \<open>WriteHeader\<close> wins.
\<close>

section \<open>Headers\<close>

type_synonym header = "(string \<times> string) list"

text \<open>Keys are stored in canonical form; \<open>Get\<close> returns the first value or the empty string.\<close>

definition header_get :: "header \<Rightarrow> string \<Rightarrow> string" where
  "header_get h k = (case map_of h k of None \<Rightarrow> '''' | Some v \<Rightarrow> v)"

definition header_del :: "header \<Rightarrow> string \<Rightarrow> header" where
  "header_del h k = filter (\<lambda>e. fst e \<noteq> k) h"

definition header_set :: "header \<Rightarrow> string \<Rightarrow> string \<Rightarrow> header" where
  "header_set h k v = header_del h k @ [(k, v)]"

lemma header_get_set [simp]: "header_get (header_set h k v) k' = (if k' = k then v else header_get h k')"
proof -
  have "map_of (filter (\<lambda>e. fst e \<noteq> k) h) k' = (if k' = k then None else map_of h k')"
    by (induction h) auto
  then show ?thesis by (simp add: header_get_def header_set_def header_del_def map_add_def split: option.splits)
qed

lemma header_get_del [simp]: "header_get (header_del h k) k' = (if k' = k then '''' else header_get h k')"
proof -
  have "map_of (filter (\<lambda>e. fst e \<noteq> k) h) k' = (if k' = k then None else map_of h k')"
    by (induction h) auto
  then show ?thesis by (simp add: header_get_def header_del_def)
qed

lemma header_get_Nil [simp]: "header_get [] k = ''''"
  by (simp add: header_get_def)

section \<open>Error texts\<close>

text \<open>\<open>err.Error ()\<close>. The driver's own texts are not modelled; they are named by the kind of failure.\<close>

fun error_text :: "go_error \<Rightarrow> string" where
  "error_text DBError = ''database error''"
| "error_text ConstraintError = ''constraint failed''"
| "error_text MaxBytesError = ''http: request body too large''"
| "error_text Timeout = ''i/o timeout''"
| "error_text EOF = ''EOF''"
| "error_text UnexpectedEOF = ''unexpected EOF''"
| "error_text (Msg s) = s"

section \<open>Requests\<close>

record request =
  rq_Method :: string
  rq_Path :: string
  rq_Header :: header
  rq_Form :: "(string \<times> string) list"
  rq_Query :: "(string \<times> string) list"
  rq_PathValue :: "(string \<times> string) list"
  rq_Cookies :: "(string \<times> string) list"
  rq_RemoteAddr :: string

definition FormValue :: "request \<Rightarrow> string \<Rightarrow> string" where
  "FormValue r k = (case map_of (rq_Form r) k of None \<Rightarrow> '''' | Some v \<Rightarrow> v)"

definition QueryGet :: "request \<Rightarrow> string \<Rightarrow> string" where
  "QueryGet r k = (case map_of (rq_Query r) k of None \<Rightarrow> '''' | Some v \<Rightarrow> v)"

definition PathValue :: "request \<Rightarrow> string \<Rightarrow> string" where
  "PathValue r k = (case map_of (rq_PathValue r) k of None \<Rightarrow> '''' | Some v \<Rightarrow> v)"

text \<open>\<open>r.Cookie (name)\<close>: the first cookie of that name; \<open>None\<close> is \<open>ErrNoCookie\<close>.\<close>

definition Cookie :: "request \<Rightarrow> string \<Rightarrow> string option" where
  "Cookie r k = map_of (rq_Cookies r) k"

section \<open>Responses\<close>

datatype same_site = SameSiteDefaultMode | SameSiteLaxMode | SameSiteStrictMode | SameSiteNoneMode

record cookie =
  ck_Name :: string
  ck_Value :: string
  ck_Path :: string
  ck_HttpOnly :: bool
  ck_Secure :: bool
  ck_SameSite :: same_site
  ck_MaxAge :: int64
  ck_Expires :: "int64 option"

record response =
  rs_status :: int64
  rs_header :: header
  rs_cookies :: "cookie list"
  rs_body :: string

definition new_response :: response where
  "new_response = \<lparr>rs_status = 0, rs_header = [], rs_cookies = [], rs_body = ''''\<rparr>"

lemma new_response_status [simp]: "rs_status new_response = 0"
  by (simp add: new_response_def)

definition set_header :: "string \<Rightarrow> string \<Rightarrow> response \<Rightarrow> response" where
  "set_header k v w = w\<lparr>rs_header := header_set (rs_header w) k v\<rparr>"

definition WriteHeader :: "int64 \<Rightarrow> response \<Rightarrow> response" where
  "WriteHeader code w = (if rs_status w = 0 then w\<lparr>rs_status := code\<rparr> else w)"

definition Write :: "string \<Rightarrow> response \<Rightarrow> response" where
  "Write s w = (WriteHeader 200 w)\<lparr>rs_body := rs_body w @ s\<rparr>"

definition SetCookie :: "cookie \<Rightarrow> response \<Rightarrow> response" where
  "SetCookie c w = w\<lparr>rs_cookies := rs_cookies w @ [c]\<rparr>"

definition http_Error :: "string \<Rightarrow> int64 \<Rightarrow> response \<Rightarrow> response" where
  "http_Error msg code w =
     Write (msg @ [char_of (10::nat)]) (WriteHeader code
       (set_header ''X-Content-Type-Options'' ''nosniff''
         (set_header ''Content-Type'' ''text/plain; charset=utf-8''
           (w\<lparr>rs_header := header_del (rs_header w) ''Content-Length''\<rparr>))))"

text \<open>
  \<open>http.Redirect\<close> to a rooted path that is already clean. A GET without a content type gets a short
  HTML body.
\<close>

definition StatusText :: "int64 \<Rightarrow> string" where
  "StatusText status = (if status = 301 then ''Moved Permanently'' else if status = 303 then ''See Other'' else '''')"

definition redirect_body :: "string \<Rightarrow> int64 \<Rightarrow> string" where
  "redirect_body url status =
     ''<a href='' @ [CHR 0x22] @ url @ [CHR 0x22] @ ''>'' @ StatusText status @ ''</a>.'' @ [char_of (10::nat), char_of (10::nat)]"

definition Redirect :: "request \<Rightarrow> string \<Rightarrow> int64 \<Rightarrow> response \<Rightarrow> response" where
  "Redirect r url code w =
     (let hadCT = header_get (rs_header w) ''Content-Type'' \<noteq> '''';
          w1 = set_header ''Location'' url w;
          w2 = (if \<not> hadCT \<and> (rq_Method r = ''GET'' \<or> rq_Method r = ''HEAD'')
                then set_header ''Content-Type'' ''text/html; charset=utf-8'' w1 else w1);
          w3 = WriteHeader code w2
      in if \<not> hadCT \<and> rq_Method r = ''GET'' then Write (redirect_body url code) w3 else w3)"

lemmas response_defs = set_header_def WriteHeader_def Write_def SetCookie_def http_Error_def Redirect_def Let_def

lemma status_simps [simp]:
  "rs_status (set_header k v w) = rs_status w" "rs_status (SetCookie c w) = rs_status w"
  "rs_status (Write s w) = (if rs_status w = 0 then 200 else rs_status w)"
  "rs_status (WriteHeader code w) = (if rs_status w = 0 then code else rs_status w)"
  "code \<noteq> 0 \<Longrightarrow> rs_status (http_Error m code w) = (if rs_status w = 0 then code else rs_status w)"
  "code \<noteq> 0 \<Longrightarrow> rs_status (Redirect r url code w) = (if rs_status w = 0 then code else rs_status w)"
  by (simp_all add: response_defs)

lemma cookies_simps [simp]:
  "rs_cookies (set_header k v w) = rs_cookies w" "rs_cookies (SetCookie c w) = rs_cookies w @ [c]"
  "rs_cookies (Write s w) = rs_cookies w" "rs_cookies (WriteHeader code w) = rs_cookies w"
  "rs_cookies (http_Error m code w) = rs_cookies w" "rs_cookies (Redirect r url code w) = rs_cookies w"
  by (simp_all add: response_defs)

lemma location_simps [simp]:
  "header_get (rs_header (Redirect r url code w)) ''Location'' = url"
  "header_get (rs_header (SetCookie c w)) k = header_get (rs_header w) k"
  by (simp_all add: response_defs)

end
