(* ===== verification/Go_Proxy.thy ===== *)
theory Go_Proxy
  imports Go_Http Go_Crypto
begin

text \<open>
  \<open>net/http/httputil.ReverseProxy\<close> as the gateway uses it: the outgoing request is a copy of the
  incoming one that the \<open>Director\<close> edits, after which the hop-by-hop headers, and every header that
  the client's \<open>Connection\<close> header names, are removed. The upstream server is a parameter: a function
  from the outgoing request to a reply.
\<close>

section \<open>Addresses\<close>

fun last_index :: "string \<Rightarrow> char \<Rightarrow> nat option" where
  "last_index [] c = None"
| "last_index (x # xs) c = (case last_index xs c of Some i \<Rightarrow> Some (Suc i) | None \<Rightarrow> if x = c then Some 0 else None)"

text \<open>\<open>net.SplitHostPort\<close>; \<open>None\<close> is its \<open>AddrError\<close>.\<close>

definition SplitHostPort :: "string \<Rightarrow> (string \<times> string) option" where
  "SplitHostPort hostport =
     (case last_index hostport CHR '':'' of
        None \<Rightarrow> None
      | Some i \<Rightarrow>
          if hd hostport = CHR ''[''
          then (case index_byte hostport CHR '']'' of
                  None \<Rightarrow> None
                | Some e \<Rightarrow>
                    if Suc e \<noteq> i then None
                    else if CHR ''['' \<in> set (drop 1 hostport) \<or> CHR '']'' \<in> set (drop (Suc e) hostport) then None
                    else Some (drop 1 (take e hostport), drop (Suc i) hostport))
          else (let host = take i hostport in
                if CHR '':'' \<in> set host \<or> CHR ''['' \<in> set hostport \<or> CHR '']'' \<in> set hostport then None
                else Some (host, drop (Suc i) hostport)))"

lemma last_index_append: "c \<notin> set q \<Longrightarrow> last_index (p @ c # q) c = Some (length p)"
proof (induction p)
  case Nil
  have "c \<notin> set q \<Longrightarrow> last_index q c = None" by (induction q) auto
  then show ?case using Nil by simp
qed simp

lemma SplitHostPort_plain:
  assumes "set host \<inter> {CHR '':'', CHR ''['', CHR '']''} = {}" "set port \<inter> {CHR '':'', CHR ''['', CHR '']''} = {}"
  shows "SplitHostPort (host @ CHR '':'' # port) = Some (host, port)"
proof -
  have "hd (host @ CHR '':'' # port) \<noteq> CHR ''[''" using assms(1) by (cases host) auto
  moreover have "last_index (host @ CHR '':'' # port) CHR '':'' = Some (length host)"
    using assms(2) by (intro last_index_append) auto
  ultimately show ?thesis using assms by (auto simp: SplitHostPort_def Let_def)
qed

section \<open>Header names and lists of tokens\<close>

definition upper_ascii :: "char \<Rightarrow> char" where
  "upper_ascii c = (let n = of_char c :: nat in if 97 \<le> n \<and> n \<le> 122 then char_of (n - 32) else c)"

definition token_char :: "char \<Rightarrow> bool" where
  "token_char c \<longleftrightarrow> (let n = of_char c :: nat in 97 \<le> n \<and> n \<le> 122 \<or> 65 \<le> n \<and> n \<le> 90) \<or> is_digit c \<or>
     c \<in> set ''!#$%&*+-.^_`|~'' \<or> c = CHR 0x27"

fun canon :: "bool \<Rightarrow> string \<Rightarrow> string" where
  "canon up [] = []"
| "canon up (c # cs) = (if up then upper_ascii c else lower_ascii c) # canon (c = CHR ''-'') cs"

definition CanonicalHeaderKey :: "string \<Rightarrow> string" where
  "CanonicalHeaderKey k = (if list_all token_char k then canon True k else k)"

text \<open>All values of a header, in order, and the comma-separated tokens in them.\<close>

definition header_values :: "header \<Rightarrow> string \<Rightarrow> string list" where
  "header_values h k = map snd (filter (\<lambda>e. fst e = k) h)"

fun split_all :: "char \<Rightarrow> string \<Rightarrow> string list" where
  "split_all c [] = [[]]"
| "split_all c (x # xs) =
     (if x = c then [] # split_all c xs
      else case split_all c xs of [] \<Rightarrow> [[x]] | p # ps \<Rightarrow> (x # p) # ps)"

definition ascii_space :: "char \<Rightarrow> bool" where
  "ascii_space c \<longleftrightarrow> c = CHR '' '' \<or> c = CHR 0x09 \<or> c = CHR 0x0A \<or> c = CHR 0x0D"

definition TrimString :: "string \<Rightarrow> string" where
  "TrimString s = rev (dropWhile ascii_space (rev (dropWhile ascii_space s)))"

definition header_tokens :: "header \<Rightarrow> string \<Rightarrow> string list" where
  "header_tokens h k = concat (map (\<lambda>v. map TrimString (split_all CHR '','' v)) (header_values h k))"

definition values_contain_token :: "header \<Rightarrow> string \<Rightarrow> string \<Rightarrow> bool" where
  "values_contain_token h k tok \<longleftrightarrow> to_lower tok \<in> set (map to_lower (header_tokens h k))"

section \<open>Hop-by-hop headers\<close>

definition hopHeaders :: "string list" where
  "hopHeaders = [''Connection'', ''Proxy-Connection'', ''Keep-Alive'', ''Proxy-Authenticate'', ''Proxy-Authorization'',
     ''Te'', ''Trailer'', ''Transfer-Encoding'', ''Upgrade'']"

definition connection_names :: "header \<Rightarrow> string list" where
  "connection_names h = map CanonicalHeaderKey (filter (\<lambda>s. s \<noteq> '''') (header_tokens h ''Connection''))"

definition removeHopByHopHeaders :: "header \<Rightarrow> header" where
  "removeHopByHopHeaders h = fold (\<lambda>k h. header_del h k) (connection_names h @ hopHeaders) h"

lemma fold_del: "fold (\<lambda>k h. header_del h k) ks h = filter (\<lambda>e. fst e \<notin> set ks) h"
  by (induction ks arbitrary: h) (auto simp: header_del_def intro: filter_cong)

lemma removeHopByHop_filter:
  "removeHopByHopHeaders h = filter (\<lambda>e. fst e \<notin> set (connection_names h @ hopHeaders)) h"
  unfolding removeHopByHopHeaders_def by (rule fold_del)

lemma map_of_filter_key: "map_of (filter (\<lambda>e. P (fst e)) h) k = (if P k then map_of h k else None)"
  by (induction h) auto

lemma header_get_removeHop:
  "header_get (removeHopByHopHeaders h) k = (if k \<in> set (connection_names h @ hopHeaders) then '''' else header_get h k)"
  using map_of_filter_key [of "\<lambda>k. k \<notin> set (connection_names h @ hopHeaders)" h k]
  by (simp add: header_get_def removeHopByHop_filter)

lemma removeHop_absent: "k \<notin> fst ` set h \<Longrightarrow> k \<notin> fst ` set (removeHopByHopHeaders h)"
  by (auto simp: removeHopByHop_filter)

section \<open>The outgoing request and the reply\<close>

record proxy_request =
  pr_Scheme :: string
  pr_Host :: string
  pr_Path :: string
  pr_RawQuery :: string
  pr_Header :: header
  pr_Body :: "u8 list"

text \<open>
  What the upstream does with a request: no usable response (\<open>RoundTrip\<close> returned an error), or a
  response whose body is delivered completely (\<open>True\<close>) or breaks off.
\<close>

datatype reply = RoundTripError go_error | Reply int64 header string bool

datatype outcome = Responded response | Aborted response | NilPanic

definition upgradeType :: "header \<Rightarrow> string" where
  "upgradeType h = (if values_contain_token h ''Connection'' ''Upgrade'' then header_get h ''Upgrade'' else '''')"

definition ascii_printable :: "string \<Rightarrow> bool" where
  "ascii_printable s \<longleftrightarrow> list_all (\<lambda>c. 32 \<le> (of_char c :: nat) \<and> (of_char c :: nat) \<le> 126) s"

definition forwarded_for :: "string \<Rightarrow> header \<Rightarrow> header" where
  "forwarded_for remote h =
     (case SplitHostPort remote of
        None \<Rightarrow> h
      | Some (ip, _) \<Rightarrow>
          (let prior = header_values h ''X-Forwarded-For'' in
           header_set h ''X-Forwarded-For'' (if prior = [] then ip else concat (map (\<lambda>p. p @ '', '') prior) @ ip)))"

text \<open>The header of the outgoing request, from the header that the \<open>Director\<close> left.\<close>

definition outgoing_header :: "string \<Rightarrow> header \<Rightarrow> header \<Rightarrow> header" where
  "outgoing_header remote original h =
     (let up = upgradeType h;
          h1 = removeHopByHopHeaders h;
          h2 = (if values_contain_token original ''Te'' ''trailers'' then header_set h1 ''Te'' ''trailers'' else h1);
          h3 = (if up \<noteq> '''' then header_set (header_set h2 ''Connection'' ''Upgrade'') ''Upgrade'' up else h2);
          h4 = forwarded_for remote h3
      in if ''User-Agent'' \<in> fst ` set h4 then h4 else header_set h4 ''User-Agent'' '''')"

definition copyHeader :: "header \<Rightarrow> response \<Rightarrow> response" where
  "copyHeader h w = w\<lparr>rs_header := rs_header w @ h\<rparr>"

text \<open>
  The proxy: the outcome, the request that was sent (if any), and the status that \<open>ModifyResponse\<close>
  was shown (if any). A body that breaks off while it is copied ends the handler with
  \<open>http.ErrAbortHandler\<close>.
\<close>

definition proxy_serve ::
  "(proxy_request \<Rightarrow> proxy_request) \<Rightarrow> (go_error \<Rightarrow> response \<Rightarrow> response) \<Rightarrow> string \<Rightarrow> proxy_request
     \<Rightarrow> (proxy_request \<Rightarrow> reply) \<Rightarrow> response \<Rightarrow> outcome \<times> proxy_request option \<times> int64 option" where
  "proxy_serve Director ErrorHandler remote req upstream w =
     (let out = Director req;
          sent = out\<lparr>pr_Header := outgoing_header remote (pr_Header req) (pr_Header out)\<rparr>
      in if \<not> ascii_printable (upgradeType (pr_Header out))
         then (Responded (ErrorHandler (Msg ''client tried to switch to invalid protocol'') w), None, None)
         else case upstream sent of
           RoundTripError e \<Rightarrow> (Responded (ErrorHandler e w), Some sent, None)
         | Reply status h body complete \<Rightarrow>
             (let w1 = Write body (WriteHeader status (copyHeader (removeHopByHopHeaders h) w))
              in (if complete then Responded w1 else Aborted w1, Some sent, Some status)))"

lemma header_values_set: "header_values (header_set h k v) k' = (if k' = k then [v] else header_values h k')"
  by (auto simp: header_values_def header_set_def header_del_def intro!: arg_cong [of _ _ "map snd"] filter_cong)

lemma set_fst_header_set: "fst ` set (header_set h k v) = insert k (fst ` set h)"
  unfolding header_set_def header_del_def by (auto simp: image_iff)

lemma forwarded_for_key: "k \<noteq> ''X-Forwarded-For'' \<Longrightarrow> k \<in> fst ` set (forwarded_for remote h) \<longleftrightarrow> k \<in> fst ` set h"
  unfolding forwarded_for_def Let_def
  by (cases "SplitHostPort remote") (simp_all only: option.case case_prod_unfold set_fst_header_set insert_iff simp_thms)

lemma if_header_set_key: "k \<noteq> x \<Longrightarrow> k \<in> fst ` set (if b then header_set h x v else h) \<longleftrightarrow> k \<in> fst ` set h"
  "k \<noteq> x \<Longrightarrow> k \<in> fst ` set (if b then h else header_set h x v) \<longleftrightarrow> k \<in> fst ` set h"
  "k \<noteq> x \<Longrightarrow> k \<noteq> y \<Longrightarrow> k \<in> fst ` set (if b then header_set (header_set h x v) y z else h) \<longleftrightarrow> k \<in> fst ` set h"
  by (cases b; simp only: if_True if_False set_fst_header_set insert_iff simp_thms)+

text \<open>Apart from five names, the outgoing header has what the Director left, less the hop-by-hop ones.\<close>

lemma outgoing_header_key:
  assumes "k \<notin> {''Te'', ''Connection'', ''Upgrade'', ''X-Forwarded-For'', ''User-Agent''}"
  shows "k \<in> fst ` set (outgoing_header remote h0 h) \<longleftrightarrow> k \<in> fst ` set (removeHopByHopHeaders h)"
proof -
  have n: "k \<noteq> ''Te''" "k \<noteq> ''Connection''" "k \<noteq> ''Upgrade''" "k \<noteq> ''X-Forwarded-For''" "k \<noteq> ''User-Agent''"
    using assms by (simp_all only: insert_iff de_Morgan_disj simp_thms)
  show ?thesis
    unfolding outgoing_header_def Let_def if_header_set_key(2) [OF n(5)] forwarded_for_key [OF n(4)]
      if_header_set_key(3) [OF n(2,3)] if_header_set_key(1) [OF n(1)] ..
qed

lemma forwarded_for_get: "k \<noteq> ''X-Forwarded-For'' \<Longrightarrow> header_get (forwarded_for remote h) k = header_get h k"
  by (simp add: forwarded_for_def Let_def split: option.splits)

lemma outgoing_header_get:
  assumes "k \<notin> {''Te'', ''Connection'', ''Upgrade'', ''X-Forwarded-For'', ''User-Agent''}"
  shows "header_get (outgoing_header remote h0 h) k = header_get (removeHopByHopHeaders h) k"
  using assms by (simp add: outgoing_header_def Let_def forwarded_for_get)

end
