(* ===== verification/Ingest_Handler.thy ===== *)
theory Ingest_Handler
  imports Auth_Gateway Rate_Limit Otlp_Stamp Go_Proxy
begin

text \<open>
  \<open>internal/ingest/handler.go\<close>: the OTLP endpoint. A request passes the path switch, the key check,
  the request-rate check, the body limit, the byte checks and the stamping, and is then forwarded by
  the reverse proxy; the original size is accounted afterwards. Each early return of the code is a
  \<open>Inl\<close> with the response, each panic an outcome of its own. The codecs, gzip, the token bucket and
  the upstream server are parameters.
\<close>

section \<open>State and requests\<close>

record Handler =
  h_scheme :: string
  h_host :: string
  h_signozIngestKey :: string
  h_maxBodyBytes :: int64

record 'l ingest_state =
  ig_db :: db
  ig_writer :: usage_writer
  ig_limiter :: "'l limiter"

record ('l, 'x) ingest_env =
  ie_rate :: "'l rate_ops"
  ie_codec :: "'x otlp_codec"
  ie_gzip :: gzip_ops

text \<open>The instants at which the handler's calls read the clock.\<close>

record clock =
  at_lookup :: time
  at_rps :: time
  at_bytes :: time
  at_usage :: time

text \<open>A request body: the bytes the client delivers and the error that ends them (\<open>None\<close> is EOF).\<close>

record request_body =
  rb_bytes :: "u8 list"
  rb_error :: "go_error option"

record ingest_request = request +
  rq_RawQuery :: string
  rq_Body :: "request_body option"

text \<open>The result of \<open>url.Parse\<close> on the endpoint is given as its scheme and host.\<close>

definition NewHandler :: "(string \<times> string) result \<Rightarrow> string \<Rightarrow> int64 \<Rightarrow> Handler result" where
  "NewHandler target signozIngestKey maxBodyBytes =
     (case target of
        Inl err \<Rightarrow> Inl err
      | Inr (scheme, host) \<Rightarrow>
          Inr \<lparr>h_scheme = scheme, h_host = host, h_signozIngestKey = signozIngestKey, h_maxBodyBytes = maxBodyBytes\<rparr>)"

section \<open>The proxy's hooks\<close>

definition Director :: "Handler \<Rightarrow> proxy_request \<Rightarrow> proxy_request" where
  "Director h req =
     (let hd1 = header_del (pr_Header req) ''X-Tenant-Key'';
          hd2 = (if h_signozIngestKey h \<noteq> '''' then header_set hd1 ''Authorization'' (''Bearer '' @ h_signozIngestKey h) else hd1)
      in req\<lparr>pr_Scheme := h_scheme h, pr_Host := h_host h, pr_Header := hd2\<rparr>)"

definition json_error :: "string \<Rightarrow> string" where
  \<open>json_error msg = ''{"error":"'' @ msg @ ''"}''\<close>

definition ErrorHandler :: "go_error \<Rightarrow> response \<Rightarrow> response" where
  "ErrorHandler err w =
     (if err = MaxBytesError then http_Error (json_error ''request body too large'') 413 w
      else http_Error (json_error ''backend unreachable'') 502 w)"

section \<open>Responses\<close>

definition writeJSON :: "int64 \<Rightarrow> string \<Rightarrow> response \<Rightarrow> response" where
  "writeJSON status body w = Write body (WriteHeader status (set_header ''Content-Type'' ''application/json'' w))"

definition writeRateLimit :: "string \<Rightarrow> response \<Rightarrow> response" where
  \<open>writeRateLimit reason w =
     Write (''{"error":"rate limit exceeded","reason":"'' @ reason @ ''"}'')
       (WriteHeader 429 (set_header ''Retry-After'' ''1'' (set_header ''Content-Type'' ''application/json'' w)))\<close>

definition rateLimitDecision :: "Decision \<Rightarrow> response \<Rightarrow> response" where
  "rateLimitDecision dec w =
     (if Reason dec = ''lookup_failed'' then writeJSON 500 (json_error ''internal error'') w
      else writeRateLimit (Reason dec) w)"

definition clientIP_ingest :: "ingest_request \<Rightarrow> string" where
  "clientIP_ingest r = rq_RemoteAddr r"

text \<open>The line that \<open>log401\<close> prints: at most four characters of the key.\<close>

definition log401 :: "ingest_request \<Rightarrow> string \<Rightarrow> string" where
  "log401 r tenantKey =
     (let masked = (if length tenantKey > 4 then take 4 tenantKey @ ''...'' else tenantKey)
      in ''[ingest] 401 '' @ clientIP_ingest r @ '' key='' @ masked @ '' path='' @ rq_Path r)"

definition healthz :: "'l ingest_state \<Rightarrow> response \<times> 'l ingest_state" where
  \<open>healthz s =
     (let dropped = DroppedSamples (ig_writer s); qf = QuotaFailures (ig_limiter s);
          (ping, d) = Ping (ig_db s);
          body = (\<lambda>status. ''{"status":"'' @ status @ ''","dropped":'' @ format_int dropped @ '',"quota_failures":'' @ format_int qf @ ''}'')
      in (case ping of
            Inl _ \<Rightarrow> writeJSON 503 (body ''unhealthy'') new_response
          | Inr _ \<Rightarrow> writeJSON 200 (body ''ok'') new_response, s\<lparr>ig_db := d\<rparr>))\<close>

section \<open>The request path\<close>

definition signal_of_path :: "string \<Rightarrow> string option" where
  "signal_of_path path =
     (if path = ''/v1/traces'' then Some ''traces''
      else if path = ''/v1/metrics'' then Some ''metrics''
      else if path = ''/v1/logs'' then Some ''logs''
      else None)"

text \<open>\<open>io.ReadAll\<close> over \<open>http.MaxBytesReader\<close>: more bytes than the limit is an error of its own.\<close>

definition read_body :: "int64 \<Rightarrow> request_body \<Rightarrow> u8 list result" where
  "read_body maxBodyBytes b =
     (if int (length (rb_bytes b)) > max 0 maxBodyBytes then Inl MaxBytesError
      else case rb_error b of None \<Rightarrow> Inr (rb_bytes b) | Some e \<Rightarrow> Inl e)"

definition reject :: "int64 \<Rightarrow> string \<Rightarrow> outcome" where
  "reject status msg = Responded (writeJSON status (json_error msg) new_response)"

text \<open>The key check: the tenant, or the response of an early return.\<close>

definition authenticate :: "time \<Rightarrow> ingest_request \<Rightarrow> 'l ingest_state \<Rightarrow> (outcome + tenant) \<times> 'l ingest_state" where
  "authenticate now r s =
     (let tenantKey = header_get (rq_Header r) ''X-Tenant-Key'' in
      if tenantKey = '''' then (Inl (reject 401 ''missing X-Tenant-Key header''), s)
      else case ResolveTenant now (NewAPIKeyCredential tenantKey) (ig_db s) of
        (Inl _, d) \<Rightarrow> (Inl (reject 500 ''internal error''), s\<lparr>ig_db := d\<rparr>)
      | (Inr None, d) \<Rightarrow> (Inl (reject 401 ''invalid tenant key''), s\<lparr>ig_db := d\<rparr>)
      | (Inr (Some t), d) \<Rightarrow> (Inr t, s\<lparr>ig_db := d\<rparr>))"

definition limiter_check ::
  "('l limiter \<Rightarrow> db \<Rightarrow> Decision \<times> 'l limiter \<times> db) \<Rightarrow> 'l ingest_state \<Rightarrow> (outcome + unit) \<times> 'l ingest_state" where
  "limiter_check check s =
     (case check (ig_limiter s) (ig_db s) of
        (dec, l, d) \<Rightarrow>
          (if Allowed dec then Inr () else Inl (Responded (rateLimitDecision dec new_response)),
           s\<lparr>ig_limiter := l, ig_db := d\<rparr>))"

text \<open>A nil body skips the reading and panics at \<open>r.Body.Close ()\<close>.\<close>

definition receive :: "Handler \<Rightarrow> ingest_request \<Rightarrow> outcome + u8 list" where
  "receive h r =
     (case rq_Body r of
        None \<Rightarrow> Inl NilPanic
      | Some b \<Rightarrow>
          (case read_body (h_maxBodyBytes h) b of
             Inl MaxBytesError \<Rightarrow> Inl (reject 413 ''request body too large'')
           | Inl _ \<Rightarrow> Inl (reject 500 ''internal error'')
           | Inr bs \<Rightarrow> Inr bs))"

definition stamp :: "('l, 'x) ingest_env \<Rightarrow> ingest_request \<Rightarrow> string \<Rightarrow> tenant \<Rightarrow> u8 list \<Rightarrow> outcome + u8 list" where
  "stamp env r signalType t originalBytes =
     (case stampTenantIdentity (ie_codec env) (ie_gzip env) originalBytes (header_get (rq_Header r) ''Content-Type'')
             (header_get (rq_Header r) ''Content-Encoding'') signalType (format_int (ID t)) (Name t) of
        Inl err \<Rightarrow> Inl (if isMalformedBody (Some err) then reject 400 ''invalid request body'' else reject 500 ''internal error'')
      | Inr newBody \<Rightarrow> Inr newBody)"

definition forward_request :: "ingest_request \<Rightarrow> u8 list \<Rightarrow> proxy_request" where
  "forward_request r newBody =
     \<lparr>pr_Scheme = '''', pr_Host = '''', pr_Path = rq_Path r, pr_RawQuery = rq_RawQuery r,
      pr_Header = (if equal_fold (header_get (rq_Header r) ''Content-Encoding'') ''gzip'' then rq_Header r
                   else header_del (rq_Header r) ''Content-Encoding''),
      pr_Body = newBody\<rparr>"

text \<open>Everything before the proxy: what is to be forwarded for which tenant, or an early return.\<close>

definition admit ::
  "('l, 'x) ingest_env \<Rightarrow> Handler \<Rightarrow> clock \<Rightarrow> ingest_request \<Rightarrow> string \<Rightarrow> 'l ingest_state
     \<Rightarrow> (outcome + tenant \<times> u8 list \<times> u8 list) \<times> 'l ingest_state" where
  "admit env h clk r signalType s =
     (case authenticate (at_lookup clk) r s of
        (Inl out, s1) \<Rightarrow> (Inl out, s1)
      | (Inr t, s1) \<Rightarrow>
          (case limiter_check (AllowRPS (ie_rate env) (at_rps clk) (ID t)) s1 of
             (Inl out, s2) \<Rightarrow> (Inl out, s2)
           | (Inr _, s2) \<Rightarrow>
               (case receive h r of
                  Inl out \<Rightarrow> (Inl out, s2)
                | Inr originalBytes \<Rightarrow>
                    (case limiter_check (AllowBytes (ie_rate env) (at_bytes clk) (ID t) (int (length originalBytes))) s2 of
                       (Inl out, s3) \<Rightarrow> (Inl out, s3)
                     | (Inr _, s3) \<Rightarrow>
                         (case stamp env r signalType t originalBytes of
                            Inl out \<Rightarrow> (Inl out, s3)
                          | Inr newBody \<Rightarrow> (Inr (t, originalBytes, newBody), s3))))))"

text \<open>
  The whole handler. While the upstream works, other requests run: \<open>meanwhile\<close> is what they do to the
  shared state. The status recorder starts at 502, so a failed round trip is accounted as an error;
  an aborted copy never reaches \<open>RecordUsage\<close>.
\<close>

definition ServeHTTP ::
  "('l, 'x) ingest_env \<Rightarrow> Handler \<Rightarrow> clock \<Rightarrow> ingest_request \<Rightarrow> (proxy_request \<Rightarrow> reply) \<Rightarrow> ('l ingest_state \<Rightarrow> 'l ingest_state)
     \<Rightarrow> 'l ingest_state \<Rightarrow> outcome \<times> proxy_request option \<times> 'l ingest_state" where
  "ServeHTTP env h clk r upstream meanwhile s =
     (if rq_Method r = ''GET'' \<and> rq_Path r = ''/healthz''
      then (case healthz s of (w, s') \<Rightarrow> (Responded w, None, s'))
      else case signal_of_path (rq_Path r) of
        None \<Rightarrow> (reject 404 ''unknown OTLP path'', None, s)
      | Some signalType \<Rightarrow>
          (case admit env h clk r signalType s of
             (Inl out, s1) \<Rightarrow> (out, None, s1)
           | (Inr (t, originalBytes, newBody), s1) \<Rightarrow>
               (let (out, sent, code) = proxy_serve (Director h) ErrorHandler (rq_RemoteAddr r)
                                          (forward_request r newBody) upstream new_response;
                    s2 = meanwhile s1
                in (out, sent,
                    case out of
                      Responded _ \<Rightarrow>
                        s2\<lparr>ig_writer := RecordUsage (at_usage clk) (ID t) signalType
                                         (case code of None \<Rightarrow> 502 | Some c \<Rightarrow> c) (int (length originalBytes)) (ig_writer s2)\<rparr>
                    | _ \<Rightarrow> s2))))"

section \<open>Admission\<close>

lemma limiter_check_snd:
  "snd (limiter_check check s) = s\<lparr>ig_limiter := fst (snd (check (ig_limiter s) (ig_db s))), ig_db := snd (snd (check (ig_limiter s) (ig_db s)))\<rparr>"
  by (simp add: limiter_check_def case_prod_unfold)

text \<open>Up to the proxy a request touches the database only by reads and \<open>last_used_at\<close>, never the usage writer.\<close>

definition admit_frame :: "'l ingest_state \<Rightarrow> 'l ingest_state \<Rightarrow> bool" where
  "admit_frame s s' \<longleftrightarrow> ig_writer s' = ig_writer s \<and> (db_inv (ig_db s) \<longrightarrow> db_inv (ig_db s'))"

lemma admit_frame_refl [simp]: "admit_frame s s"
  by (simp add: admit_frame_def)

lemma admit_frame_trans: "admit_frame s s' \<Longrightarrow> admit_frame s' s'' \<Longrightarrow> admit_frame s s''"
  by (simp add: admit_frame_def)

lemma authenticate_frame: "admit_frame s (snd (authenticate now r s))"
  using ResolveTenant_inv [of "ig_db s" now "NewAPIKeyCredential (header_get (rq_Header r) ''X-Tenant-Key'')"]
  by (auto simp: authenticate_def admit_frame_def Let_def split: prod.splits sum.splits option.splits)

lemma limiter_frame:
  "admit_frame s (snd (limiter_check (AllowRPS ops now tid) s))"
  "admit_frame s (snd (limiter_check (AllowBytes ops now tid n) s))"
  by (simp_all add: limiter_check_snd admit_frame_def limiter_tables [THEN same_tables_inv])

lemma admit_admit_frame: "admit_frame s (snd (admit env h clk r sig s))"
proof (cases "authenticate (at_lookup clk) r s")
  case (Pair a s1)
  have f1: "admit_frame s s1" using authenticate_frame [of s "at_lookup clk" r] Pair by simp
  show ?thesis
  proof (cases a)
    case (Inr t)
    obtain b s2 where b: "limiter_check (AllowRPS (ie_rate env) (at_rps clk) (ID t)) s1 = (b, s2)" by fastforce
    have f2: "admit_frame s s2" using admit_frame_trans [OF f1] limiter_frame(1) [of s1 "ie_rate env" "at_rps clk" "ID t"] b by simp
    have "admit_frame s (snd (limiter_check (AllowBytes ops now tid n) s2))" for ops now tid n
      by (rule admit_frame_trans [OF f2 limiter_frame(2)])
    then show ?thesis
      using Pair Inr b f2 by (auto simp: admit_def split: sum.splits prod.splits) (metis snd_conv)+
  qed (use Pair f1 in \<open>simp add: admit_def\<close>)
qed

text \<open>What an admitted request has shown.\<close>

lemma authenticate_Inr:
  assumes "authenticate now r s = (Inr t, s')"
  shows "header_get (rq_Header r) ''X-Tenant-Key'' \<noteq> ''''"
    and "fst (LookupTenantByKey now (header_get (rq_Header r) ''X-Tenant-Key'') (ig_db s)) = Inr (Some t)"
  using assms by (auto simp: authenticate_def Let_def ResolveTenant_def NewAPIKeyCredential_def
      split: if_splits prod.splits sum.splits option.splits)

lemma receive_Inr:
  "receive h r = Inr bs \<longleftrightarrow>
     (\<exists>b. rq_Body r = Some b \<and> rb_error b = None \<and> rb_bytes b = bs \<and> int (length bs) \<le> max 0 (h_maxBodyBytes h))"
proof (cases "rq_Body r")
  case (Some b)
  then show ?thesis
    by (cases "int (length (rb_bytes b)) > max 0 (h_maxBodyBytes h)"; cases "rb_error b")
       (auto simp: receive_def read_body_def le_max_iff_disj split: go_error.splits)
qed (simp add: receive_def)

lemma stamp_Inr:
  "stamp env r sig t bs = Inr body \<longleftrightarrow>
     stampTenantIdentity (ie_codec env) (ie_gzip env) bs (header_get (rq_Header r) ''Content-Type'')
       (header_get (rq_Header r) ''Content-Encoding'') sig (format_int (ID t)) (Name t) = Inr body"
  by (simp add: stamp_def split: sum.splits)

lemma admit_Inr:
  assumes "admit env h clk r sig s = (Inr (t, bs, body), s')"
  shows "\<exists>s1. authenticate (at_lookup clk) r s = (Inr t, s1)" "receive h r = Inr bs" "stamp env r sig t bs = Inr body"
  using assms by (auto simp: admit_def split: sum.splits prod.splits)

section \<open>The forwarded header\<close>

lemma header_values_del: "k \<noteq> k' \<Longrightarrow> header_values (header_del h k') k = header_values h k"
  by (auto simp: header_values_def header_del_def intro!: arg_cong [of _ _ "map snd"] filter_cong)

definition director_header :: "Handler \<Rightarrow> ingest_request \<Rightarrow> u8 list \<Rightarrow> header" where
  "director_header h r body = pr_Header (Director h (forward_request r body))"

lemma director_header_values:
  assumes "k \<notin> {''X-Tenant-Key'', ''Authorization'', ''Content-Encoding''}"
  shows "header_values (director_header h r body) k = header_values (rq_Header r) k"
  using assms by (simp add: director_header_def Director_def forward_request_def Let_def header_values_set header_values_del)

lemma header_get_values: "header_get h k = (case header_values h k of [] \<Rightarrow> '''' | v # _ \<Rightarrow> v)"
  by (induction h) (auto simp: header_get_def header_values_def split: list.splits)

lemma director_connection:
  "connection_names (director_header h r body) = connection_names (rq_Header r)"
  "upgradeType (director_header h r body) = upgradeType (rq_Header r)"
  using director_header_values [of "''Connection''" h r body] director_header_values [of "''Upgrade''" h r body]
  by (simp_all add: connection_names_def header_tokens_def upgradeType_def values_contain_token_def header_get_values)

lemma director_authorization:
  "header_get (director_header h r body) ''Authorization'' =
     (if h_signozIngestKey h \<noteq> '''' then ''Bearer '' @ h_signozIngestKey h else header_get (rq_Header r) ''Authorization'')"
  by (simp add: director_header_def Director_def forward_request_def Let_def)

lemma director_no_key: "''X-Tenant-Key'' \<notin> fst ` set (director_header h r body)"
  by (auto simp: director_header_def Director_def Let_def header_set_def header_del_def)

section \<open>The shape of a run\<close>

lemma proxy_serve_sent:
  assumes "proxy_serve D E remote req upstream w = (out, Some p, code)"
  shows "p = (D req)\<lparr>pr_Header := outgoing_header remote (pr_Header req) (pr_Header (D req))\<rparr>"
    and "code = (case upstream p of RoundTripError _ \<Rightarrow> None | Reply c _ _ _ \<Rightarrow> Some c)"
    and "out = (case upstream p of RoundTripError e \<Rightarrow> Responded (E e w)
           | Reply c hs b complete \<Rightarrow> (if complete then Responded else Aborted) (Write b (WriteHeader c (copyHeader (removeHopByHopHeaders hs) w))))"
  using assms by (auto simp: proxy_serve_def Let_def split: if_splits reply.splits)

lemma proxy_serve_printable:
  "proxy_serve D E remote req upstream w = (out, Some p, code) \<Longrightarrow> ascii_printable (upgradeType (pr_Header (D req)))"
  by (auto simp: proxy_serve_def Let_def split: if_splits reply.splits)

lemma proxy_serve_unsent:
  assumes "proxy_serve D E remote req upstream w = (out, None, code)"
  shows "\<not> ascii_printable (upgradeType (pr_Header (D req)))" "code = None"
    "out = Responded (E (Msg ''client tried to switch to invalid protocol'') w)"
  using assms by (auto simp: proxy_serve_def Let_def split: if_splits reply.splits)

text \<open>A request is accepted when its path is an OTLP path and every check before the proxy passed.\<close>

definition accepted :: "('l, 'x) ingest_env \<Rightarrow> Handler \<Rightarrow> clock \<Rightarrow> ingest_request \<Rightarrow> 'l ingest_state \<Rightarrow> bool" where
  "accepted env h clk r s \<longleftrightarrow> (case signal_of_path (rq_Path r) of
     None \<Rightarrow> False
   | Some sig \<Rightarrow> \<not> isl (fst (admit env h clk r sig s)))"

text \<open>Every run is an early return or an admission followed by the proxy.\<close>

lemma ServeHTTP_cases:
  obtains (early) out s' where "ServeHTTP env h clk r upstream m s = (out, None, s')" "admit_frame s s'" "\<not> accepted env h clk r s"
  | (proxied) sig t bs body s1 out sent code where
      "signal_of_path (rq_Path r) = Some sig" "admit env h clk r sig s = (Inr (t, bs, body), s1)"
      "proxy_serve (Director h) ErrorHandler (rq_RemoteAddr r) (forward_request r body) upstream new_response = (out, sent, code)"
      "ServeHTTP env h clk r upstream m s = (out, sent,
         case out of Responded _ \<Rightarrow> (m s1)\<lparr>ig_writer := RecordUsage (at_usage clk) (ID t) sig
             (case code of None \<Rightarrow> 502 | Some c \<Rightarrow> c) (int (length bs)) (ig_writer (m s1))\<rparr>
         | _ \<Rightarrow> m s1)"
      "admit_frame s s1"
proof (cases "rq_Method r = ''GET'' \<and> rq_Path r = ''/healthz''")
  case True
  then show thesis
    using early [of "Responded (fst (healthz s))" "snd (healthz s)"]
    by (simp add: ServeHTTP_def case_prod_unfold healthz_def Let_def Ping_def admit_frame_def accepted_def signal_of_path_def)
next
  case np: False
  show thesis
  proof (cases "signal_of_path (rq_Path r)")
    case None
    then show ?thesis using early [of "reject 404 ''unknown OTLP path''" s] np unfolding ServeHTTP_def by (simp add: accepted_def)
  next
    case (Some sig)
    obtain res s1 where a: "admit env h clk r sig s = (res, s1)" by fastforce
    have f: "admit_frame s s1" using admit_admit_frame [of s env h clk r sig] a by simp
    show ?thesis
    proof (cases res)
      case (Inl out)
      then show ?thesis using early [of out s1] np Some a f unfolding ServeHTTP_def by (simp add: accepted_def)
    next
      case (Inr q)
      obtain t bs body where q: "q = (t, bs, body)" by (cases q) auto
      obtain out sent code where ps: "proxy_serve (Director h) ErrorHandler (rq_RemoteAddr r) (forward_request r body) upstream new_response = (out, sent, code)"
        by (metis prod_cases3)
      show ?thesis
        by (rule proxied [OF Some a [unfolded Inr q] ps _ f])
           (use Some a Inr q ps in \<open>simp add: ServeHTTP_def Let_def if_not_P [OF np]\<close>)
    qed
  qed
qed

section \<open>The handler keeps the store's invariant\<close>

definition ingest_inv :: "'l ingest_state \<Rightarrow> bool" where
  "ingest_inv s \<longleftrightarrow> store_inv \<lparr>st_db = ig_db s, st_writer = ig_writer s\<rparr>"

lemma admit_frame_inv: "admit_frame s s' \<Longrightarrow> ingest_inv s \<Longrightarrow> ingest_inv s'"
  by (simp add: admit_frame_def ingest_inv_def store_inv_def writer_bounded_def)

lemma record_inv: "ingest_inv s \<Longrightarrow> ingest_inv (s\<lparr>ig_writer := RecordUsage now t sig c n (ig_writer s)\<rparr>)"
  using store_step_inv [of "\<lparr>st_db = ig_db s, st_writer = ig_writer s\<rparr>" "OpWriter (Record (usage_sample now t sig c n))"]
  by (simp add: ingest_inv_def RecordUsage_def store_step_def)

lemma ServeHTTP_inv:
  assumes "ingest_inv s" "\<And>s. ingest_inv s \<Longrightarrow> ingest_inv (m s)"
  shows "ingest_inv (snd (snd (ServeHTTP env h clk r upstream m s)))"
proof (cases rule: ServeHTTP_cases [of env h clk r upstream m s])
  case (early out s')
  then show ?thesis using admit_frame_inv [OF _ assms(1)] by simp
next
  case (proxied sig t bs body s1 out sent code)
  have "ingest_inv (m s1)" by (rule assms(2) [OF admit_frame_inv [OF proxied(5) assms(1)]])
  then show ?thesis using proxied(4) record_inv by (simp split: outcome.splits)
qed

text \<open>The tenant of a forwarded request holds its key, and the body that is sent is stamped for that tenant.\<close>

lemma forwarded_row:
  assumes inv: "db_inv (ig_db s)" and run: "ServeHTTP env h clk r upstream m s = (out, Some p, s')"
  obtains row sig b where "key_holds (ig_db s) (header_get (rq_Header r) ''X-Tenant-Key'') row"
    "signal_of_path (rq_Path r) = Some sig" "rq_Body r = Some b" "rb_error b = None"
    "int (length (rb_bytes b)) \<le> max 0 (h_maxBodyBytes h)"
    "stampTenantIdentity (ie_codec env) (ie_gzip env) (rb_bytes b) (header_get (rq_Header r) ''Content-Type'')
       (header_get (rq_Header r) ''Content-Encoding'') sig (format_int (tr_id row)) (tr_name row) = Inr (pr_Body p)"
    "p = (Director h (forward_request r (pr_Body p)))\<lparr>pr_Header := outgoing_header (rq_RemoteAddr r)
       (pr_Header (forward_request r (pr_Body p))) (director_header h r (pr_Body p))\<rparr>"
proof (cases rule: ServeHTTP_cases [of env h clk r upstream m s])
  case (early out' s'')
  then show ?thesis using run by simp
next
  case (proxied sig t bs body s1 out' sent code)
  let ?key = "header_get (rq_Header r) ''X-Tenant-Key''"
  have "proxy_serve (Director h) ErrorHandler (rq_RemoteAddr r) (forward_request r body) upstream new_response = (out', Some p, code)"
    using proxied(3,4) run by simp
  then have p: "p = (Director h (forward_request r body))\<lparr>pr_Header := outgoing_header (rq_RemoteAddr r) (pr_Header (forward_request r body))
      (director_header h r body)\<rparr>"
    using proxy_serve_sent(1) by (simp add: director_header_def)
  have body: "pr_Body p = body" by (simp add: p Director_def forward_request_def Let_def)
  obtain s2 where au: "authenticate (at_lookup clk) r s = (Inr t, s2)" using admit_Inr(1) [OF proxied(2)] by blast
  obtain row q where row: "key_holds (ig_db s) ?key row" "t = tenant_of_row row q"
    using api_keys.resolve_sound [OF inv, of "at_lookup clk" ?key t] authenticate_Inr(2) [OF au] by (metis prod.collapse)
  obtain b where b: "rq_Body r = Some b" "rb_error b = None" "rb_bytes b = bs" "int (length bs) \<le> max 0 (h_maxBodyBytes h)"
    using admit_Inr(2) [OF proxied(2)] unfolding receive_Inr by blast
  have "ID t = tr_id row" "Name t = tr_name row" by (simp_all add: row(2) tenant_of_row_def)
  then show ?thesis
    using that [OF row(1) proxied(1) b(1,2)] b(3,4) admit_Inr(3) [OF proxied(2), unfolded stamp_Inr] p body by simp
qed

section \<open>Properties\<close>

text \<open>C4. Only authenticated, stamped payloads leave the gateway: when a request is forwarded, its key was
  on file and live for an active tenant, its path was one of the three OTLP paths, its body was
  complete and within the limit, and what is sent is that body stamped with that tenant's identity,
  to the configured host, with its path and query, without the tenant key.\<close>

theorem forwarded_is_authenticated:
  assumes inv: "db_inv (ig_db s)" and run: "ServeHTTP env h clk r upstream m s = (out, Some p, s')"
  shows "\<exists>row sig b. key_holds (ig_db s) (header_get (rq_Header r) ''X-Tenant-Key'') row \<and> tr_active row = 1 \<and>
     signal_of_path (rq_Path r) = Some sig \<and> rq_Body r = Some b \<and> rb_error b = None \<and>
     int (length (rb_bytes b)) \<le> max 0 (h_maxBodyBytes h) \<and>
     stampTenantIdentity (ie_codec env) (ie_gzip env) (rb_bytes b) (header_get (rq_Header r) ''Content-Type'')
       (header_get (rq_Header r) ''Content-Encoding'') sig (format_int (tr_id row)) (tr_name row) = Inr (pr_Body p) \<and>
     pr_Scheme p = h_scheme h \<and> pr_Host p = h_host h \<and> pr_Path p = rq_Path r \<and> pr_RawQuery p = rq_RawQuery r \<and>
     ''X-Tenant-Key'' \<notin> fst ` set (pr_Header p)"
proof -
  from forwarded_row [OF assms] obtain row sig b where row: "key_holds (ig_db s) (header_get (rq_Header r) ''X-Tenant-Key'') row"
    and req: "signal_of_path (rq_Path r) = Some sig" "rq_Body r = Some b" "rb_error b = None"
      "int (length (rb_bytes b)) \<le> max 0 (h_maxBodyBytes h)"
    and st: "stampTenantIdentity (ie_codec env) (ie_gzip env) (rb_bytes b) (header_get (rq_Header r) ''Content-Type'')
       (header_get (rq_Header r) ''Content-Encoding'') sig (format_int (tr_id row)) (tr_name row) = Inr (pr_Body p)"
    and p: "p = (Director h (forward_request r (pr_Body p)))\<lparr>pr_Header := outgoing_header (rq_RemoteAddr r)
       (pr_Header (forward_request r (pr_Body p))) (director_header h r (pr_Body p))\<rparr>" .
  have act: "tr_active row = 1" using api_keys.holds_active [OF row] by simp
  have "''X-Tenant-Key'' \<notin> fst ` set (pr_Header p)"
    using director_no_key [of h r "pr_Body p"] by (subst p) (simp add: outgoing_header_key removeHop_absent)
  moreover have "pr_Scheme p = h_scheme h" "pr_Host p = h_host h" "pr_Path p = rq_Path r" "pr_RawQuery p = rq_RawQuery r"
    by (subst p, simp add: Director_def forward_request_def Let_def)+
  ultimately show ?thesis
    using row act req st by (intro exI [of _ row] exI [of _ sig] exI [of _ b] conjI) (simp_all only: simp_thms)
qed
text \<open>The upstream credential: the forwarded request carries the ingest key as its \<open>Authorization\<close>
  header (or the client's own header when no key is configured), unless the client's \<open>Connection\<close>
  header names it, in which case it is removed with the hop-by-hop headers.\<close>

lemma forwarded_authorization:
  assumes run: "ServeHTTP env h clk r upstream m s = (out, Some p, s')"
  shows "header_get (pr_Header p) ''Authorization'' =
     (if ''Authorization'' \<in> set (connection_names (rq_Header r)) then ''''
      else if h_signozIngestKey h \<noteq> '''' then ''Bearer '' @ h_signozIngestKey h
      else header_get (rq_Header r) ''Authorization'')"
proof (cases rule: ServeHTTP_cases [of env h clk r upstream m s])
  case (early out' s'')
  then show ?thesis using run by simp
next
  case (proxied sig t bs body s1 out' sent code)
  have ps: "proxy_serve (Director h) ErrorHandler (rq_RemoteAddr r) (forward_request r body) upstream new_response = (out', Some p, code)"
    using proxied(3,4) run by simp
  have "pr_Header p = outgoing_header (rq_RemoteAddr r) (pr_Header (forward_request r body)) (director_header h r body)"
    using proxy_serve_sent(1) [OF ps] by (simp add: director_header_def)
  then show ?thesis
    by (simp add: outgoing_header_get header_get_removeHop director_connection director_authorization hopHeaders_def)
qed

text \<open>C18. Accounting. A request is sent exactly when it was accepted (key, rate limits, complete body within
  the limit, payload stamped) and does not ask to switch to a protocol whose name is not printable
  ASCII. A request that was sent is recorded once, for the tenant that authenticated, under the signal
  of its path, with the size of the original body: with the upstream's status when its reply was copied
  completely, with 502 when the round trip failed, and not at all when the reply broke off while it was
  copied. A request that was not sent is not recorded, except for an accepted one the proxy refused for
  its protocol, which is recorded once with 502.\<close>

theorem usage_accounting:
  assumes run: "ServeHTTP env h clk r upstream id s = (out, sent, s')"
  shows "(sent \<noteq> None \<longleftrightarrow> accepted env h clk r s \<and> ascii_printable (upgradeType (rq_Header r))) \<and>
     (let recorded = (\<lambda>status. RecordUsage (at_usage clk) (ID (projr (fst (authenticate (at_lookup clk) r s))))
            (the (signal_of_path (rq_Path r))) status (int (length (rb_bytes (the (rq_Body r))))) (ig_writer s))
      in ig_writer s' = (case sent of
           Some p \<Rightarrow> (case upstream p of
             RoundTripError _ \<Rightarrow> recorded 502
           | Reply status _ _ complete \<Rightarrow> (if complete then recorded status else ig_writer s))
         | None \<Rightarrow> (if accepted env h clk r s then recorded 502 else ig_writer s)))"
proof (cases rule: ServeHTTP_cases [of env h clk r upstream id s])
  case (early out' s'')
  then show ?thesis using run by (simp add: admit_frame_def)
next
  case (proxied sig t bs body s1 out' sent' code)
  obtain s2 where au: "authenticate (at_lookup clk) r s = (Inr t, s2)" using admit_Inr(1) [OF proxied(2)] by blast
  have bs: "rb_bytes (the (rq_Body r)) = bs" using admit_Inr(2) [OF proxied(2)] by (auto simp: receive_Inr)
  have w: "ig_writer s1 = ig_writer s" using proxied(5) by (simp add: admit_frame_def)
  have acc: "accepted env h clk r s" using proxied(1,2) by (simp add: accepted_def)
  have up: "upgradeType (pr_Header (Director h (forward_request r body))) = upgradeType (rq_Header r)"
    using director_connection(2) [of h r body] by (simp add: director_header_def)
  have ps: "proxy_serve (Director h) ErrorHandler (rq_RemoteAddr r) (forward_request r body) upstream new_response = (out, sent, code)"
    using proxied(3,4) run by simp
  show ?thesis
  proof (cases sent)
    case None
    then show ?thesis
      using proxy_serve_unsent [OF ps [unfolded None]] run proxied(1,4) acc up bs w au by auto
  next
    case (Some p)
    then show ?thesis
      using run proxied(1,4) bs w au acc up proxy_serve_sent(2,3) [OF ps [unfolded Some]] proxy_serve_printable [OF ps [unfolded Some]]
      by (auto split: outcome.splits reply.splits)
  qed
qed

lemma LookupTenantByKey_none:
  assumes "db_inv d" "\<not> next_fault d" "\<And>row. \<not> key_holds d k row"
  shows "\<exists>d'. LookupTenantByKey now k d = (Inr None, d') \<and> same_tables d d'"
proof -
  obtain res d' where l: "LookupTenantByKey now k d = (res, d')" by fastforce
  have "res = Inr None"
    using LookupTenantByKey_error [of now k d] LookupTenantByKey_iff [OF assms(1,2), of now k] assms(2,3) l
    by (cases res; cases "projr res") auto
  moreover from this l have "same_tables d d'"
    by (auto simp: LookupTenantByKey_scope query_candidates_def sql_query_def matchCandidates_def split: option.splits if_splits)
  ultimately show ?thesis using l by simp
qed

text \<open>C19. A request on an OTLP path whose key is not on file for an active tenant is answered 401, when the
  database answers, and has no effect: nothing is forwarded or recorded, no rate limit is consumed, no table changes.\<close>

theorem unauthenticated_rejected:
  assumes inv: "db_inv (ig_db s)" and nf: "\<not> next_fault (ig_db s)"
    and path: "signal_of_path (rq_Path r) = Some sig"
    and key: "\<And>row. \<not> key_holds (ig_db s) (header_get (rq_Header r) ''X-Tenant-Key'') row"
  shows "\<exists>w d'. ServeHTTP env h clk r upstream m s = (Responded w, None, s\<lparr>ig_db := d'\<rparr>) \<and> rs_status w = 401 \<and>
     same_tables (ig_db s) d'"
proof -
  let ?key = "header_get (rq_Header r) ''X-Tenant-Key''"
  have np: "\<not> (rq_Method r = ''GET'' \<and> rq_Path r = ''/healthz'')" using path by (auto simp: signal_of_path_def)
  have st: "\<exists>w. reject 401 msg = Responded w \<and> rs_status w = 401" for msg
    by (simp add: reject_def writeJSON_def new_response_def)
  show ?thesis
  proof (cases "?key = ''''")
    case True
    then have "ServeHTTP env h clk r upstream m s = (reject 401 ''missing X-Tenant-Key header'', None, s\<lparr>ig_db := ig_db s\<rparr>)"
      using path by (simp add: ServeHTTP_def if_not_P [OF np] admit_def authenticate_def)
    then show ?thesis using st same_tables_refl(1) by metis
  next
    case False
    have l: "LookupTenantByKey (at_lookup clk) ?key (ig_db s) = (Inr None, d') \<Longrightarrow>
       ServeHTTP env h clk r upstream m s = (reject 401 ''invalid tenant key'', None, s\<lparr>ig_db := d'\<rparr>)" for d'
      using path False
      by (simp add: ServeHTTP_def if_not_P [OF np] admit_def authenticate_def Let_def ResolveTenant_def NewAPIKeyCredential_def)
    show ?thesis using l st LookupTenantByKey_none [OF inv nf key] by metis
  qed
qed

section \<open>A run\<close>

definition demo_env :: "(int \<times> int \<times> int \<times> int, unit) ingest_env" where
  "demo_env = \<lparr>ie_rate = int_bucket, ie_codec = demo_codec, ie_gzip = demo_gzip\<rparr>"

definition demo_handler :: Handler where
  "demo_handler = \<lparr>h_scheme = ''http'', h_host = ''signoz:4318'', h_signozIngestKey = ''s3cret'', h_maxBodyBytes = 10\<rparr>"

definition demo_request :: "string \<Rightarrow> header \<Rightarrow> ingest_request" where
  "demo_request key hs = \<lparr>rq_Method = ''POST'', rq_Path = ''/v1/traces'', rq_Header = (''X-Tenant-Key'', key) # hs, rq_Form = [],
     rq_Query = [], rq_PathValue = [], rq_Cookies = [], rq_RemoteAddr = ''10.0.0.9:5555'',
     rq_RawQuery = '''', rq_Body = Some \<lparr>rb_bytes = [0], rb_error = None\<rparr>\<rparr>"

definition demo_state :: "db \<Rightarrow> (int \<times> int \<times> int \<times> int) ingest_state" where
  "demo_state d = \<lparr>ig_db = d, ig_writer = NewUsageWriter, ig_limiter = NewLimiter\<rparr>"

lemma LookupTenantByKey_healthy: "healthy d \<Longrightarrow> healthy (snd (LookupTenantByKey now k d))"
  by (auto simp: LookupTenantByKey_scope query_candidates_def sql_query_healthy matchCandidates_def sql_exec_healthy touch_key_def
      healthy_def split: option.splits)

lemma demo_tenant_row:
  obtains t d' r where "CreateTenant (replicate 24 0) 0 ''acme'' '''' (Some no_limits) empty_db = (Inr t, d')"
    "healthy d'" "db_inv d'" "key_holds d' (APIKey t) r" "t_tenants d' = [r]" "tr_id r = 1" "tr_name r = ''acme''"
    "tr_rate_limit_rps r = None" "tr_burst_bytes r = None" "tr_daily_byte_quota r = None"
proof -
  obtain t d' r where c: "CreateTenant (replicate 24 0) 0 ''acme'' '''' (Some no_limits) empty_db = (Inr t, d')"
    and h: "healthy d'" "db_inv d'" "key_holds d' (APIKey t) r" by (rule demo_key)
  have "\<exists>r. t_tenants d' = [r] \<and> tr_id r = 1 \<and> tr_name r = ''acme'' \<and> tr_rate_limit_rps r = None \<and>
      tr_burst_bytes r = None \<and> tr_daily_byte_quota r = None"
    using c by (auto simp: CreateTenant_def insert_tenant_def insert_api_key_def sql_exec_def next_id_def Let_def no_limits_def
        empty_db_def pop_fault_def next_fault_def tenant_ids_def split: if_splits)
  moreover have "r \<in> set (t_tenants d')" using api_keys.holds_active [OF h(3)] by simp
  ultimately show thesis using that [OF c h] by auto
qed

text \<open>The key of a new tenant with no limits takes one trace to the proxy.\<close>

lemma demo_admit:
  obtains t d' r s1 where "CreateTenant (replicate 24 0) 0 ''acme'' '''' (Some no_limits) empty_db = (Inr t, d')"
    "healthy d'" "db_inv d'"
    "\<forall>hs. header_get hs ''Content-Type'' = '''' \<longrightarrow> header_get hs ''Content-Encoding'' = '''' \<longrightarrow>
       admit demo_env demo_handler clk (demo_request (APIKey t) hs) ''traces'' (demo_state d') = (Inr (tenant_of_row r '''', [0], [1]), s1)"
proof -
  obtain t d' r where c: "CreateTenant (replicate 24 0) 0 ''acme'' '''' (Some no_limits) empty_db = (Inr t, d')"
    and h: "healthy d'" and i: "db_inv d'" and k: "key_holds d' (APIKey t) r" and r: "t_tenants d' = [r]" "tr_id r = 1" "tr_name r = ''acme''"
    "tr_rate_limit_rps r = None" "tr_burst_bytes r = None" "tr_daily_byte_quota r = None"
    by (rule demo_tenant_row)
  define d2 where "d2 = snd (LookupTenantByKey (at_lookup clk) (APIKey t) d')"
  have l: "LookupTenantByKey (at_lookup clk) (APIKey t) d' = (Inr (Some (tenant_of_row r '''')), d2)"
    using LookupTenantByKey_iff [OF i] h k unfolding d2_def by (metis healthy_simps(1) prod.collapse)
  have h2: "healthy d2" unfolding d2_def by (rule LookupTenantByKey_healthy [OF h])
  have t2: "t_tenants d2 = [r]" unfolding d2_def LookupTenantByKey_frame(2) by (rule r(1))
  have id: "LookupTenantByID 1 d2 = (Inr (Some (scanTenant d2 r)), d2)"
    by (simp add: LookupTenantByID_def sql_query_healthy [OF h2] t2 r(2))
  have key: "APIKey t \<noteq> ''''"
    using k by (auto simp: key_holds_def key_scope_def)
  have au: "authenticate (at_lookup clk) (demo_request (APIKey t) hs) (demo_state d') = (Inr (tenant_of_row r ''''), demo_state d2)" for hs
    using l key by (simp add: authenticate_def demo_request_def header_get_def ResolveTenant_def NewAPIKeyCredential_def demo_state_def)
  have lim: "limiter_check (AllowRPS ops now (ID (tenant_of_row r ''''))) (demo_state d2) = (Inr (), demo_state d2)"
    "limiter_check (AllowBytes ops now (ID (tenant_of_row r '''')) n) (demo_state d2) = (Inr (), demo_state d2)" for ops now n
    using id r by (simp_all add: limiter_check_def AllowRPS_def AllowBytes_def demo_state_def tenant_of_row_def scanTenant_def positive_def allow_def)
  have rc: "receive demo_handler (demo_request (APIKey t) hs) = Inr [0]" for hs
    by (simp add: receive_Inr demo_request_def demo_handler_def)
  have st: "stamp demo_env (demo_request (APIKey t) hs) ''traces'' (tenant_of_row r '''') [0] = Inr [1]"
    if "header_get hs ''Content-Type'' = ''''" "header_get hs ''Content-Encoding'' = ''''" for hs
  proof -
    have "header_get ((''X-Tenant-Key'', APIKey t) # hs) ''Content-Type'' = ''''" "header_get ((''X-Tenant-Key'', APIKey t) # hs) ''Content-Encoding'' = ''''"
      using that by (simp_all add: header_get_def)
    moreover have "format_int 1 = ''1''" by code_simp
    ultimately show ?thesis
      using demo_stamp r by (simp add: stamp_Inr demo_request_def demo_env_def tenant_of_row_def)
  qed
  have "admit demo_env demo_handler clk (demo_request (APIKey t) hs) ''traces'' (demo_state d') = (Inr (tenant_of_row r '''', [0], [1]), demo_state d2)"
    if "header_get hs ''Content-Type'' = ''''" "header_get hs ''Content-Encoding'' = ''''" for hs
    using st [OF that] by (simp add: admit_def au lim rc)
  then show thesis using that [OF c h i] by blast
qed

definition demo_clock :: clock where
  "demo_clock = \<lparr>at_lookup = 1, at_rps = 2, at_bytes = 3, at_usage = 4\<rparr>"

abbreviation demo_upstream :: "proxy_request \<Rightarrow> reply" where
  "demo_upstream \<equiv> (\<lambda>_. Reply 200 [] ''ok'' True)"

lemma demo_upgrade:
  assumes "hs = [] \<or> hs = [(''Connection'', ''close, authorization'')]"
  shows "upgradeType (rq_Header (demo_request key hs)) = ''''" "header_get hs ''Content-Type'' = ''''"
    "header_get hs ''Content-Encoding'' = ''''"
  using assms by (auto simp: demo_request_def upgradeType_def values_contain_token_def header_tokens_def header_values_def header_get_def
      TrimString_def ascii_space_def to_lower_def lower_ascii_def)

lemma demo_serve:
  obtains t d' r p s' where "CreateTenant (replicate 24 0) 0 ''acme'' '''' (Some no_limits) empty_db = (Inr t, d')"
    "healthy d'" "db_inv d'" "hs = [] \<or> hs = [(''Connection'', ''close, authorization'')] \<Longrightarrow>
      \<exists>w. ServeHTTP demo_env demo_handler demo_clock (demo_request (APIKey t) hs) demo_upstream id (demo_state d') = (Responded w, Some p, s')"
proof -
  obtain t d' r s1 where c: "CreateTenant (replicate 24 0) 0 ''acme'' '''' (Some no_limits) empty_db = (Inr t, d')"
    and h: "healthy d'" "db_inv d'" and a: "\<forall>hs. header_get hs ''Content-Type'' = '''' \<longrightarrow> header_get hs ''Content-Encoding'' = '''' \<longrightarrow>
       admit demo_env demo_handler demo_clock (demo_request (APIKey t) hs) ''traces'' (demo_state d') = (Inr (tenant_of_row r '''', [0], [1]), s1)"
    by (rule demo_admit [of demo_clock])
  have up: "ascii_printable (upgradeType (pr_Header (Director demo_handler (forward_request (demo_request (APIKey t) hs) [1]))))"
    if "hs = [] \<or> hs = [(''Connection'', ''close, authorization'')]"
    using director_connection(2) [of demo_handler "demo_request (APIKey t) hs" "[1]"] demo_upgrade(1) [OF that, of "APIKey t"]
    by (simp add: director_header_def ascii_printable_def)
  have sp: "signal_of_path (rq_Path (demo_request k hs)) = Some ''traces''" "rq_Method (demo_request k hs) \<noteq> ''GET''" for k
    by (simp_all add: demo_request_def signal_of_path_def)
  have ex: "\<exists>w p s'. ServeHTTP demo_env demo_handler demo_clock (demo_request (APIKey t) hs) demo_upstream id (demo_state d') = (Responded w, Some p, s')"
    if "hs = [] \<or> hs = [(''Connection'', ''close, authorization'')]"
    using a [rule_format, OF demo_upgrade(2,3) [OF that]] up [OF that] sp
    by (simp add: ServeHTTP_def proxy_serve_def Let_def)
  then show thesis using that [OF c h] by metis
qed

theorem forwarded_is_authenticated_witness:
  "\<exists>t d' p row. CreateTenant (replicate 24 0) 0 ''acme'' '''' (Some no_limits) empty_db = (Inr t, d') \<and>
     fst (snd (ServeHTTP demo_env demo_handler demo_clock (demo_request (APIKey t) []) demo_upstream id (demo_state d'))) = Some p \<and>
     key_holds d' (APIKey t) row \<and> pr_Host p = ''signoz:4318''"
proof -
  obtain t d' p s' w where c: "CreateTenant (replicate 24 0) 0 ''acme'' '''' (Some no_limits) empty_db = (Inr t, d')"
    and i: "db_inv d'" and run: "ServeHTTP demo_env demo_handler demo_clock (demo_request (APIKey t) []) demo_upstream id (demo_state d') = (Responded w, Some p, s')"
    by (rule demo_serve [of "[]"]) auto
  have "db_inv (ig_db (demo_state d'))" using i by (simp add: demo_state_def)
  from forwarded_is_authenticated [OF this run] c run show ?thesis
    by (auto simp: demo_state_def demo_request_def header_get_def demo_handler_def)
qed

theorem usage_accounting_witness:
  "\<exists>t d' n. CreateTenant (replicate 24 0) 0 ''acme'' '''' (Some no_limits) empty_db = (Inr t, d') \<and>
     ig_writer (snd (snd (ServeHTTP demo_env demo_handler demo_clock (demo_request (APIKey t) []) demo_upstream id (demo_state d'))))
       = RecordUsage 4 n ''traces'' 200 1 NewUsageWriter"
proof -
  obtain t d' p s' w where c: "CreateTenant (replicate 24 0) 0 ''acme'' '''' (Some no_limits) empty_db = (Inr t, d')"
    and run: "ServeHTTP demo_env demo_handler demo_clock (demo_request (APIKey t) []) demo_upstream id (demo_state d') = (Responded w, Some p, s')"
    by (rule demo_serve [of "[]"]) auto
  from usage_accounting [OF run] c run show ?thesis
    by (auto simp: demo_state_def demo_request_def signal_of_path_def demo_clock_def)
qed

theorem unauthenticated_rejected_witness:
  "\<exists>w d'. ServeHTTP demo_env demo_handler demo_clock (demo_request ''nokey'' []) demo_upstream id (demo_state demo_db)
     = (Responded w, None, (demo_state demo_db)\<lparr>ig_db := d'\<rparr>) \<and> rs_status w = 401"
proof -
  have p: "db_inv (ig_db (demo_state demo_db))" "\<not> next_fault (ig_db (demo_state demo_db))"
    "signal_of_path (rq_Path (demo_request ''nokey'' [])) = Some ''traces''"
    using demo_db_eq by (simp_all add: demo_state_def demo_request_def signal_of_path_def)
  have "\<not> key_holds (ig_db (demo_state demo_db)) k row" for k row
    by (simp add: demo_state_def demo_db_def empty_db_def key_holds_def live_key_def split: option.splits)
  from unauthenticated_rejected [OF p this] show ?thesis by blast
qed

end
