(* ===== verification/Syslog_Frame.thy ===== *)
theory Syslog_Frame
  imports Go_Strings
begin

text \<open>
  \<open>internal/syslog/frame.go\<close>: RFC 5425 octet-counted frames and newline-delimited frames on one
  stream, and the encoder of \<open>pool.go\<close>. A stream is the list of what the connection will deliver:
  bytes, and errors of a read (a deadline, a reset); the end of the list is EOF. The locale
  \<open>framing\<close> is the contract between an encoder and the scanner: whatever frames the encoder wrote,
  one after the other, are the frames the scanner returns.
\<close>

section \<open>Streams\<close>

datatype stream_event = Byte char | Fault go_error

type_synonym stream = "stream_event list"

text \<open>\<open>ReadString\<close> and \<open>ReadBytes\<close>: up to and including the delimiter, or all bytes before an error.\<close>

fun read_until :: "char \<Rightarrow> stream \<Rightarrow> string \<times> go_error option \<times> stream" where
  "read_until c [] = ([], Some EOF, [])"
| "read_until c (Fault e # s) = ([], Some e, s)"
| "read_until c (Byte b # s) =
     (if b = c then ([b], None, s) else case read_until c s of (line, err, rest) \<Rightarrow> (b # line, err, rest))"

fun read_full :: "nat \<Rightarrow> stream \<Rightarrow> string \<times> go_error option \<times> stream" where
  "read_full 0 s = ([], None, s)"
| "read_full (Suc n) [] = ([], Some EOF, [])"
| "read_full (Suc n) (Fault e # s) = ([], Some e, s)"
| "read_full (Suc n) (Byte b # s) = (case read_full n s of (buf, err, rest) \<Rightarrow> (b # buf, err, rest))"

section \<open>The scanner\<close>

datatype frame_error = ReadError go_error | ErrInvalidFrame | ErrFrameTooLarge

record FrameScanner =
  fs_reader :: stream
  fs_maxFrameBytes :: int64

definition NewFrameScanner :: "stream \<Rightarrow> int64 \<Rightarrow> FrameScanner" where
  "NewFrameScanner r maxFrameBytes = \<lparr>fs_reader = r, fs_maxFrameBytes = maxFrameBytes\<rparr>"

definition readOctetCountedFrame :: "int64 \<Rightarrow> stream \<Rightarrow> (frame_error + string) \<times> stream" where
  "readOctetCountedFrame maxFrameBytes s =
     (case read_until CHR '' '' s of
        (_, Some _, rest) \<Rightarrow> (Inl ErrInvalidFrame, rest)
      | (lenStr, None, rest) \<Rightarrow>
          (case parse_int (butlast lenStr) of
             None \<Rightarrow> (Inl ErrInvalidFrame, rest)
           | Some declaredLen \<Rightarrow>
               if declaredLen > maxFrameBytes then (Inl ErrFrameTooLarge, rest)
               else if declaredLen < 0 then (Inl ErrInvalidFrame, rest)
               else (case read_full (nat declaredLen) rest of
                       (_, Some _, rest') \<Rightarrow> (Inl ErrInvalidFrame, rest')
                     | (buf, None, rest') \<Rightarrow> (Inr buf, rest'))))"

abbreviation newline :: char where
  "newline \<equiv> CHR 0x0A"

definition readNewlineFrame :: "stream \<Rightarrow> (frame_error + string) \<times> stream" where
  "readNewlineFrame s =
     (case read_until newline s of
        (line, err, rest) \<Rightarrow>
          (case err of
             Some e \<Rightarrow> if line = [] then (Inl (ReadError e), rest) else
               (Inr (if last line = newline then butlast line else line), rest)
           | None \<Rightarrow> (Inr (if line \<noteq> [] \<and> last line = newline then butlast line else line), rest)))"

definition read_frame :: "int64 \<Rightarrow> stream \<Rightarrow> (frame_error + string) \<times> stream" where
  "read_frame maxFrameBytes s =
     (case s of
        [] \<Rightarrow> (Inl (ReadError EOF), [])
      | Fault e # rest \<Rightarrow> (Inl (ReadError e), rest)
      | Byte b # _ \<Rightarrow> if is_digit b then readOctetCountedFrame maxFrameBytes s else readNewlineFrame s)"

definition ReadFrame :: "FrameScanner \<Rightarrow> (frame_error + string) \<times> FrameScanner" where
  "ReadFrame fs = (case read_frame (fs_maxFrameBytes fs) (fs_reader fs) of (res, rest) \<Rightarrow> (res, fs\<lparr>fs_reader := rest\<rparr>))"

text \<open>The payload that \<open>CollectorPool.Forward\<close> writes.\<close>

definition octet_frame :: "string \<Rightarrow> string" where
  "octet_frame frame = format_int (int (length frame)) @ CHR '' '' # frame"

section \<open>Reading\<close>

lemma read_until_hit: "c \<notin> set p \<Longrightarrow> read_until c (map Byte (p @ [c]) @ s) = (p @ [c], None, s)"
  by (induction p) auto

lemma read_until_length:
  "read_until c s = (line, err, rest) \<Longrightarrow> length rest + length line \<le> length s \<and> (err = None \<longrightarrow> line \<noteq> [] \<and> last line = c)"
proof (induction c s arbitrary: line err rest rule: read_until.induct)
  case (3 c b s)
  then show ?case by (fastforce split: if_splits prod.splits)
qed auto

lemma read_full_hit: "read_full (length p) (map Byte p @ s) = (p, None, s)"
  by (induction p) auto

lemma read_full_length:
  "read_full n s = (buf, err, rest) \<Longrightarrow> length rest + length buf \<le> length s \<and> (err = None \<longrightarrow> length buf = n)"
proof (induction n s arbitrary: buf err rest rule: read_full.induct)
  case (4 n b s)
  then show ?case by (fastforce split: prod.splits)
qed auto

lemma readOctetCountedFrame_Inr:
  assumes "readOctetCountedFrame m s = (Inr f, rest)"
  obtains lenStr r1 n where "read_until CHR '' '' s = (lenStr, None, r1)" "0 \<le> n" "n \<le> m" "read_full (nat n) r1 = (f, None, rest)"
  using assms by (auto simp: readOctetCountedFrame_def not_less split: prod.splits option.splits if_splits)

text \<open>Every frame that is returned used up at least one byte, so a finite stream has finitely many.\<close>

lemma read_frame_progress: "read_frame m s = (Inr f, rest) \<Longrightarrow> length rest < length s"
proof -
  assume r: "read_frame m s = (Inr f, rest)"
  then obtain b s' where s: "s = Byte b # s'" by (auto simp: read_frame_def split: list.splits stream_event.splits)
  show ?thesis
  proof (cases "is_digit b")
    case True
    then have "readOctetCountedFrame m s = (Inr f, rest)" using r s by (simp add: read_frame_def)
    then obtain lenStr r1 n where u: "read_until CHR '' '' s = (lenStr, None, r1)" and f: "read_full (nat n) r1 = (f, None, rest)"
      by (rule readOctetCountedFrame_Inr)
    show ?thesis using read_until_length [OF u] read_full_length [OF f] by (cases lenStr) auto
  next
    case False
    then have "readNewlineFrame s = (Inr f, rest)" using r s by (simp add: read_frame_def)
    then obtain line err where l: "read_until newline s = (line, err, rest)" and n: "line \<noteq> []"
      using read_until_length [of newline s] by (auto simp: readNewlineFrame_def split: prod.splits option.splits if_splits)
    show ?thesis using read_until_length [OF l] n by (cases line) auto
  qed
qed

section \<open>The contract of a framing\<close>

text \<open>Taking \<open>n\<close> frames off a stream.\<close>

fun take_frames :: "(stream \<Rightarrow> (frame_error + string) \<times> stream) \<Rightarrow> nat \<Rightarrow> stream \<Rightarrow> (string list \<times> stream) option" where
  "take_frames dec 0 s = Some ([], s)"
| "take_frames dec (Suc n) s =
     (case dec s of
        (Inl _, _) \<Rightarrow> None
      | (Inr f, s') \<Rightarrow> (case take_frames dec n s' of None \<Rightarrow> None | Some (fs, r) \<Rightarrow> Some (f # fs, r)))"

locale framing =
  fixes enc :: "string \<Rightarrow> string"
    and dec :: "stream \<Rightarrow> (frame_error + string) \<times> stream"
    and ok :: "string \<Rightarrow> bool"
  assumes dec_enc: "ok f \<Longrightarrow> dec (map Byte (enc f) @ s) = (Inr f, s)"
begin

lemma dec_concat:
  "list_all ok fs \<Longrightarrow> take_frames dec (length fs) (map Byte (concat (map enc fs)) @ s) = Some (fs, s)"
  by (induction fs) (simp_all add: dec_enc)

text \<open>No two sequences of frames have the same encoding.\<close>

lemma enc_inj:
  assumes "list_all ok fs" "list_all ok gs" "length fs = length gs" "concat (map enc fs) = concat (map enc gs)"
  shows "fs = gs"
  using dec_concat [OF assms(1), of "[]"] dec_concat [OF assms(2), of "[]"] assms(3,4) by simp

end

lemma format_nat_digits: "set (format_int (int n)) \<subseteq> {c. is_digit c}"
  using format_uint_digits [of _ "int n"] by (auto simp: format_int_def)

interpretation octet_counted: framing octet_frame "read_frame m" "\<lambda>f. int (length f) \<le> m \<and> in_int64 (int (length f))" for m
proof
  fix f :: string and s assume ok: "int (length f) \<le> m \<and> in_int64 (int (length f))"
  let ?n = "format_int (int (length f))"
  obtain c cs where n: "?n = c # cs" using format_int_nonempty by (meson list.exhaust)
  have d: "is_digit c" using format_nat_digits [of "length f"] n by auto
  have sp: "CHR '' '' \<notin> set ?n" by (rule format_int_no_sep(2))
  have e: "map Byte (octet_frame f) @ s = map Byte (?n @ [CHR '' '']) @ (map Byte f @ s)" by (simp add: octet_frame_def)
  have "readOctetCountedFrame m (map Byte (octet_frame f) @ s) = (Inr f, s)"
    unfolding e readOctetCountedFrame_def read_until_hit [OF sp] using ok
    by (simp add: parse_format_int read_full_hit)
  then show "read_frame m (map Byte (octet_frame f) @ s) = (Inr f, s)"
    using n d by (simp add: read_frame_def octet_frame_def)
qed

interpretation newline_delimited: framing "\<lambda>f. f @ [newline]" "read_frame m" "\<lambda>f. newline \<notin> set f \<and> (f = [] \<or> \<not> is_digit (hd f))" for m
proof
  fix f s assume ok: "newline \<notin> set f \<and> (f = [] \<or> \<not> is_digit (hd f))"
  have "readNewlineFrame (map Byte (f @ [newline]) @ s) = (Inr f, s)"
    unfolding readNewlineFrame_def read_until_hit [OF conjunct1 [OF ok]] by simp
  moreover have "\<not> is_digit newline" by (simp add: is_digit_def)
  ultimately show "read_frame m (map Byte (f @ [newline]) @ s) = (Inr f, s)"
    using ok by (cases f) (simp_all add: read_frame_def)
qed

section \<open>Properties\<close>

text \<open>C22. What the gateway writes to the collector is unambiguous: any sequence of frames within the reader's limit, with whatever
  bytes in them (newlines, digits, empty frames), read back with the same octet-counted framing, is
  that sequence and leaves the rest of the stream untouched.\<close>

theorem octet_framing_roundtrip:
  assumes "list_all (\<lambda>f. int (length f) \<le> m \<and> in_int64 (int (length f))) fs"
  shows "take_frames (read_frame m) (length fs) (map Byte (concat (map octet_frame fs)) @ s) = Some (fs, s)"
  using octet_counted.dec_concat [OF assms] by simp

theorem octet_framing_roundtrip_witness:
  "take_frames (read_frame 64) 3 (map Byte (concat (map octet_frame [''a'' @ [newline] @ ''12 b'', '''', ''9'']))) =
     Some ([''a'' @ [newline] @ ''12 b'', '''', ''9''], [])"
  using octet_framing_roundtrip [of 64 "[''a'' @ [newline] @ ''12 b'', '''', ''9'']" "[]"] by (simp add: in_int64_def numeral_3_eq_3)

text \<open>C23. The frame limit: an octet-counted frame never exceeds the limit, and a declared length above it is
  refused before the body is read; newline framing has no limit at all.\<close>

theorem frame_limit:
  "(read_frame m s = (Inr f, rest) \<and> s \<noteq> [] \<and> (\<exists>b. hd s = Byte b \<and> is_digit b) \<longrightarrow> int (length f) \<le> m) \<and>
   (int (length g) > m \<and> in_int64 (int (length g)) \<longrightarrow> fst (read_frame m (map Byte (octet_frame g) @ s)) = Inl ErrFrameTooLarge) \<and>
   read_frame m (map Byte (replicate n CHR ''x'' @ [newline]) @ s) = (Inr (replicate n CHR ''x''), s)"
proof (intro conjI impI)
  assume a: "read_frame m s = (Inr f, rest) \<and> s \<noteq> [] \<and> (\<exists>b. hd s = Byte b \<and> is_digit b)"
  then have "readOctetCountedFrame m s = (Inr f, rest)" by (auto simp: read_frame_def split: list.splits)
  then obtain n lenStr r1 where "n \<le> m" "0 \<le> n" and r: "read_full (nat n) r1 = (f, None, rest)"
    by (rule readOctetCountedFrame_Inr)
  then show "int (length f) \<le> m" using read_full_length [OF r] by simp
next
  assume a: "int (length g) > m \<and> in_int64 (int (length g))"
  let ?n = "format_int (int (length g))"
  obtain c cs where n: "?n = c # cs" using format_int_nonempty by (meson list.exhaust)
  have d: "is_digit c" using format_nat_digits [of "length g"] n by auto
  have sp: "CHR '' '' \<notin> set ?n" by (rule format_int_no_sep(2))
  have e: "map Byte (octet_frame g) @ s = map Byte (?n @ [CHR '' '']) @ (map Byte g @ s)" by (simp add: octet_frame_def)
  have "fst (readOctetCountedFrame m (map Byte (octet_frame g) @ s)) = Inl ErrFrameTooLarge"
    unfolding e readOctetCountedFrame_def read_until_hit [OF sp] using a by (simp add: parse_format_int)
  then show "fst (read_frame m (map Byte (octet_frame g) @ s)) = Inl ErrFrameTooLarge"
    using n d by (simp add: read_frame_def octet_frame_def)
next
  show "read_frame m (map Byte (replicate n CHR ''x'' @ [newline]) @ s) = (Inr (replicate n CHR ''x''), s)"
    by (rule newline_delimited.dec_enc) (cases n; simp add: is_digit_def)
qed

theorem frame_limit_witness:
  "fst (read_frame 3 (map Byte (octet_frame ''abcd''))) = Inl ErrFrameTooLarge"
  using frame_limit [of 3 "[]" _ _ "''abcd''" 0] by (simp add: in_int64_def)

end
