(* ===== verification/Syslog_Pool.thy ===== *)
theory Syslog_Pool
  imports Syslog_Frame
begin

text \<open>
  \<open>internal/syslog/pool.go\<close>: the pool of TCP connections to the collector. The network is explicit: a
  script says which dials and which writes fail (an exhausted script succeeds), and the model keeps
  the open connections and the payloads that were written completely. The connections that worker
  goroutines hold between \<open>getConn\<close> and \<open>returnConn\<close> are part of the state of the concurrent model.
\<close>

section \<open>The network\<close>

record net =
  nt_dial_faults :: "bool list"
  nt_write_faults :: "bool list"
  nt_next :: nat
  nt_open :: "nat set"
  nt_delivered :: "(nat \<times> string) list"

definition new_net :: net where
  "new_net = \<lparr>nt_dial_faults = [], nt_write_faults = [], nt_next = 0, nt_open = {}, nt_delivered = []\<rparr>"

definition first_fault :: "bool list \<Rightarrow> bool" where
  "first_fault fs \<longleftrightarrow> fs \<noteq> [] \<and> hd fs"

definition DialTimeout :: "net \<Rightarrow> nat result \<times> net" where
  "DialTimeout n =
     (let n1 = n\<lparr>nt_dial_faults := tl (nt_dial_faults n)\<rparr> in
      if first_fault (nt_dial_faults n) then (Inl (Msg ''dial tcp''), n1)
      else (Inr (nt_next n), n1\<lparr>nt_next := Suc (nt_next n), nt_open := insert (nt_next n) (nt_open n)\<rparr>))"

definition conn_Write :: "nat \<Rightarrow> string \<Rightarrow> net \<Rightarrow> unit result \<times> net" where
  "conn_Write c payload n =
     (let n1 = n\<lparr>nt_write_faults := tl (nt_write_faults n)\<rparr> in
      if first_fault (nt_write_faults n) then (Inl (Msg ''write tcp''), n1)
      else (Inr (), n1\<lparr>nt_delivered := nt_delivered n @ [(c, payload)]\<rparr>))"

definition conn_Close :: "nat \<Rightarrow> net \<Rightarrow> net" where
  "conn_Close c n = n\<lparr>nt_open := nt_open n - {c}\<rparr>"

section \<open>The pool\<close>

record poolConn =
  pc_conn :: nat
  pc_dead :: bool

record CollectorPool =
  cp_addr :: string
  cp_maxConns :: int64
  cp_backoff :: time
  cp_conns :: "poolConn list"
  cp_healthy :: bool

definition NewCollectorPool :: "string \<Rightarrow> int64 \<Rightarrow> time \<Rightarrow> CollectorPool" where
  "NewCollectorPool addr maxConns backoff =
     \<lparr>cp_addr = addr, cp_maxConns = maxConns, cp_backoff = backoff, cp_conns = [], cp_healthy = True\<rparr>"

fun take_live :: "poolConn list \<Rightarrow> (nat \<times> poolConn list) option" where
  "take_live [] = None"
| "take_live (pc # pcs) =
     (if \<not> pc_dead pc then Some (pc_conn pc, pcs)
      else case take_live pcs of None \<Rightarrow> None | Some (c, rest) \<Rightarrow> Some (c, pc # rest))"

definition getConn :: "CollectorPool \<times> net \<Rightarrow> nat result \<times> CollectorPool \<times> net" where
  "getConn = (\<lambda>(p, n).
     case take_live (cp_conns p) of
       Some (c, rest) \<Rightarrow> (Inr c, p\<lparr>cp_conns := rest\<rparr>, n)
     | None \<Rightarrow>
         (case DialTimeout n of
            (Inl err, n1) \<Rightarrow> (Inl err, p\<lparr>cp_healthy := False\<rparr>, n1)
          | (Inr c, n1) \<Rightarrow> (Inr c, p\<lparr>cp_healthy := True\<rparr>, n1)))"

definition closeGracefully :: "nat \<Rightarrow> net \<Rightarrow> net" where
  "closeGracefully c n = conn_Close c n"

definition returnConn :: "nat \<Rightarrow> CollectorPool \<times> net \<Rightarrow> CollectorPool \<times> net" where
  "returnConn c = (\<lambda>(p, n).
     if int (length (cp_conns p)) < cp_maxConns p
     then (p\<lparr>cp_conns := cp_conns p @ [\<lparr>pc_conn = c, pc_dead = False\<rparr>]\<rparr>, n)
     else (p, closeGracefully c n))"

definition markDead :: "nat \<Rightarrow> CollectorPool \<times> net \<Rightarrow> CollectorPool \<times> net" where
  "markDead c = (\<lambda>(p, n). (p, conn_Close c n))"

definition write_conn :: "nat \<Rightarrow> string \<Rightarrow> CollectorPool \<times> net \<Rightarrow> unit result \<times> CollectorPool \<times> net" where
  "write_conn c payload = (\<lambda>(p, n). case conn_Write c payload n of (r, n') \<Rightarrow> (r, p, n'))"

definition Forward :: "string \<Rightarrow> CollectorPool \<times> net \<Rightarrow> unit result \<times> CollectorPool \<times> net" where
  "Forward frame s =
     (let payload = octet_frame frame in
      case getConn s of
        (Inl err, s1) \<Rightarrow> (Inl err, s1)
      | (Inr conn, s1) \<Rightarrow>
          (case write_conn conn payload s1 of
             (Inr _, s2) \<Rightarrow> (Inr (), returnConn conn s2)
           | (Inl _, s2) \<Rightarrow>
               (case getConn (markDead conn s2) of
                  (Inl err2, s3) \<Rightarrow> (Inl err2, s3)
                | (Inr conn2, s3) \<Rightarrow>
                    (case write_conn conn2 payload s3 of
                       (Inl err, s4) \<Rightarrow> (Inl err, markDead conn2 s4)
                     | (Inr _, s4) \<Rightarrow> (Inr (), returnConn conn2 s4)))))"

definition Healthy :: "CollectorPool \<Rightarrow> bool" where
  "Healthy p = cp_healthy p"

definition Close_pool :: "CollectorPool \<times> net \<Rightarrow> CollectorPool \<times> net" where
  "Close_pool = (\<lambda>(p, n).
     (p\<lparr>cp_conns := [], cp_healthy := False\<rparr>, fold conn_Close (map pc_conn (filter (\<lambda>pc. \<not> pc_dead pc) (cp_conns p))) n))"

section \<open>Interleaved use\<close>

text \<open>
  The three critical sections as steps, with the set of connections that workers hold: a worker takes
  a connection, and later gives it back or, after a failed write, kills it.
\<close>

datatype pool_event = EvGet | EvReturn nat | EvKill nat

type_synonym pool_system = "(CollectorPool \<times> net) \<times> nat set"

fun pool_step :: "pool_event \<Rightarrow> pool_system \<Rightarrow> pool_system" where
  "pool_step EvGet (s, held) = (case getConn s of (Inl _, s') \<Rightarrow> (s', held) | (Inr c, s') \<Rightarrow> (s', insert c held))"
| "pool_step (EvReturn c) (s, held) = (if c \<in> held then (returnConn c s, held - {c}) else (s, held))"
| "pool_step (EvKill c) (s, held) = (if c \<in> held then (markDead c s, held - {c}) else (s, held))"

definition pooled :: "CollectorPool \<Rightarrow> nat list" where
  "pooled p = map pc_conn (cp_conns p)"

text \<open>Exclusive use, no leak, bounded pool.\<close>

definition pool_inv :: "pool_system \<Rightarrow> bool" where
  "pool_inv ps = (case ps of ((p, n), held) \<Rightarrow>
     0 \<le> cp_maxConns p \<and> int (length (cp_conns p)) \<le> cp_maxConns p \<and> list_all (\<lambda>pc. \<not> pc_dead pc) (cp_conns p) \<and>
     distinct (pooled p) \<and> set (pooled p) \<inter> held = {} \<and> nt_open n = set (pooled p) \<union> held \<and> (\<forall>c \<in> nt_open n. c < nt_next n))"

lemma pool_step_inv: "pool_inv ps \<Longrightarrow> pool_inv (pool_step e ps)"
proof -
  obtain p n held where ps: "ps = ((p, n), held)" by (metis prod.collapse)
  assume "pool_inv ps"
  note i = this [unfolded ps pool_inv_def, simplified]
  show ?thesis
  proof (cases e)
    case EvGet
    show ?thesis
    proof (cases "cp_conns p")
      case Nil
      then show ?thesis using i ps EvGet
        by (auto simp: pool_inv_def getConn_def DialTimeout_def Let_def pooled_def less_Suc_eq split: if_splits)
    next
      case (Cons pc rest)
      then have "take_live (cp_conns p) = Some (pc_conn pc, rest)" using i by simp
      then show ?thesis using i ps EvGet Cons by (auto simp: pool_inv_def getConn_def pooled_def)
    qed
  next
    case (EvReturn c)
    then show ?thesis using i ps
      by (auto simp: pool_inv_def returnConn_def closeGracefully_def conn_Close_def pooled_def)
  next
    case (EvKill c)
    then show ?thesis using i ps by (auto simp: pool_inv_def markDead_def conn_Close_def)
  qed
qed

interpretation pool_use: step_machine pool_step pool_inv
  by unfold_locales (rule pool_step_inv)

section \<open>What Forward delivers\<close>

lemma getConn_delivered: "getConn s = (r, s') \<Longrightarrow> nt_delivered (snd s') = nt_delivered (snd s)"
  by (auto simp: getConn_def DialTimeout_def Let_def split: prod.splits option.splits if_splits)

lemma put_delivered [simp]:
  "nt_delivered (snd (returnConn c s)) = nt_delivered (snd s)" "nt_delivered (snd (markDead c s)) = nt_delivered (snd s)"
  by (auto simp: returnConn_def markDead_def closeGracefully_def conn_Close_def split: prod.splits)

lemma write_delivered:
  "write_conn c p s = (r, s') \<Longrightarrow> nt_delivered (snd s') = nt_delivered (snd s) @ (case r of Inl _ \<Rightarrow> [] | Inr _ \<Rightarrow> [(c, p)])"
  by (auto simp: write_conn_def conn_Write_def Let_def split: prod.splits if_splits)

lemma Forward_delivered:
  assumes "Forward frame s = (r, s')"
  shows "case r of Inl _ \<Rightarrow> nt_delivered (snd s') = nt_delivered (snd s)
     | Inr _ \<Rightarrow> \<exists>c. nt_delivered (snd s') = nt_delivered (snd s) @ [(c, octet_frame frame)]"
  using assms unfolding Forward_def Let_def
  by (auto split: prod.splits sum.splits dest!: getConn_delivered write_delivered)

text \<open>\<open>Forward\<close> is a sequence of the interleaved steps, so it keeps the pool's invariant.\<close>

lemma write_conn_pool: "write_conn c p s = (r, s') \<Longrightarrow> pool_inv (s', held) = pool_inv (s, held)"
  by (auto simp: write_conn_def conn_Write_def Let_def pool_inv_def split: prod.splits if_splits)

lemma getConn_inv:
  assumes "pool_inv (s, held)" "getConn s = (r, s')"
  shows "case r of Inl _ \<Rightarrow> pool_inv (s', held) | Inr c \<Rightarrow> pool_inv (s', insert c held) \<and> c \<notin> held"
proof -
  have "pool_inv (case r of Inl _ \<Rightarrow> (s', held) | Inr c \<Rightarrow> (s', insert c held))"
    using pool_step_inv [OF assms(1), of EvGet] assms(2) by (simp split: sum.splits)
  moreover have "c \<notin> held" if "r = Inr c" for c
    using assms that by (cases s; cases "cp_conns (fst s)")
      (auto simp: pool_inv_def getConn_def DialTimeout_def Let_def pooled_def split: if_splits)
  ultimately show ?thesis by (cases r) auto
qed

lemma put_inv:
  assumes "pool_inv (s, insert c held)" "c \<notin> held"
  shows "pool_inv (returnConn c s, held)" "pool_inv (markDead c s, held)"
  using pool_step_inv [OF assms(1), of "EvReturn c"] pool_step_inv [OF assms(1), of "EvKill c"] assms(2) by simp_all

lemma Forward_inv:
  assumes "pool_inv (s, held)"
  shows "pool_inv (snd (Forward frame s), held)"
proof -
  obtain r1 s1 where g: "getConn s = (r1, s1)" by (metis prod.exhaust)
  note i1 = getConn_inv [OF assms g]
  show ?thesis
  proof (cases r1)
    case (Inl e)
    then show ?thesis using g i1 by (simp add: Forward_def)
  next
    case (Inr c)
    obtain r2 s2 where w: "write_conn c (octet_frame frame) s1 = (r2, s2)" by (metis prod.exhaust)
    have i2: "pool_inv (s2, insert c held)" "c \<notin> held" using i1 Inr write_conn_pool [OF w] by simp_all
    show ?thesis
    proof (cases r2)
      case ok: (Inr u)
      then show ?thesis using g Inr w put_inv(1) [OF i2] by (simp add: Forward_def)
    next
      case bad: (Inl e)
      obtain r3 s3 where g2: "getConn (markDead c s2) = (r3, s3)" by (metis prod.exhaust)
      note i3 = getConn_inv [OF put_inv(2) [OF i2] g2]
      show ?thesis
      proof (cases r3)
        case dead: (Inl e2)
        then show ?thesis using g Inr w bad g2 i3 by (simp add: Forward_def)
      next
        case c2: (Inr c2)
        obtain r4 s4 where w2: "write_conn c2 (octet_frame frame) s3 = (r4, s4)" by (metis prod.exhaust)
        have i4: "pool_inv (s4, insert c2 held)" "c2 \<notin> held" using i3 c2 write_conn_pool [OF w2] by simp_all
        show ?thesis using g Inr w bad g2 c2 w2 put_inv [OF i4] by (cases r4) (simp_all add: Forward_def)
      qed
    qed
  qed
qed

section \<open>Properties\<close>

text \<open>C25. Sharing the pool is safe: under every interleaving of workers taking, returning and killing
  connections, with any failures, no connection is held by a worker and pooled at the same time, the
  pool never exceeds its bound, and every open connection is either pooled or held (none leaks).\<close>

theorem pool_exclusive:
  assumes "0 \<le> maxConns"
    and "fold pool_step es ((NewCollectorPool addr maxConns b, new_net\<lparr>nt_dial_faults := df\<rparr>), {}) = ((p, n), held)"
  shows "int (length (cp_conns p)) \<le> cp_maxConns p \<and> distinct (pooled p) \<and> set (pooled p) \<inter> held = {} \<and>
     nt_open n = set (pooled p) \<union> held"
proof -
  have "pool_inv ((NewCollectorPool addr maxConns b, new_net\<lparr>nt_dial_faults := df\<rparr>), {})"
    using assms(1) by (simp add: pool_inv_def NewCollectorPool_def new_net_def pooled_def)
  from pool_use.inv_run [OF this, of es] show ?thesis unfolding assms(2) by (simp add: pool_inv_def)
qed

theorem pool_exclusive_witness:
  "let ((p, n), held) = fold pool_step [EvGet, EvGet, EvReturn 0, EvGet, EvGet, EvKill 1]
      ((NewCollectorPool ''c:5140'' 1 0, new_net\<lparr>nt_dial_faults := [False, False, True]\<rparr>), {})
   in int (length (cp_conns p)) \<le> cp_maxConns p \<and> set (pooled p) \<inter> held = {}"
proof -
  obtain p n held where e: "fold pool_step [EvGet, EvGet, EvReturn 0, EvGet, EvGet, EvKill 1]
      ((NewCollectorPool ''c:5140'' 1 0, new_net\<lparr>nt_dial_faults := [False, False, True]\<rparr>), {}) = ((p, n), held)"
    by (metis prod.collapse)
  have "(0::int) \<le> 1" by simp
  from pool_exclusive [OF this e] show ?thesis unfolding e by simp
qed

text \<open>Forwarding a frame delivers it exactly once when it succeeds and not at all when it fails, and
  after it the pool owns exactly the connections it owned before plus what it kept open.\<close>

lemma forward_exactly_once:
  assumes "pool_inv ((p, n), {})" and "Forward frame (p, n) = (r, p', n')"
  shows "(case r of Inl _ \<Rightarrow> nt_delivered n' = nt_delivered n
       | Inr _ \<Rightarrow> \<exists>c. nt_delivered n' = nt_delivered n @ [(c, octet_frame frame)]) \<and>
     nt_open n' = set (pooled p') \<and> int (length (cp_conns p')) \<le> cp_maxConns p'"
  using Forward_delivered [OF assms(2)] Forward_inv [OF assms(1), of frame] assms(2)
  by (auto simp: pool_inv_def split: sum.splits)

text \<open>The retry is not with a fresh connection: when two pooled connections have gone stale, a frame is
  refused after two failed writes without a single dial, even if the collector is back.\<close>

lemma stale_connections_defeat_retry:
  assumes "cp_conns p = a # b # rest" "\<not> pc_dead a" "\<not> pc_dead b" "nt_write_faults n = True # True # fs"
  shows "Forward frame (p, n) =
     (Inl (Msg ''write tcp''), p\<lparr>cp_conns := rest\<rparr>, n\<lparr>nt_write_faults := fs, nt_open := nt_open n - {pc_conn a} - {pc_conn b}\<rparr>)"
  using assms by (simp add: Forward_def getConn_def write_conn_def conn_Write_def Let_def markDead_def conn_Close_def first_fault_def)

end
