(* ===== verification/Syslog_Stamp.thy ===== *)
theory Syslog_Stamp
  imports Go_Strings
begin

text \<open>
  \<open>internal/syslog/rfc5424.go\<close>: writing the tenant into an RFC 5424 message. Beside the code's string
  surgery the theory has the message as data (PRI, six header fields, structured-data blocks, MSG),
  a printer, and a parser; the code is shown to be parse, stamp, print.
\<close>

section \<open>The code\<close>

definition tenantSDIDPrefix :: string where
  "tenantSDIDPrefix = ''[tenant@''"

definition isTenantSDID :: "string \<Rightarrow> bool" where
  "isTenantSDID block = has_prefix block tenantSDIDPrefix"

text \<open>The loop of \<open>parseSDAndMsg\<close> at a given rest of the section.\<close>

function parse_blocks :: "string \<Rightarrow> string list \<times> string" where
  "parse_blocks section =
     (case section of
        [] \<Rightarrow> ([], [])
      | c # _ \<Rightarrow>
          if c = CHR ''['' then
            (case index_byte section CHR '']'' of
               None \<Rightarrow> ([], section)
             | Some e \<Rightarrow> (case parse_blocks (drop (Suc e) section) of (bs, msg) \<Rightarrow> (take (Suc e) section # bs, msg)))
          else if c = CHR '' '' then ([], trim_left section CHR '' '')
          else ([], section))"
  by auto
termination
  by (relation "measure length") auto

declare parse_blocks.simps [simp del]

definition parseSDAndMsg :: "string \<Rightarrow> string list \<times> string" where
  "parseSDAndMsg section =
     (if section = ''-'' then ([], '''')
      else if has_prefix section ''- '' then ([], trim_left (drop 2 section) CHR '' '')
      else parse_blocks section)"

definition tenant_block :: "int64 \<Rightarrow> string" where
  \<open>tenant_block tenantID = ''[tenant@'' @ format_int tenantID @ '' tenant-id="'' @ format_int tenantID @ ''"]''\<close>

definition msg_prefix :: "int64 \<Rightarrow> string \<Rightarrow> string" where
  "msg_prefix tenantID tenantName = ''['' @ format_int tenantID @ '']['' @ tenantName @ ''] ''"

definition StampSyslogMessage :: "string \<Rightarrow> int64 \<Rightarrow> string \<Rightarrow> string" where
  "StampSyslogMessage rawMsg tenantID tenantName =
     (if rawMsg = [] \<or> hd rawMsg \<noteq> CHR ''<'' then rawMsg
      else case index_byte rawMsg CHR ''>'' of
        None \<Rightarrow> rawMsg
      | Some priEnd \<Rightarrow>
          (let afterPRI = trim_left (drop (Suc priEnd) rawMsg) CHR '' '';
               parts = split_n 7 CHR '' '' afterPRI
           in if length parts < 7 then rawMsg
              else (let header = take 6 parts;
                        (sdBlocks, msg) = parseSDAndMsg (parts ! 6);
                        filtered = filter (\<lambda>b. \<not> isTenantSDID b) sdBlocks @ [tenant_block tenantID];
                        newSD = (if filtered = [] then ''-'' else concat filtered)
                    in take (Suc priEnd) rawMsg @ join CHR '' '' header @ CHR '' '' # newSD @
                       (if msg \<noteq> '''' then CHR '' '' # msg_prefix tenantID tenantName @ msg else ''''))))"

section \<open>Messages as data\<close>

record syslog_message =
  sm_pri :: string
  sm_header :: "string list"
  sm_sd :: "string list"
  sm_msg :: string

definition render_syslog :: "syslog_message \<Rightarrow> string" where
  "render_syslog m = CHR ''<'' # sm_pri m @ CHR ''>'' # join CHR '' '' (sm_header m) @ CHR '' '' #
     (if sm_sd m = [] then ''-'' else concat (sm_sd m)) @ (if sm_msg m = '''' then '''' else CHR '' '' # sm_msg m)"

definition parse_syslog :: "string \<Rightarrow> syslog_message option" where
  "parse_syslog raw =
     (if raw = [] \<or> hd raw \<noteq> CHR ''<'' then None
      else case index_byte raw CHR ''>'' of
        None \<Rightarrow> None
      | Some e \<Rightarrow>
          (let parts = split_n 7 CHR '' '' (trim_left (drop (Suc e) raw) CHR '' '') in
           if length parts < 7 then None
           else Some \<lparr>sm_pri = drop 1 (take e raw), sm_header = take 6 parts,
                  sm_sd = fst (parseSDAndMsg (parts ! 6)), sm_msg = snd (parseSDAndMsg (parts ! 6))\<rparr>))"

definition stamp_message :: "int64 \<Rightarrow> string \<Rightarrow> syslog_message \<Rightarrow> syslog_message" where
  "stamp_message tenantID tenantName m =
     m\<lparr>sm_sd := filter (\<lambda>b. \<not> isTenantSDID b) (sm_sd m) @ [tenant_block tenantID],
       sm_msg := (if sm_msg m = '''' then '''' else msg_prefix tenantID tenantName @ sm_msg m)\<rparr>"

text \<open>A structured-data element: brackets around text without a closing bracket.\<close>

definition wf_block :: "string \<Rightarrow> bool" where
  "wf_block b \<longleftrightarrow> (\<exists>x. b = CHR ''['' # x @ [CHR '']''] \<and> CHR '']'' \<notin> set x)"

definition wf_parts :: "syslog_message \<Rightarrow> bool" where
  "wf_parts m \<longleftrightarrow> CHR ''>'' \<notin> set (sm_pri m) \<and> length (sm_header m) = 6 \<and>
     list_all (\<lambda>f. CHR '' '' \<notin> set f) (sm_header m) \<and> hd (sm_header m) \<noteq> '''' \<and> list_all wf_block (sm_sd m)"

definition wf_message :: "syslog_message \<Rightarrow> bool" where
  "wf_message m \<longleftrightarrow> wf_parts m \<and> (sm_msg m = '''' \<or> hd (sm_msg m) \<noteq> CHR '' '')"

section \<open>Parsing\<close>

lemma index_byte_take: "index_byte s c = Some i \<Longrightarrow> c \<notin> set (take i s) \<and> s = take i s @ c # drop (Suc i) s"
  using index_byte_Some index_byte_split by metis

lemma wf_block_take:
  assumes "section = CHR ''['' # r" "index_byte section CHR '']'' = Some e"
  shows "wf_block (take (Suc e) section)"
proof -
  note t = index_byte_take [OF assms(2)]
  obtain k where e: "e = Suc k" using assms by (cases e) auto
  have "take (Suc e) section = take e section @ [CHR '']'']"
    using t by (metis append_take_drop_id index_byte_Some assms(2) take_Suc_conv_app_nth)
  moreover have "take e section = CHR ''['' # take k r" by (simp add: e assms(1))
  ultimately show ?thesis using t unfolding wf_block_def by (metis append_Cons list.set_intros(2))
qed

lemma parse_blocks_bracket:
  assumes "s = CHR ''['' # r" "index_byte s CHR '']'' = Some e"
  shows "parse_blocks s = (take (Suc e) s # fst (parse_blocks (drop (Suc e) s)), snd (parse_blocks (drop (Suc e) s)))"
  by (subst parse_blocks.simps) (use assms in \<open>auto simp: case_prod_unfold\<close>)

lemma parse_blocks_other:
  assumes "s = [] \<or> hd s \<noteq> CHR ''['' \<or> index_byte s CHR '']'' = None"
  shows "parse_blocks s = ([], if s \<noteq> [] \<and> hd s = CHR '' '' then trim_left s CHR '' '' else s)"
  using assms by (subst parse_blocks.simps) (auto split: list.splits)

lemma parse_blocks_wf: "list_all wf_block (fst (parse_blocks s)) \<and> (snd (parse_blocks s) = '''' \<or> hd (snd (parse_blocks s)) \<noteq> CHR '' '')"
proof (induction s rule: parse_blocks.induct)
  case (1 s)
  show ?case
  proof (cases s)
    case (Cons c r)
    show ?thesis
    proof (cases "c = CHR ''['' \<and> index_byte s CHR '']'' \<noteq> None")
      case True
      then obtain e where e: "index_byte s CHR '']'' = Some e" by blast
      have "list_all wf_block (fst (parse_blocks (drop (Suc e) s))) \<and>
          (snd (parse_blocks (drop (Suc e) s)) = '''' \<or> hd (snd (parse_blocks (drop (Suc e) s))) \<noteq> CHR '' '')"
        using "1.IH" [OF Cons _ e] True by simp
      moreover have "wf_block (take (Suc e) s)" using wf_block_take [OF _ e] Cons True by simp
      ultimately show ?thesis
        using parse_blocks_bracket [OF _ e] Cons True by (simp del: index_byte.simps)
    next
      case False
      then show ?thesis
        using parse_blocks_other [of s] Cons trim_left_no_lead [of s "CHR '' ''"] by auto
    qed
  qed (simp add: parse_blocks_other)
qed

lemma parseSDAndMsg_wf: "list_all wf_block (fst (parseSDAndMsg s)) \<and> (snd (parseSDAndMsg s) = '''' \<or> hd (snd (parseSDAndMsg s)) \<noteq> CHR '' '')"
  using parse_blocks_wf [of s] trim_left_no_lead [of "drop 2 s" "CHR '' ''"] by (auto simp: parseSDAndMsg_def)

lemma parse_syslog_wf:
  assumes "parse_syslog raw = Some m"
  shows "wf_message m"
proof -
  from assms obtain e where e: "index_byte raw CHR ''>'' = Some e" and r: "raw \<noteq> []" "hd raw = CHR ''<''"
    by (auto simp: parse_syslog_def split: if_splits option.splits)
  define after where "after = trim_left (drop (Suc e) raw) CHR '' ''"
  define parts where "parts = split_n 7 CHR '' '' after"
  have l: "\<not> length parts < 7" and m: "m = \<lparr>sm_pri = drop 1 (take e raw), sm_header = take 6 parts,
      sm_sd = fst (parseSDAndMsg (parts ! 6)), sm_msg = snd (parseSDAndMsg (parts ! 6))\<rparr>"
    using assms e r by (auto simp: parse_syslog_def Let_def parts_def after_def split: if_splits)
  have l7: "length parts = 7" using l length_split_n [of 7 "CHR '' ''" after] by (simp add: parts_def)
  have sp: "CHR '' '' \<notin> set (parts ! i)" if "i < 6" for i
    using split_n_parts [of i 7 "CHR '' ''" after] that l7 by (simp add: parts_def)
  have hd: "hd parts \<noteq> ''''"
  proof
    assume h: "hd parts = ''''"
    obtain p q ps where ps: "parts = p # q # ps" using l7 by (cases parts; cases "tl parts") auto
    have "after = join CHR '' '' parts" unfolding parts_def using join_split_n [of "CHR '' ''" 6 after] by simp
    then have "after \<noteq> []" "hd after = CHR '' ''" using h ps by simp_all
    then show False using trim_left_no_lead [of "drop (Suc e) raw" "CHR '' ''"] by (simp add: after_def)
  qed
  have "list_all (\<lambda>f. CHR '' '' \<notin> set f) (take 6 parts)" using sp l7 by (simp add: list_all_length)
  moreover have "hd (take 6 parts) \<noteq> ''''" using hd by simp
  moreover have "CHR ''>'' \<notin> set (drop 1 (take e raw))" using index_byte_take [OF e] by (meson in_set_dropD)
  ultimately show ?thesis using l7 parseSDAndMsg_wf [of "parts ! 6"] by (simp add: m wf_message_def wf_parts_def)
qed

section \<open>Printing then parsing\<close>

lemma parse_block_step: "wf_block b \<Longrightarrow> parse_blocks (b @ s) = (case parse_blocks s of (bs, msg) \<Rightarrow> (b # bs, msg))"
proof -
  assume "wf_block b"
  then obtain x where b: "b = CHR ''['' # x @ [CHR '']'']" "CHR '']'' \<notin> set x" by (auto simp: wf_block_def)
  have "index_byte (b @ s) CHR '']'' = Some (Suc (length x))"
    using index_byte_append [of "CHR '']''" "CHR ''['' # x" s] b by simp
  from parse_blocks_bracket [OF _ this, of "x @ CHR '']'' # s"] b show ?thesis by (simp add: case_prod_unfold)
qed

lemma parse_blocks_concat:
  "list_all wf_block bs \<Longrightarrow> parse_blocks (concat bs @ s) = (case parse_blocks s of (bs', msg) \<Rightarrow> (bs @ bs', msg))"
  by (induction bs) (simp_all add: parse_block_step case_prod_unfold)

lemma parse_tail: "parse_blocks (if msg = '''' then '''' else CHR '' '' # msg) = ([], trim_left msg CHR '' '')"
  by (simp add: parse_blocks_other trim_left_def)

lemma parse_sd_render:
  assumes "list_all wf_block bs"
  shows "parseSDAndMsg ((if bs = [] then ''-'' else concat bs) @ (if msg = '''' then '''' else CHR '' '' # msg)) = (bs, trim_left msg CHR '' '')"
proof (cases bs)
  case Nil
  then show ?thesis by (simp add: parseSDAndMsg_def trim_left_def)
next
  case (Cons b bs')
  then obtain x where b: "b = CHR ''['' # x" using assms by (auto simp: wf_block_def)
  let ?t = "if msg = '''' then '''' else CHR '' '' # msg"
  have "parseSDAndMsg (concat bs @ ?t) = parse_blocks (concat bs @ ?t)"
    by (simp add: parseSDAndMsg_def Cons b)
  also have "\<dots> = (bs, trim_left msg CHR '' '')" unfolding parse_blocks_concat [OF assms] parse_tail by simp
  finally show ?thesis using Cons by simp
qed

lemma split_n_join:
  "list_all (\<lambda>f. c \<notin> set f) fs \<Longrightarrow> fs \<noteq> [] \<Longrightarrow> split_n (Suc (length fs)) c (join c fs @ c # s) = fs @ [s]"
proof (induction fs)
  case (Cons f fs)
  show ?case
  proof (cases fs)
    case Nil
    then show ?thesis using Cons.prems by (simp add: index_byte_append)
  next
    case (Cons g gs)
    have "split_n (Suc (Suc (length fs))) c (f @ c # (join c fs @ c # s)) = f # split_n (Suc (length fs)) c (join c fs @ c # s)"
      using Cons.prems by (intro split_n_hit) simp
    then show ?thesis using Cons.IH Cons.prems \<open>fs = g # gs\<close> by simp
  qed
qed simp

lemma parse_render_parts:
  assumes "wf_parts m"
  shows "parse_syslog (render_syslog m) = Some (m\<lparr>sm_msg := trim_left (sm_msg m) CHR '' ''\<rparr>)"
proof -
  let ?sd = "(if sm_sd m = [] then ''-'' else concat (sm_sd m)) @ (if sm_msg m = '''' then '''' else CHR '' '' # sm_msg m)"
  let ?rest = "join CHR '' '' (sm_header m) @ CHR '' '' # ?sd"
  note w = assms [unfolded wf_parts_def]
  have r: "render_syslog m = (CHR ''<'' # sm_pri m) @ CHR ''>'' # ?rest" by (simp add: render_syslog_def)
  have e: "index_byte (render_syslog m) CHR ''>'' = Some (length (CHR ''<'' # sm_pri m))"
    unfolding r by (rule index_byte_append) (use w in simp)
  obtain f fs where h: "sm_header m = f # fs" "f \<noteq> ''''" "CHR '' '' \<notin> set f" using w by (cases "sm_header m") auto
  have "hd (join CHR '' '' (sm_header m)) \<noteq> CHR '' ''" using h by (cases f; cases fs) auto
  moreover have "join CHR '' '' (sm_header m) \<noteq> []" using h by (cases fs) auto
  ultimately have tl: "trim_left ?rest CHR '' '' = ?rest" by (intro trim_left_id) auto
  have "split_n (Suc (length (sm_header m))) CHR '' '' ?rest = sm_header m @ [?sd]"
    by (rule split_n_join) (use w h in simp_all)
  then have sp: "split_n 7 CHR '' '' ?rest = sm_header m @ [?sd]" using w by (simp add: eval_nat_numeral)
  have l6: "length (sm_header m) = 6" using w by simp
  have p: "parseSDAndMsg ?sd = (sm_sd m, trim_left (sm_msg m) CHR '' '')" by (rule parse_sd_render) (use w in simp)
  show ?thesis
    unfolding parse_syslog_def e option.case Let_def
    by (simp add: r tl [simplified] sp [simplified] l6 p [simplified] nth_append)
qed

lemma parse_render: "wf_message m \<Longrightarrow> parse_syslog (render_syslog m) = Some m"
  using trim_left_id [of "sm_msg m" "CHR '' ''"] by (simp add: wf_message_def parse_render_parts)

section \<open>The code is parse, stamp, print\<close>

lemma wf_tenant_block: "wf_block (tenant_block i)"
  unfolding wf_block_def
  by (rule exI [of _ \<open>''tenant@'' @ format_int i @ '' tenant-id="'' @ format_int i @ [CHR 0x22]\<close>])
     (simp add: tenant_block_def format_int_no_sep)

lemma tenant_block_is_tenant: "isTenantSDID (tenant_block i)"
  by (simp add: isTenantSDID_def tenantSDIDPrefix_def tenant_block_def)

lemma stamp_message_wf: "wf_message m \<Longrightarrow> wf_message (stamp_message i n m)"
  by (auto simp: wf_message_def wf_parts_def stamp_message_def msg_prefix_def wf_tenant_block list_all_iff)

lemma stamp_render: "StampSyslogMessage raw i n =
   (case parse_syslog raw of None \<Rightarrow> raw | Some m \<Rightarrow> render_syslog (stamp_message i n m))"
proof (cases "raw = [] \<or> hd raw \<noteq> CHR ''<'' \<or> index_byte raw CHR ''>'' = None")
  case True
  then show ?thesis by (auto simp: StampSyslogMessage_def parse_syslog_def)
next
  case False
  then obtain e where e: "index_byte raw CHR ''>'' = Some e" and r: "raw \<noteq> []" "hd raw = CHR ''<''" by auto
  have "take (Suc e) raw = take e raw @ [CHR ''>'']"
    using index_byte_take [OF e] by (metis append_take_drop_id index_byte_Some e take_Suc_conv_app_nth)
  moreover have "e \<noteq> 0" using e r by (cases raw) auto
  then have "take e raw = CHR ''<'' # drop 1 (take e raw)" using r by (cases raw; cases e) auto
  ultimately have t: "take (Suc e) raw = CHR ''<'' # drop 1 (take e raw) @ [CHR ''>'']" by simp
  show ?thesis
    using r e unfolding StampSyslogMessage_def parse_syslog_def
    by (simp add: Let_def case_prod_unfold t [simplified] render_syslog_def stamp_message_def msg_prefix_def)
qed

lemma stamp_parses: "parse_syslog raw = Some m \<Longrightarrow> parse_syslog (StampSyslogMessage raw i n) = Some (stamp_message i n m)"
  by (simp add: stamp_render parse_render [OF stamp_message_wf [OF parse_syslog_wf]])

section \<open>Properties\<close>

text \<open>C21. Stamping a syslog line is a refinement of stamping the message: a line that parses as RFC 5424 is
  replaced by the printed form of its message with the tenant's block and prefix, which parses back
  to exactly that message; any other line is passed on unchanged.\<close>

theorem syslog_stamp_refines:
  "(parse_syslog raw = None \<longrightarrow> StampSyslogMessage raw i n = raw) \<and>
   (\<forall>m. parse_syslog raw = Some m \<longrightarrow> parse_syslog (StampSyslogMessage raw i n) = Some (stamp_message i n m))"
  by (simp add: stamp_render parse_render [OF stamp_message_wf [OF parse_syslog_wf]])

definition demo_line :: string where
  \<open>demo_line = ''<34>1 2024-01-01T00:00:00Z web1 su 77 ID47 [tenant@9 tenant-id="9"][ex@1 a="b"] it failed''\<close>

definition demo_message :: syslog_message where
  \<open>demo_message = \<lparr>sm_pri = ''34'', sm_header = [''1'', ''2024-01-01T00:00:00Z'', ''web1'', ''su'', ''77'', ''ID47''],
     sm_sd = [''[tenant@9 tenant-id="9"]'', ''[ex@1 a="b"]''], sm_msg = ''it failed''\<rparr>\<close>

lemma demo_message_wf: "wf_message demo_message"
proof -
  have "wf_block (CHR ''['' # x @ [CHR '']''])" if "CHR '']'' \<notin> set x" for x using that by (auto simp: wf_block_def)
  from this [of \<open>''tenant@9 tenant-id="9"''\<close>] this [of \<open>''ex@1 a="b"''\<close>]
  show ?thesis by (simp add: wf_message_def wf_parts_def demo_message_def)
qed

lemma demo_line_parses: "parse_syslog demo_line = Some demo_message"
proof -
  have "demo_line = render_syslog demo_message" by (simp add: demo_line_def demo_message_def render_syslog_def)
  then show ?thesis using parse_render [OF demo_message_wf] by simp
qed

theorem syslog_stamp_refines_witness:
  "parse_syslog (StampSyslogMessage demo_line 1 ''acme'') = Some (stamp_message 1 ''acme'' demo_message)"
  using syslog_stamp_refines [of demo_line 1 "''acme''"] demo_line_parses by blast

text \<open>
  An escaped bracket inside a parameter value ends the element early: the rest of the value, and any
  element after it, ends up in the MSG part.
\<close>

lemma escaped_bracket_ends_element:
  \<open>parseSDAndMsg (''[x a="'' @ [CHR 0x5C] @ '']"][tenant@9 tenant-id="9"] m'') =
     ([''[x a="'' @ [CHR 0x5C] @ '']''], ''"][tenant@9 tenant-id="9"] m'')\<close>
  by code_simp

text \<open>
  A line that does not parse is passed on as it is, with whatever it claims: one leading blank is
  enough to keep a forged element.
\<close>

lemma unparsed_line_keeps_forgery:
  \<open>StampSyslogMessage (CHR '' '' # demo_line) 1 ''acme'' = CHR '' '' # demo_line\<close>
  by (simp add: StampSyslogMessage_def)

end
