(* ===== verification/Syslog_Server.thy ===== *)
theory Syslog_Server
  imports Syslog_Pool Syslog_Stamp Auth_Gateway Rate_Limit
begin

text \<open>
  \<open>internal/syslog/conn.go\<close> and \<open>server.go\<close>: one mTLS connection from the handshake to its end, the
  connection slots of a tenant, and the limit on connections of the accept loop. The TLS stack and
  the certificate authority are outside the program: a connection is given by the outcome of its
  handshake, the raw peer certificates and the bytes it will deliver.
\<close>

section \<open>State\<close>

record Config =
  cfg_MaxFrameBytes :: int64
  cfg_MaxConnections :: int64
  cfg_MaxConnsPerTenant :: int64
  cfg_CollectorAddr :: string

text \<open>The defaults that \<open>NewServer\<close> fills in.\<close>

definition server_config :: "Config \<Rightarrow> Config" where
  "server_config cfg = cfg\<lparr>cfg_MaxConnsPerTenant := (if cfg_MaxConnsPerTenant cfg \<le> 0 then 50 else cfg_MaxConnsPerTenant cfg),
     cfg_MaxConnections := (if cfg_MaxConnections cfg \<le> 0 then 1000 else cfg_MaxConnections cfg)\<rparr>"

definition server_pool :: "Config \<Rightarrow> CollectorPool" where
  "server_pool cfg = NewCollectorPool (cfg_CollectorAddr cfg) 10 (30 * second)"

text \<open>
  \<open>NewServer\<close>, given what loading the key pair, reading the CA file and parsing it return: the
  effective configuration, the pool, and the TLS settings (client certificates are required and
  verified, TLS 1.2 at least).
\<close>

datatype client_auth = NoClientCertAuth | RequireAndVerifyClientCert

record tls_settings =
  tls_ClientAuth :: client_auth
  tls_MinVersion :: int64

definition NewServer ::
  "unit result \<Rightarrow> string result \<Rightarrow> (string \<Rightarrow> bool) \<Rightarrow> Config \<Rightarrow> (Config \<times> CollectorPool \<times> tls_settings) result" where
  "NewServer serverCert caFile AppendCertsFromPEM cfg =
     (case serverCert of
        Inl _ \<Rightarrow> Inl (Msg ''load server cert'')
      | Inr _ \<Rightarrow>
          (case caFile of
             Inl _ \<Rightarrow> Inl (Msg ''read client CA file'')
           | Inr caPEM \<Rightarrow>
               if \<not> AppendCertsFromPEM caPEM then Inl (Msg ''no certificates found in client CA file'')
               else Inr (server_config cfg, server_pool cfg,
                         \<lparr>tls_ClientAuth = RequireAndVerifyClientCert, tls_MinVersion = 771\<rparr>)))"

type_synonym conn_counts = "int64 \<rightharpoonup> int64"

record 'l syslog_state =
  sy_db :: db
  sy_writer :: usage_writer
  sy_limiter :: "'l limiter"
  sy_pool :: "CollectorPool \<times> net"
  sy_counts :: conn_counts

record tls_conn =
  tc_handshake :: "unit result"
  tc_peers :: "u8 list list"
  tc_stream :: stream

section \<open>Connection slots\<close>

definition slot_count :: "int64 \<Rightarrow> conn_counts \<Rightarrow> int64" where
  "slot_count tid m = (case m tid of None \<Rightarrow> 0 | Some n \<Rightarrow> n)"

definition slot_max :: "Config \<Rightarrow> int64" where
  "slot_max cfg = (if cfg_MaxConnsPerTenant cfg \<le> 0 then 50 else cfg_MaxConnsPerTenant cfg)"

definition acquireConnSlot :: "Config \<Rightarrow> int64 \<Rightarrow> conn_counts \<Rightarrow> bool \<times> conn_counts" where
  "acquireConnSlot cfg tid m =
     (if slot_count tid m \<ge> slot_max cfg then (False, m)
      else (True, m(tid \<mapsto> wrap64 (slot_count tid m + 1))))"

text \<open>The function that \<open>acquireConnSlot\<close> returns; \<open>sync.Once\<close> lets it run once.\<close>

definition release_slot :: "int64 \<Rightarrow> conn_counts \<Rightarrow> conn_counts" where
  "release_slot tid m =
     (let n = wrap64 (slot_count tid m - 1) in if n \<le> 0 then m(tid := None) else m(tid \<mapsto> n))"

section \<open>The frame loop\<close>

definition isTimeout :: "frame_error \<Rightarrow> bool" where
  "isTimeout err \<longleftrightarrow> err = ReadError Timeout"

definition record_syslog :: "time \<Rightarrow> int64 \<Rightarrow> int64 \<Rightarrow> string \<Rightarrow> 'l syslog_state \<Rightarrow> 'l syslog_state" where
  "record_syslog now tid code frame s =
     s\<lparr>sy_writer := RecordUsage now tid ''syslog'' code (int (length frame)) (sy_writer s)\<rparr>"

definition syslog_check ::
  "('l limiter \<Rightarrow> db \<Rightarrow> Decision \<times> 'l limiter \<times> db) \<Rightarrow> 'l syslog_state \<Rightarrow> bool \<times> 'l syslog_state" where
  "syslog_check check s =
     (case check (sy_limiter s) (sy_db s) of (dec, l, d) \<Rightarrow> (Allowed dec, s\<lparr>sy_limiter := l, sy_db := d\<rparr>))"

text \<open>One frame: the status it is accounted with. The three instants are those of its clock readings.\<close>

definition handle_frame ::
  "'l rate_ops \<Rightarrow> tenant \<Rightarrow> time \<Rightarrow> time \<Rightarrow> time \<Rightarrow> string \<Rightarrow> 'l syslog_state \<Rightarrow> int64 \<times> 'l syslog_state" where
  "handle_frame ops t at_rps at_bytes at_usage frame s =
     (case syslog_check (AllowRPS ops at_rps (ID t)) s of
        (False, s1) \<Rightarrow> (429, record_syslog at_usage (ID t) 429 frame s1)
      | (True, s1) \<Rightarrow>
          (case syslog_check (AllowBytes ops at_bytes (ID t) (int (length frame))) s1 of
             (False, s2) \<Rightarrow> (429, record_syslog at_usage (ID t) 429 frame s2)
           | (True, s2) \<Rightarrow>
               (case Forward (StampSyslogMessage frame (ID t) (Name t)) (sy_pool s2) of
                  (Inl _, p) \<Rightarrow> (502, record_syslog at_usage (ID t) 502 frame (s2\<lparr>sy_pool := p\<rparr>))
                | (Inr _, p) \<Rightarrow> (200, record_syslog at_usage (ID t) 200 frame (s2\<lparr>sy_pool := p\<rparr>)))))"

text \<open>
  The loop: read a frame, handle it, go on while frames are accepted. It returns the error that ended
  the reading (if that is what ended it) and the frames with their statuses. The clock is a function
  of the number of readings so far.
\<close>

function serve_frames ::
  "'l rate_ops \<Rightarrow> int64 \<Rightarrow> tenant \<Rightarrow> (nat \<Rightarrow> time) \<Rightarrow> nat \<Rightarrow> stream \<Rightarrow> 'l syslog_state
     \<Rightarrow> frame_error option \<times> (string \<times> int64) list \<times> 'l syslog_state" where
  "serve_frames ops maxFrameBytes t clk k stream s =
     (case read_frame maxFrameBytes stream of
        (Inl err, _) \<Rightarrow> (Some err, [], s)
      | (Inr frame, rest) \<Rightarrow>
          (case handle_frame ops t (clk k) (clk (k + 1)) (clk (k + 2)) frame s of
             (code, s1) \<Rightarrow>
               if code = 200
               then (case serve_frames ops maxFrameBytes t clk (k + 3) rest s1 of
                       (err, done, s2) \<Rightarrow> (err, (frame, code) # done, s2))
               else (None, [(frame, code)], s1)))"
  by auto
termination
  by (relation "measure (\<lambda>(_, _, _, _, _, stream, _). length stream)") (auto dest: read_frame_progress [OF sym])

declare serve_frames.simps [simp del]

section \<open>A connection\<close>

datatype conn_end =
    HandshakeFailed | NoClientCert | TenantLookupError | CertRevoked | TenantInactive | CertUnknown
  | TooManyConnections | CollectorUnavailable
  | Served tenant "frame_error option" "(string \<times> int64) list"

definition fingerprint_of :: "u8 list \<Rightarrow> string" where
  "fingerprint_of raw = hex_encode (sha256 raw)"

text \<open>Why a certificate that resolves to nobody is refused (only the log line depends on it).\<close>

definition reject_reason :: "certificate option result \<Rightarrow> conn_end" where
  "reject_reason r =
     (case r of
        Inr (Some c) \<Rightarrow> if cert_RevokedAt c \<noteq> None then CertRevoked else TenantInactive
      | _ \<Rightarrow> CertUnknown)"

definition handleConnection ::
  "'l rate_ops \<Rightarrow> Config \<Rightarrow> (nat \<Rightarrow> time) \<Rightarrow> tls_conn \<Rightarrow> 'l syslog_state \<Rightarrow> conn_end \<times> 'l syslog_state" where
  "handleConnection ops cfg clk conn s =
     (case tc_handshake conn of
        Inl _ \<Rightarrow> (HandshakeFailed, s)
      | Inr _ \<Rightarrow>
          (case tc_peers conn of
             [] \<Rightarrow> (NoClientCert, s)
           | leafCert # _ \<Rightarrow>
               (let fp = fingerprint_of leafCert in
                case ResolveTenant (clk 0) (NewCertCredential fp) (sy_db s) of
                  (Inl _, d) \<Rightarrow> (TenantLookupError, s\<lparr>sy_db := d\<rparr>)
                | (Inr None, d) \<Rightarrow>
                    (case LookupCertificateByFingerprint fp d of (c, d') \<Rightarrow> (reject_reason c, s\<lparr>sy_db := d'\<rparr>))
                | (Inr (Some t), d) \<Rightarrow>
                    (let s1 = s\<lparr>sy_db := snd (UpdateLastSeen (clk 1) fp d)\<rparr>;
                         (ok, counts) = acquireConnSlot cfg (ID t) (sy_counts s1)
                     in if \<not> ok then (TooManyConnections, s1)
                        else (let s2 = s1\<lparr>sy_counts := counts\<rparr>;
                                  (res, s3) = (if \<not> Healthy (fst (sy_pool s2)) then (CollectorUnavailable, s2)
                                               else case serve_frames ops (cfg_MaxFrameBytes cfg) t clk 2 (tc_stream conn) s2 of
                                                 (err, done, s') \<Rightarrow> (Served t err done, s'))
                              in (res, s3\<lparr>sy_counts := release_slot (ID t) (sy_counts s3)\<rparr>))))))"

section \<open>Laws of the frame loop\<close>

definition delivered :: "'l syslog_state \<Rightarrow> string list" where
  "delivered s = map snd (nt_delivered (snd (sy_pool s)))"

definition frame_payload :: "tenant \<Rightarrow> string \<Rightarrow> string" where
  "frame_payload t frame = octet_frame (StampSyslogMessage frame (ID t) (Name t))"

lemma syslog_check_frame: "syslog_check c s = (b, s') \<Longrightarrow> sy_pool s' = sy_pool s \<and> sy_writer s' = sy_writer s \<and> sy_counts s' = sy_counts s"
  by (auto simp: syslog_check_def split: prod.splits)

lemma record_syslog_frame [simp]:
  "sy_pool (record_syslog now tid code frame s) = sy_pool s" "sy_counts (record_syslog now tid code frame s) = sy_counts s"
  "sy_db (record_syslog now tid code frame s) = sy_db s"
  by (simp_all add: record_syslog_def)

text \<open>A frame is delivered exactly when it is accounted with 200, and accounted exactly once.\<close>

lemma handle_frame_effect:
  assumes "handle_frame ops t t1 t2 t3 frame s = (code, s')"
  shows "delivered s' = delivered s @ (if code = 200 then [frame_payload t frame] else [])"
    and "sy_writer s' = RecordUsage t3 (ID t) ''syslog'' code (int (length frame)) (sy_writer s)"
    and "sy_counts s' = sy_counts s" and "code \<in> {200, 429, 502}"
proof -
  obtain b1 s1 where c1: "syslog_check (AllowRPS ops t1 (ID t)) s = (b1, s1)" by fastforce
  obtain b2 s2 where c2: "syslog_check (AllowBytes ops t2 (ID t) (int (length frame))) s1 = (b2, s2)" by fastforce
  obtain r p where f: "Forward (StampSyslogMessage frame (ID t) (Name t)) (sy_pool s2) = (r, p)" by (metis prod.exhaust)
  note k = syslog_check_frame [OF c1] syslog_check_frame [OF c2]
  have d: "case r of Inl _ \<Rightarrow> nt_delivered (snd p) = nt_delivered (snd (sy_pool s))
      | Inr _ \<Rightarrow> \<exists>c. nt_delivered (snd p) = nt_delivered (snd (sy_pool s)) @ [(c, frame_payload t frame)]"
    using Forward_delivered [OF f] k by (auto simp: frame_payload_def split: sum.splits)
  have res: "(code, s') = (if \<not> b1 then (429, record_syslog t3 (ID t) 429 frame s1)
      else if \<not> b2 then (429, record_syslog t3 (ID t) 429 frame s2)
      else case r of Inl _ \<Rightarrow> (502, record_syslog t3 (ID t) 502 frame (s2\<lparr>sy_pool := p\<rparr>))
        | Inr _ \<Rightarrow> (200, record_syslog t3 (ID t) 200 frame (s2\<lparr>sy_pool := p\<rparr>)))"
    using assms c1 c2 f by (auto simp: handle_frame_def split: sum.splits)
  show "delivered s' = delivered s @ (if code = 200 then [frame_payload t frame] else [])"
    using res k d by (cases r) (auto simp: delivered_def split: if_splits)
  show "sy_writer s' = RecordUsage t3 (ID t) ''syslog'' code (int (length frame)) (sy_writer s)"
    using res k by (cases r) (auto simp: record_syslog_def split: if_splits)
  show "sy_counts s' = sy_counts s" using res k by (cases r) (auto split: if_splits)
  show "code \<in> {200, 429, 502}" using res by (cases r) (auto split: if_splits)
qed

text \<open>The accounting of a sequence of handled frames.\<close>

fun record_all :: "tenant \<Rightarrow> (nat \<Rightarrow> time) \<Rightarrow> nat \<Rightarrow> (string \<times> int64) list \<Rightarrow> usage_writer \<Rightarrow> usage_writer" where
  "record_all t clk k [] w = w"
| "record_all t clk k ((frame, code) # rest) w =
     record_all t clk (k + 3) rest (RecordUsage (clk (k + 2)) (ID t) ''syslog'' code (int (length frame)) w)"

lemma serve_frames_effect:
  assumes "serve_frames ops m t clk k stream s = (err, done, s')"
  shows "delivered s' = delivered s @ map (frame_payload t \<circ> fst) (filter (\<lambda>d. snd d = 200) done) \<and>
    sy_writer s' = record_all t clk k done (sy_writer s) \<and>
    sy_counts s' = sy_counts s \<and> length done \<le> length stream \<and> (\<forall>d \<in> set (butlast done). snd d = 200)"
  using assms
proof (induction ops m t clk k stream s arbitrary: err "done" s' rule: serve_frames.induct)
  case (1 ops m t clk k stream s)
  obtain r rest where f: "read_frame m stream = (r, rest)" by fastforce
  show ?case
  proof (cases r)
    case (Inl e)
    then show ?thesis using 1(2) f by (simp add: serve_frames.simps)
  next
    case (Inr frame)
    obtain code s1 where h: "handle_frame ops t (clk k) (clk (k + 1)) (clk (k + 2)) frame s = (code, s1)" by fastforce
    note e1 = handle_frame_effect [OF h]
    show ?thesis
    proof (cases "code = 200")
      case False
      then show ?thesis
        using 1(2) f Inr h e1 read_frame_progress [of m stream frame rest]
        by (auto simp: serve_frames.simps [of ops m t clk k stream])
    next
      case True
      obtain err2 done2 s2 where r2: "serve_frames ops m t clk (k + 3) rest s1 = (err2, done2, s2)" by (metis prod_cases3)
      have d: "done = (frame, code) # done2" "s' = s2"
        using 1(2) f Inr h True r2 by (auto simp: serve_frames.simps [of ops m t clk k stream])
      note ih = 1(1) [OF f [symmetric] Inr h [symmetric] True r2]
      then show ?thesis
        using e1 True d read_frame_progress [of m stream frame rest] f Inr by (auto split: if_splits)
    qed
  qed
qed

text \<open>The frames that are handled are the frames of the stream, in order, none skipped.\<close>

lemma serve_frames_frames:
  assumes "serve_frames ops m t clk k stream s = (err, done, s')"
  shows "\<exists>rest. take_frames (read_frame m) (length done) stream = Some (map fst done, rest) \<and>
     (\<forall>e. err = Some e \<longrightarrow> fst (read_frame m rest) = Inl e) \<and> (err = None \<longrightarrow> done \<noteq> [] \<and> snd (last done) \<noteq> 200)"
  using assms
proof (induction ops m t clk k stream s arbitrary: err "done" s' rule: serve_frames.induct)
  case (1 ops m t clk k stream s)
  obtain r rest where f: "read_frame m stream = (r, rest)" by fastforce
  show ?case
  proof (cases r)
    case (Inl e)
    then show ?thesis using 1(2) f by (auto simp: serve_frames.simps)
  next
    case (Inr frame)
    obtain code s1 where h: "handle_frame ops t (clk k) (clk (k + 1)) (clk (k + 2)) frame s = (code, s1)" by fastforce
    show ?thesis
    proof (cases "code = 200")
      case False
      then show ?thesis using 1(2) f Inr h by (auto simp: serve_frames.simps [of ops m t clk k stream])
    next
      case True
      obtain err2 done2 s2 where r2: "serve_frames ops m t clk (k + 3) rest s1 = (err2, done2, s2)" by (metis prod_cases3)
      have d: "done = (frame, code) # done2" "err = err2"
        using 1(2) f Inr h True r2 by (auto simp: serve_frames.simps [of ops m t clk k stream])
      from 1(1) [OF f [symmetric] Inr h [symmetric] True r2] show ?thesis
        using d f Inr by (auto split: option.splits)
    qed
  qed
qed

section \<open>Laws of a connection\<close>

lemma handleConnection_cases:
  obtains (refused) e d where "handleConnection ops cfg clk conn s = (e, s\<lparr>sy_db := d\<rparr>)" "\<And>t err fs. e \<noteq> Served t err fs"
  | (slot) leaf rest t d counts where "tc_peers conn = leaf # rest"
      "fst (ResolveTenant (clk 0) (NewCertCredential (fingerprint_of leaf)) (sy_db s)) = Inr (Some t)"
      "acquireConnSlot cfg (ID t) (sy_counts s) = (True, counts)"
      "handleConnection ops cfg clk conn s =
        (let s2 = s\<lparr>sy_db := d, sy_counts := counts\<rparr>;
             (res, s3) = (if \<not> Healthy (fst (sy_pool s2)) then (CollectorUnavailable, s2)
                          else case serve_frames ops (cfg_MaxFrameBytes cfg) t clk 2 (tc_stream conn) s2 of
                            (err, done, s') \<Rightarrow> (Served t err done, s'))
         in (res, s3\<lparr>sy_counts := release_slot (ID t) (sy_counts s3)\<rparr>))"
proof (cases "tc_handshake conn")
  case (Inl e)
  then show thesis using refused [of HandshakeFailed "sy_db s"] by (simp add: handleConnection_def)
next
  case hs: (Inr u)
  show thesis
  proof (cases "tc_peers conn")
    case Nil
    then show thesis using refused [of NoClientCert "sy_db s"] hs by (simp add: handleConnection_def)
  next
    case (Cons leaf rest)
    let ?fp = "fingerprint_of leaf"
    obtain res d where r: "ResolveTenant (clk 0) (NewCertCredential ?fp) (sy_db s) = (res, d)" by fastforce
    show thesis
    proof (cases "\<exists>t counts. res = Inr (Some t) \<and> acquireConnSlot cfg (ID t) (sy_counts s) = (True, counts)")
      case True
      then obtain t counts where t: "res = Inr (Some t)" "acquireConnSlot cfg (ID t) (sy_counts s) = (True, counts)" by blast
      show thesis
        by (rule slot [OF Cons _ t(2), of "snd (UpdateLastSeen (clk 1) ?fp d)"])
           (use t r hs Cons in \<open>simp_all add: handleConnection_def Let_def\<close>)
    next
      case False
      show thesis
      proof (cases res)
        case (Inl err)
        then show thesis using refused [of TenantLookupError d] hs Cons r by (simp add: handleConnection_def)
      next
        case (Inr ot)
        show thesis
        proof (cases ot)
          case None
          obtain c d' where c: "LookupCertificateByFingerprint ?fp d = (c, d')" by fastforce
          have "reject_reason c \<noteq> Served t err fs" for t err fs by (simp add: reject_reason_def split: sum.splits option.splits)
          then show thesis using refused [of "reject_reason c" d'] hs Cons r Inr None c by (simp add: handleConnection_def)
        next
          case (Some t)
          then have "acquireConnSlot cfg (ID t) (sy_counts s) = (False, sy_counts s)"
            using False Inr by (simp add: acquireConnSlot_def split: if_splits)
          then show thesis
            using refused [of TooManyConnections "snd (UpdateLastSeen (clk 1) ?fp d)"] hs Cons r Inr Some
            by (simp add: handleConnection_def Let_def)
        qed
      qed
    qed
  qed
qed

lemma acquire_release:
  assumes "acquireConnSlot cfg tid m = (True, m')" "\<forall>t n. m t = Some n \<longrightarrow> 0 < n" "slot_max cfg < 2 ^ 63"
  shows "release_slot tid m' = m"
proof -
  have pos: "m tid = Some n \<Longrightarrow> 0 < n" for n using assms(2) by blast
  have c: "0 \<le> slot_count tid m" "slot_count tid m < slot_max cfg"
    using assms(1) pos by (auto simp: acquireConnSlot_def slot_count_def less_imp_le split: option.splits if_splits)
  then have w: "wrap64 (slot_count tid m + 1) = slot_count tid m + 1" "wrap64 (slot_count tid m) = slot_count tid m"
    using assms(3) by (auto simp: in_int64_def intro!: wrap64_id)
  have m': "m' = m(tid \<mapsto> slot_count tid m + 1)" using assms(1) w by (auto simp: acquireConnSlot_def split: if_splits)
  show ?thesis
    using pos w by (cases "m tid") (auto simp: release_slot_def m' slot_count_def Let_def fun_eq_iff)
qed

section \<open>The limits on connections\<close>

text \<open>
  The accept loop and the connection goroutines as interleaved steps. \<open>sv_sem\<close> is the number of tokens
  in \<open>connSem\<close>; \<open>sv_live\<close> are the tenants of the connections that hold a slot. A connection is
  accepted when the semaphore has room (otherwise it is closed at once) and may take a slot after its
  tenant is known. When it ends it first releases its slot, if it has one, and later its token: two
  steps, between which others run.
\<close>

record server_limits =
  sv_sem :: int64
  sv_counts :: conn_counts
  sv_live :: "int64 list"

datatype limit_event = Accepted | WantsSlot int64 | ReleasesSlot int64 | ReleasesToken

definition limit_step :: "Config \<Rightarrow> limit_event \<Rightarrow> server_limits \<Rightarrow> server_limits" where
  "limit_step cfg e s =
     (case e of
        Accepted \<Rightarrow> if sv_sem s < cfg_MaxConnections cfg then s\<lparr>sv_sem := sv_sem s + 1\<rparr> else s
      | WantsSlot t \<Rightarrow>
          if int (length (sv_live s)) < sv_sem s
          then (case acquireConnSlot cfg t (sv_counts s) of
                  (ok, m) \<Rightarrow> if ok then s\<lparr>sv_counts := m, sv_live := t # sv_live s\<rparr> else s)
          else s
      | ReleasesSlot t \<Rightarrow>
          if t \<in> set (sv_live s)
          then s\<lparr>sv_counts := release_slot t (sv_counts s), sv_live := remove1 t (sv_live s)\<rparr> else s
      | ReleasesToken \<Rightarrow> if int (length (sv_live s)) < sv_sem s then s\<lparr>sv_sem := sv_sem s - 1\<rparr> else s)"

definition limits_inv :: "Config \<Rightarrow> server_limits \<Rightarrow> bool" where
  "limits_inv cfg s \<longleftrightarrow> 0 < cfg_MaxConnections cfg \<and> slot_max cfg < 2 ^ 63 \<and>
     int (length (sv_live s)) \<le> sv_sem s \<and> sv_sem s \<le> cfg_MaxConnections cfg \<and>
     (\<forall>t. sv_counts s t = (let n = int (count_list (sv_live s) t) in if n = 0 then None else Some n)) \<and>
     (\<forall>t. int (count_list (sv_live s) t) \<le> slot_max cfg)"

lemma slot_count_live: "limits_inv cfg s \<Longrightarrow> slot_count t (sv_counts s) = int (count_list (sv_live s) t)"
  by (auto simp: limits_inv_def slot_count_def Let_def)

lemma count_list_pos: "0 < count_list xs x \<longleftrightarrow> x \<in> set xs"
  using count_list_0_iff [of xs x] by (metis gr0I less_numeral_extra(3))

lemma count_list_remove1: "count_list (remove1 x xs) y = count_list xs y - (if x = y \<and> x \<in> set xs then 1 else 0)"
  by (induction xs) (auto simp: count_list_pos intro!: Suc_pred [symmetric])

lemma limit_step_inv: "limits_inv cfg s \<Longrightarrow> limits_inv cfg (limit_step cfg e s)"
proof -
  assume i: "limits_inv cfg s"
  note j = i [unfolded limits_inv_def]
  show ?thesis
  proof (cases e)
    case (WantsSlot t)
    have c: "slot_count t (sv_counts s) = int (count_list (sv_live s) t)" by (rule slot_count_live [OF i])
    show ?thesis
    proof (cases "int (length (sv_live s)) < sv_sem s \<and> int (count_list (sv_live s) t) < slot_max cfg")
      case True
      have "wrap64 (int (count_list (sv_live s) t) + 1) = int (count_list (sv_live s) t) + 1"
        using True j by (auto simp: in_int64_def intro!: wrap64_id)
      then have "limit_step cfg e s = s\<lparr>sv_counts := (sv_counts s)(t \<mapsto> int (count_list (sv_live s) t) + 1), sv_live := t # sv_live s\<rparr>"
        using True c by (simp add: limit_step_def WantsSlot acquireConnSlot_def)
      then show ?thesis using j True by (auto simp: limits_inv_def Let_def)
    next
      case False
      then have "limit_step cfg e s = s" using c by (auto simp: limit_step_def WantsSlot acquireConnSlot_def)
      then show ?thesis using i by simp
    qed
  next
    case (ReleasesSlot t)
    show ?thesis
    proof (cases "t \<in> set (sv_live s)")
      case True
      then have n: "0 < count_list (sv_live s) t" by (simp add: count_list_pos)
      have "int (count_list (sv_live s) t) \<le> slot_max cfg" "slot_max cfg < 2 ^ 63" using j by blast+
      then have "in_int64 (int (count_list (sv_live s) t) - 1)" using n unfolding in_int64_def by linarith
      then have "wrap64 (int (count_list (sv_live s) t) - 1) = int (count_list (sv_live s) t) - 1" by (rule wrap64_id)
      then have r: "release_slot t (sv_counts s) = (let n = int (count_list (sv_live s) t) - 1 in
          if n \<le> 0 then (sv_counts s)(t := None) else (sv_counts s)(t \<mapsto> n))"
        by (simp add: release_slot_def slot_count_live [OF i] Let_def)
      have l: "length (sv_live s) = Suc (length (remove1 t (sv_live s)))"
        using True by (simp add: length_remove1) (metis Suc_pred length_pos_if_in_set)
      have le: "int (count_list (remove1 t (sv_live s)) u) \<le> slot_max cfg" for u
        using j by (simp add: count_list_remove1) (metis le_trans of_nat_mono diff_le_self order_trans)
      have cs: "release_slot t (sv_counts s) u = (let n = int (count_list (remove1 t (sv_live s)) u) in if n = 0 then None else Some n)" for u
        using j n True by (auto simp: r Let_def count_list_remove1 of_nat_diff)
      show ?thesis using j l le cs True by (simp add: limits_inv_def limit_step_def ReleasesSlot)
    qed (use i in \<open>simp add: limit_step_def ReleasesSlot\<close>)
  qed (use j in \<open>auto simp: limit_step_def limits_inv_def\<close>)
qed

interpretation conn_limits: step_machine "limit_step cfg" "limits_inv cfg" for cfg
  by unfold_locales (rule limit_step_inv)

section \<open>Properties\<close>

text \<open>What is delivered for a frame, in terms of the parsed message.\<close>

lemma frame_payload_message: "frame_payload t f = octet_frame (case parse_syslog f of
    None \<Rightarrow> f | Some m \<Rightarrow> render_syslog (stamp_message (ID t) (Name t) m))"
  by (simp add: frame_payload_def stamp_render)

text \<open>C17. A syslog connection forwards for nobody but the tenant of its certificate: frames are forwarded
  only when the peer's leaf certificate is on file, unrevoked, for an active tenant; what is delivered
  is exactly the accepted frames, in order: a frame that parses as a syslog message is delivered as that
  message stamped with the tenant's identity, and any other frame, which the stamper cannot parse, is
  delivered as it came, without a stamp; every frame that was read is accounted once with its status; a
  refused connection delivers and accounts nothing.\<close>

theorem syslog_connection_sound:
  assumes inv: "db_inv (sy_db s)" and run: "handleConnection ops cfg clk conn s = (e, s')"
  shows "case e of
      Served t err done \<Rightarrow>
        (\<exists>row. fp_holds (sy_db s) (fingerprint_of (hd (tc_peers conn))) row \<and> ID t = tr_id row \<and> Name t = tr_name row) \<and>
        delivered s' = delivered s @ map (\<lambda>d. octet_frame (case parse_syslog (fst d) of
             None \<Rightarrow> fst d | Some m \<Rightarrow> render_syslog (stamp_message (ID t) (Name t) m))) (filter (\<lambda>d. snd d = 200) done) \<and>
        sy_writer s' = record_all t clk 2 done (sy_writer s)
    | _ \<Rightarrow> delivered s' = delivered s \<and> sy_writer s' = sy_writer s"
proof (cases rule: handleConnection_cases [of ops cfg clk conn s])
  case (refused e' d)
  then show ?thesis using run by (auto simp: delivered_def split: conn_end.splits)
next
  case (slot leaf rest t d counts)
  have "\<exists>row p. fp_holds (sy_db s) (fingerprint_of leaf) row \<and> t = tenant_of_row row p"
    using cert_fps.resolve_sound [OF inv, of "fingerprint_of leaf" t] slot(2)
    by (simp add: ResolveTenant_def NewCertCredential_def) (metis prod.collapse)
  then obtain row where row: "fp_holds (sy_db s) (fingerprint_of leaf) row" "ID t = tr_id row" "Name t = tr_name row"
    by (auto simp: tenant_of_row_def)
  let ?s2 = "s\<lparr>sy_db := d, sy_counts := counts\<rparr>"
  obtain err fs s3 where sf: "serve_frames ops (cfg_MaxFrameBytes cfg) t clk 2 (tc_stream conn) ?s2 = (err, fs, s3)" by (metis prod_cases3)
  show ?thesis
  proof (cases "Healthy (fst (sy_pool s))")
    case False
    then show ?thesis using run slot(4) by (auto simp: delivered_def)
  next
    case True
    then have "e = Served t err fs" "s' = s3\<lparr>sy_counts := release_slot (ID t) (sy_counts s3)\<rparr>"
      using run slot(4) sf by auto
    then show ?thesis using serve_frames_effect [OF sf] row slot(1) by (auto simp: delivered_def comp_def frame_payload_message)
  qed
qed

text \<open>C24. The frame loop ends on every finite stream: it handles at most one frame per byte, the frames it
  handles are the successive frames of the stream with none skipped, it stops at the first frame that
  is not accepted, and otherwise exactly at the first read error.\<close>

theorem frame_loop_terminates:
  assumes "serve_frames ops m t clk k stream s = (err, done, s')"
  shows "length done \<le> length stream \<and> (\<forall>d \<in> set (butlast done). snd d = 200) \<and>
     (\<exists>rest. take_frames (read_frame m) (length done) stream = Some (map fst done, rest) \<and>
       (\<forall>e. err = Some e \<longrightarrow> fst (read_frame m rest) = Inl e) \<and> (err = None \<longrightarrow> done \<noteq> [] \<and> snd (last done) \<noteq> 200))"
  using serve_frames_effect [OF assms] serve_frames_frames [OF assms] by blast

text \<open>C26. The connection limits hold under every interleaving of accepts, slot requests and releases: never more
  than \<open>MaxConnections\<close> in all, with or without a slot, never more than the per-tenant maximum for one tenant, and the counter
  of a tenant is exactly the number of its live connections (it disappears with the last one).\<close>

theorem connection_limits:
  assumes "slot_max cfg < 2 ^ 63"
    and s: "s = fold (limit_step (server_config cfg)) es \<lparr>sv_sem = 0, sv_counts = Map.empty, sv_live = []\<rparr>"
  shows "int (length (sv_live s)) \<le> sv_sem s \<and> sv_sem s \<le> cfg_MaxConnections (server_config cfg) \<and>
     int (count_list (sv_live s) t) \<le> slot_max cfg \<and>
     sv_counts s t = (if count_list (sv_live s) t = 0 then None else Some (int (count_list (sv_live s) t)))"
proof -
  have m: "slot_max (server_config cfg) = slot_max cfg" by (simp add: server_config_def slot_max_def)
  have "limits_inv (server_config cfg) \<lparr>sv_sem = 0, sv_counts = Map.empty, sv_live = []\<rparr>"
    using assms(1) by (auto simp: limits_inv_def m) (auto simp: server_config_def slot_max_def)
  from conn_limits.inv_run [OF this, of es] show ?thesis
    by (auto simp: s [symmetric] limits_inv_def Let_def m)
qed

theorem connection_limits_witness:
  "int (count_list (sv_live (fold (limit_step (server_config \<lparr>cfg_MaxFrameBytes = 9, cfg_MaxConnections = 0, cfg_MaxConnsPerTenant = 1,
     cfg_CollectorAddr = ''''\<rparr>)) [Accepted, Accepted, WantsSlot 7, WantsSlot 7, ReleasesSlot 7, ReleasesToken, Accepted, WantsSlot 7]
     \<lparr>sv_sem = 0, sv_counts = Map.empty, sv_live = []\<rparr>)) 7) \<le> 1"
proof -
  let ?c = "\<lparr>cfg_MaxFrameBytes = 9, cfg_MaxConnections = 0, cfg_MaxConnsPerTenant = 1, cfg_CollectorAddr = ''''\<rparr>"
  have "slot_max ?c < 2 ^ 63" by (simp add: slot_max_def)
  from connection_limits [OF this refl, of "[Accepted, Accepted, WantsSlot 7, WantsSlot 7, ReleasesSlot 7, ReleasesToken, Accepted, WantsSlot 7]" 7]
  show ?thesis by (simp only: slot_max_def) simp
qed

text \<open>Backpressure does not recover by itself: once the collector has been unreachable and no connection
  is left, every later connection is refused without a dial, whatever the state of the network, so
  the pool stays unhealthy and nothing is delivered any more.\<close>

lemma unhealthy_pool_never_recovers:
  assumes "\<not> Healthy (fst (sy_pool s))"
    and s': "s' = fold (\<lambda>conn s. snd (handleConnection ops cfg clk conn s)) conns s"
  shows "sy_pool s' = sy_pool s \<and> \<not> Healthy (fst (sy_pool s')) \<and> sy_writer s' = sy_writer s"
proof -
  have step: "sy_pool (snd (handleConnection ops cfg clk conn u)) = sy_pool u \<and> sy_writer (snd (handleConnection ops cfg clk conn u)) = sy_writer u"
    if "\<not> Healthy (fst (sy_pool u))" for conn u
    by (cases rule: handleConnection_cases [of ops cfg clk conn u]) (use that in \<open>auto simp: Let_def\<close>)
  have "\<not> Healthy (fst (sy_pool u)) \<Longrightarrow> sy_pool (fold (\<lambda>conn s. snd (handleConnection ops cfg clk conn s)) conns u) = sy_pool u \<and>
      sy_writer (fold (\<lambda>conn s. snd (handleConnection ops cfg clk conn s)) conns u) = sy_writer u" for u
    by (induction conns arbitrary: u) (use step in auto)
  then show ?thesis using assms(1) by (simp add: s')
qed

section \<open>A connection of the demonstration tenant\<close>

definition syslog_cfg :: Config where
  "syslog_cfg = \<lparr>cfg_MaxFrameBytes = 1000, cfg_MaxConnections = 0, cfg_MaxConnsPerTenant = 0, cfg_CollectorAddr = ''c:5140''\<rparr>"

definition demo_leaf :: "u8 list" where
  "demo_leaf = [48, 130]"

definition demo_cert_row :: cert_row where
  "demo_cert_row = \<lparr>ct_id = 1, ct_tenant_id = 1, ct_serial_number = ''77'', ct_fingerprint = fingerprint_of demo_leaf, ct_subject_cn = ''agent'',
     ct_not_before = None, ct_not_after = None, ct_revoked_at = None, ct_created_at = 0, ct_last_seen_at = None\<rparr>"

definition syslog_db :: db where
  "syslog_db = demo_db\<lparr>t_certificates := [demo_cert_row], seq_certificates := 1\<rparr>"

definition demo_syslog :: "(int \<times> int \<times> int \<times> int) syslog_state" where
  "demo_syslog = \<lparr>sy_db = syslog_db, sy_writer = NewUsageWriter, sy_limiter = NewLimiter,
     sy_pool = (server_pool syslog_cfg, new_net), sy_counts = Map.empty\<rparr>"

definition demo_conn :: tls_conn where
  "demo_conn = \<lparr>tc_handshake = Inr (), tc_peers = [demo_leaf], tc_stream = map Byte (octet_frame demo_line)\<rparr>"

lemma syslog_db_eq: "healthy syslog_db" "db_inv syslog_db" "t_tenants syslog_db = [demo_tenant]"
  "fp_holds syslog_db (fingerprint_of demo_leaf) demo_tenant"
  by (simp_all add: syslog_db_def demo_db_def healthy_def db_inv_def table_ok_defs empty_db_def tenant_ids_def demo_tenant_def
      demo_cert_row_def fp_holds_def)

lemma demo_forward: "\<exists>p n. Forward f (server_pool syslog_cfg, new_net) = (Inr (), p, n)"
  by (simp add: Forward_def getConn_def server_pool_def NewCollectorPool_def new_net_def DialTimeout_def first_fault_def
      write_conn_def conn_Write_def Let_def returnConn_def)

lemma demo_served:
  obtains t s' where "handleConnection int_bucket syslog_cfg (\<lambda>_. 0) demo_conn demo_syslog =
    (Served t (Some (ReadError EOF)) [(demo_line, 200)], s')"
proof -
  let ?fp = "fingerprint_of demo_leaf"
  define t where "t = scanTenant syslog_db demo_tenant"
  define d1 where "d1 = snd (UpdateLastSeen 0 ?fp syslog_db)"
  have r: "ResolveTenant 0 (NewCertCredential ?fp) syslog_db = (Inr (Some t), syslog_db)"
    using LookupTenantByFingerprint_iff [OF syslog_db_eq(2), of ?fp t] syslog_db_eq
    by (simp add: ResolveTenant_def NewCertCredential_def t_def LookupTenantByFingerprint_def sql_query_healthy) blast
  have h1: "healthy d1" "t_tenants d1 = [demo_tenant]"
    using syslog_db_eq by (simp_all add: d1_def UpdateLastSeen_def sql_exec_healthy update_last_seen_def healthy_def)
  have t: "ID t = 1" "Name t = ''acme''" by (simp_all add: t_def scanTenant_def tenant_of_row_def demo_tenant_def)
  have id: "LookupTenantByID 1 d1 = (Inr (Some (scanTenant d1 demo_tenant)), d1)"
    using h1 by (simp add: LookupTenantByID_def sql_query_healthy demo_tenant_def)
  let ?s2 = "demo_syslog\<lparr>sy_db := d1, sy_counts := [1 \<mapsto> 1]\<rparr>"
  have lim: "syslog_check (AllowRPS int_bucket 0 1) ?s2 = (True, ?s2)" "syslog_check (AllowBytes int_bucket 0 1 n) ?s2 = (True, ?s2)" for n
    using id by (simp_all add: syslog_check_def AllowRPS_def AllowBytes_def demo_syslog_def scanTenant_def tenant_of_row_def demo_tenant_def
        positive_def allow_def)
  obtain p n where f: "Forward (StampSyslogMessage demo_line 1 ''acme'') (server_pool syslog_cfg, new_net) = (Inr (), p, n)"
    using demo_forward by blast
  have hf: "\<exists>s3. handle_frame int_bucket t 0 0 0 demo_line ?s2 = (200, s3)"
    using f by (simp add: handle_frame_def t lim) (simp add: demo_syslog_def)
  have rf: "read_frame 1000 (map Byte (octet_frame demo_line)) = (Inr demo_line, [])"
    using octet_counted.dec_enc [of demo_line 1000 "[]"] by (simp add: in_int64_def demo_line_def)
  obtain s3 where sf: "serve_frames int_bucket 1000 t (\<lambda>_. 0) 2 (map Byte (octet_frame demo_line)) ?s2 = (Some (ReadError EOF), [(demo_line, 200)], s3)"
    using hf rf by (auto simp: serve_frames.simps [of _ _ _ _ 2] serve_frames.simps [of _ _ _ _ 5] read_frame_def [of _ "[]"])
  have aq: "acquireConnSlot syslog_cfg 1 (sy_counts demo_syslog) = (True, [1 \<mapsto> 1])"
    by (simp add: acquireConnSlot_def slot_count_def slot_max_def syslog_cfg_def demo_syslog_def in_int64_def)
  have "\<exists>s'. handleConnection int_bucket syslog_cfg (\<lambda>_. 0) demo_conn demo_syslog = (Served t (Some (ReadError EOF)) [(demo_line, 200)], s')"
  proof -
    have "sy_db demo_syslog = syslog_db" "Healthy (fst (sy_pool demo_syslog))" "cfg_MaxFrameBytes syslog_cfg = 1000"
      "tc_handshake demo_conn = Inr ()" "tc_peers demo_conn = [demo_leaf]" "tc_stream demo_conn = map Byte (octet_frame demo_line)"
      by (simp_all add: demo_syslog_def Healthy_def server_pool_def NewCollectorPool_def syslog_cfg_def demo_conn_def)
    then show ?thesis using r sf aq by (simp add: handleConnection_def Let_def t d1_def)
  qed
  then show thesis using that by blast
qed

theorem syslog_connection_sound_witness:
  "\<exists>t s'. handleConnection int_bucket syslog_cfg (\<lambda>_. 0) demo_conn demo_syslog =
      (Served t (Some (ReadError EOF)) [(demo_line, 200)], s') \<and> delivered s' = [frame_payload t demo_line]"
proof -
  obtain t s' where r: "handleConnection int_bucket syslog_cfg (\<lambda>_. 0) demo_conn demo_syslog =
    (Served t (Some (ReadError EOF)) [(demo_line, 200)], s')" by (rule demo_served)
  have "db_inv (sy_db demo_syslog)" using syslog_db_eq by (simp add: demo_syslog_def)
  moreover have "delivered demo_syslog = []" by (simp add: delivered_def demo_syslog_def new_net_def)
  ultimately show ?thesis using syslog_connection_sound [OF _ r] r by (simp add: frame_payload_message split: option.split)
qed

theorem frame_loop_terminates_witness:
  "\<exists>err done s'. serve_frames int_bucket 1000 (tenant_of_row demo_tenant '''') (\<lambda>_. 0) 0 (map Byte (octet_frame demo_line)) demo_syslog
      = (err, done, s') \<and> length done \<le> length (octet_frame demo_line)"
proof -
  obtain err fs s' where r: "serve_frames int_bucket 1000 (tenant_of_row demo_tenant '''') (\<lambda>_. 0) 0 (map Byte (octet_frame demo_line)) demo_syslog
      = (err, fs, s')" by (metis prod_cases3)
  from frame_loop_terminates [OF r] r show ?thesis by auto
qed

end
