(* ===== verification/Go_Json.thy ===== *)
theory Go_Json
  imports Go_Strings
begin

text \<open>
  The part of \<open>encoding/json\<close> that the program uses: \<open>Marshal\<close> of flat structs with string and
  integer fields, and \<open>Unmarshal\<close> of arbitrary JSON text into such structs (unknown members ignored,
  names matched exactly first and then up to case, \<open>null\<close> leaves a field alone, a later member
  overrides an earlier one). Strings are UTF-8; what is not valid UTF-8 is replaced by U+FFFD, as the
  package does. The main result is the round trip of strings and of flat objects.
\<close>

section \<open>UTF-8\<close>

abbreviation code :: "char \<Rightarrow> nat" where "code c \<equiv> of_char c"

definition rune_width :: "nat \<Rightarrow> nat" where
  "rune_width b = (if b < 128 then 1 else if 194 \<le> b \<and> b \<le> 223 then 2 else if 224 \<le> b \<and> b \<le> 239 then 3
     else if 240 \<le> b \<and> b \<le> 244 then 4 else 0)"

definition second_ok :: "nat \<Rightarrow> nat \<Rightarrow> bool" where
  "second_ok b x \<longleftrightarrow> (if b = 224 then 160 else if b = 240 then 144 else 128) \<le> x \<and>
     x \<le> (if b = 237 then 159 else if b = 244 then 143 else 191)"

fun tail_ok :: "string \<Rightarrow> bool" where
  "tail_ok (c # d # r) = (second_ok (code c) (code d) \<and> list_all (\<lambda>x. 128 \<le> code x \<and> code x \<le> 191) r)"
| "tail_ok _ = True"

text \<open>The length of the well-formed encoding at the front of the text; 0 when there is none.\<close>

definition rune_len :: "string \<Rightarrow> nat" where
  "rune_len s =
     (case s of [] \<Rightarrow> 0
      | c # _ \<Rightarrow> let w = rune_width (code c) in if w \<le> length s \<and> tail_ok (take w s) then w else 0)"

definition encode_rune :: "nat \<Rightarrow> string" where
  "encode_rune x =
     map char_of (if x < 128 then [x]
       else if x < 2048 then [192 + x div 64, 128 + x mod 64]
       else if x < 65536 then [224 + x div 4096, 128 + x div 64 mod 64, 128 + x mod 64]
       else [240 + x div 262144, 128 + x div 4096 mod 64, 128 + x div 64 mod 64, 128 + x mod 64])"

definition replacement :: string where
  "replacement = encode_rune 65533"

function valid_utf8 :: "string \<Rightarrow> bool" where
  "valid_utf8 s = (if s = [] then True else if rune_len s = 0 then False else valid_utf8 (drop (rune_len s) s))"
  by pat_completeness auto
termination
  by (relation "measure length") auto

declare valid_utf8.simps [simp del]

lemma rune_len_le: "rune_len s \<le> length s"
  by (auto simp: rune_len_def Let_def split: list.splits)

lemma rune_len_take:
  assumes "rune_len s = n" "0 < n"
  shows "rune_len (take n s @ r) = n"
proof -
  obtain c cs where s: "s = c # cs" using assms by (cases s) (auto simp: rune_len_def)
  have w: "rune_width (code c) = n" "n \<le> length s" "tail_ok (take n s)"
    using assms by (auto simp: rune_len_def s Let_def split: if_splits)
  have t: "take n s @ r = c # (take (n - 1) cs @ r)" using assms(2) s by (cases n) auto
  have "take n (take n s @ r) = take n s" using w(2) by simp
  then show ?thesis using w s unfolding t rune_len_def by (simp add: Let_def)
qed

lemma rune_len_pos: "rune_len (c # cs) = n \<Longrightarrow> 128 \<le> code c \<Longrightarrow> n \<noteq> 0 \<Longrightarrow> 2 \<le> n"
  by (auto simp: rune_len_def rune_width_def Let_def split: if_splits)

lemma rune_len_ascii [simp]: "code c < 128 \<Longrightarrow> rune_len (c # cs) = 1"
  by (simp add: rune_len_def rune_width_def)

section \<open>Strings\<close>

definition hex4 :: "nat \<Rightarrow> string" where
  "hex4 x = map hex_digit [x div 4096 mod 16, x div 256 mod 16, x div 16 mod 16, x mod 16]"

definition esc_ascii :: "char \<Rightarrow> string" where
  "esc_ascii c =
     (let n = code c in
      if n = 34 \<or> n = 92 then [CHR 0x5C, c]
      else if n = 8 then [CHR 0x5C, CHR ''b''] else if n = 12 then [CHR 0x5C, CHR ''f'']
      else if n = 10 then [CHR 0x5C, CHR ''n''] else if n = 13 then [CHR 0x5C, CHR ''r'']
      else if n = 9 then [CHR 0x5C, CHR ''t'']
      else if n < 32 \<or> n = 60 \<or> n = 62 \<or> n = 38 then [CHR 0x5C, CHR ''u''] @ hex4 n
      else [c])"

text \<open>\<open>appendString\<close> with HTML escaping, without the quotes. 226 128 168 and 226 128 169 are U+2028 and U+2029.\<close>

function json_escape :: "string \<Rightarrow> string" where
  "json_escape [] = []"
| "json_escape (c # cs) =
     (if code c < 128 then esc_ascii c @ json_escape cs
      else let n = rune_len (c # cs) in
        if n = 0 then [CHR 0x5C, CHR ''u''] @ hex4 65533 @ json_escape cs
        else (if n = 3 \<and> take 3 (c # cs) = encode_rune 8232 then [CHR 0x5C, CHR ''u''] @ hex4 8232
              else if n = 3 \<and> take 3 (c # cs) = encode_rune 8233 then [CHR 0x5C, CHR ''u''] @ hex4 8233
              else take n (c # cs)) @ json_escape (drop (n - 1) cs))"
  by pat_completeness auto
termination
  by (relation "measure length") auto

declare json_escape.simps(2) [simp del]

definition json_quote :: "string \<Rightarrow> string" where
  "json_quote s = CHR 0x22 # json_escape s @ [CHR 0x22]"

definition read_hex4 :: "string \<Rightarrow> (nat \<times> string) option" where
  "read_hex4 s =
     (if length s < 4 then None
      else case (hex_val (s ! 0), hex_val (s ! 1), hex_val (s ! 2), hex_val (s ! 3)) of
        (Some a, Some b, Some c, Some d) \<Rightarrow> Some (4096 * a + 256 * b + 16 * c + d, drop 4 s)
      | _ \<Rightarrow> None)"

definition simple_esc :: "char \<Rightarrow> char option" where
  "simple_esc e =
     (if e = CHR 0x22 \<or> e = CHR 0x5C \<or> e = CHR 0x2F then Some e
      else if e = CHR ''b'' then Some (char_of (8::nat)) else if e = CHR ''f'' then Some (char_of (12::nat))
      else if e = CHR ''n'' then Some (char_of (10::nat)) else if e = CHR ''r'' then Some (char_of (13::nat))
      else if e = CHR ''t'' then Some (char_of (9::nat)) else None)"

text \<open>A surrogate pair makes one code point, a lone surrogate the replacement character.\<close>

definition low_surrogate :: "string \<Rightarrow> (nat \<times> string) option" where
  "low_surrogate r =
     (if length r < 6 \<or> r ! 0 \<noteq> CHR 0x5C \<or> r ! 1 \<noteq> CHR ''u'' then None
      else case read_hex4 (drop 2 r) of
        Some (y, r') \<Rightarrow> if 56320 \<le> y \<and> y < 57344 then Some (y, r') else None
      | None \<Rightarrow> None)"

definition unescape_u :: "string \<Rightarrow> (string \<times> string) option" where
  "unescape_u s =
     (case read_hex4 s of
        None \<Rightarrow> None
      | Some (x, r) \<Rightarrow>
          if 55296 \<le> x \<and> x < 56320 then
            (case low_surrogate r of
               Some (y, r') \<Rightarrow> Some (encode_rune (65536 + (x - 55296) * 1024 + (y - 56320)), r')
             | None \<Rightarrow> Some (replacement, r))
          else if 56320 \<le> x \<and> x < 57344 then Some (replacement, r)
          else Some (encode_rune x, r))"

definition prepend :: "string \<Rightarrow> (string \<times> 'a) option \<Rightarrow> (string \<times> 'a) option" where
  "prepend p x = map_option (\<lambda>(s, r). (p @ s, r)) x"

lemma read_hex4_shorter: "read_hex4 s = Some (x, r) \<Longrightarrow> length r < length s"
  by (auto simp: read_hex4_def split: if_splits option.splits prod.splits)

lemma low_surrogate_shorter: "low_surrogate r = Some (y, r') \<Longrightarrow> length r' < length r"
  by (auto simp: low_surrogate_def split: if_splits option.splits dest: read_hex4_shorter)

lemma unescape_u_shorter: "unescape_u s = Some (p, r) \<Longrightarrow> length r < length s"
  by (auto simp: unescape_u_def split: if_splits option.splits prod.splits dest!: read_hex4_shorter low_surrogate_shorter)

function unquote :: "string \<Rightarrow> (string \<times> string) option" where
  "unquote [] = None"
| "unquote (c # cs) =
     (if c = CHR 0x22 then Some ([], cs)
      else if c = CHR 0x5C then
        (case cs of [] \<Rightarrow> None
         | e # es \<Rightarrow>
             if e = CHR ''u'' then
               (case unescape_u es of None \<Rightarrow> None | Some (p, r) \<Rightarrow> prepend p (unquote r))
             else (case simple_esc e of None \<Rightarrow> None | Some d \<Rightarrow> prepend [d] (unquote es)))
      else if code c < 32 then None
      else let n = rune_len (c # cs) in
        if n = 0 then prepend replacement (unquote cs)
        else prepend (take n (c # cs)) (unquote (drop (n - 1) cs)))"
  by pat_completeness auto
termination
  by (relation "measure length") (auto dest!: unescape_u_shorter)

declare unquote.simps(2) [simp del]

lemma hex4_value: "4096 * (x div 4096) + 256 * (x div 256 mod 16) + 16 * (x div 16 mod 16) + x mod 16 = (x :: nat)"
proof -
  have "16 * a + p = x \<Longrightarrow> 16 * b + q = a \<Longrightarrow> 16 * c + r = b \<Longrightarrow> 4096 * c + 256 * r + 16 * q + p = x" for a b c p q r :: nat
    by simp
  moreover have "16 * (x div 256) + x div 16 mod 16 = x div 16" "16 * (x div 4096) + x div 256 mod 16 = x div 256"
    using mult_div_mod_eq [of 16 "x div 16"] mult_div_mod_eq [of 16 "x div 256"] by (simp_all flip: div_mult2_eq)
  ultimately show ?thesis using mult_div_mod_eq [of 16 x] by blast
qed

lemma read_hex4_hex4: "x < 65536 \<Longrightarrow> read_hex4 (hex4 x @ r) = Some (x, r)"
proof -
  assume "x < 65536"
  then have "x div 4096 < 16" by simp
  then show ?thesis using hex4_value [of x] by (simp add: read_hex4_def hex4_def hex_val_digit)
qed

lemma unescape_u_hex4: "x < 55296 \<Longrightarrow> unescape_u (hex4 x @ r) = Some (encode_rune x, r)"
  by (simp add: unescape_u_def read_hex4_hex4)

lemma unquote_u: "x < 55296 \<Longrightarrow> unquote (CHR 0x5C # CHR ''u'' # hex4 x @ r) = prepend (encode_rune x) (unquote r)"
  by (simp add: unquote.simps unescape_u_hex4)

lemma unquote_esc_ascii:
  assumes "code c < 128"
  shows "unquote (esc_ascii c @ r) = prepend [c] (unquote r)"
proof -
  have inj: "char_of n = c" if "code c = n" for n using that by auto
  show ?thesis
  proof (cases "code c = 34 \<or> code c = 92 \<or> code c = 8 \<or> code c = 12 \<or> code c = 10 \<or> code c = 13 \<or> code c = 9")
    case True
    moreover have "code c = 34 \<Longrightarrow> c = CHR 0x22" "code c = 92 \<Longrightarrow> c = CHR 0x5C"
    proof -
      have "code CHR 0x22 = 34" "code CHR 0x5C = 92" by simp_all
      then show "code c = 34 \<Longrightarrow> c = CHR 0x22" "code c = 92 \<Longrightarrow> c = CHR 0x5C" by (metis of_char_eq_iff)+
    qed
    ultimately show ?thesis
      by (elim disjE) (simp_all add: esc_ascii_def unquote.simps simple_esc_def inj)
  next
    case False
    show ?thesis
    proof (cases "code c < 32 \<or> code c = 60 \<or> code c = 62 \<or> code c = 38")
      case True
      then have "esc_ascii c = [CHR 0x5C, CHR ''u''] @ hex4 (code c)" using False by (simp add: esc_ascii_def Let_def)
      moreover have "encode_rune (code c) = [c]" using assms by (simp add: encode_rune_def)
      ultimately show ?thesis using assms by (simp add: unquote_u)
    next
      case safe: False
      then have "c \<noteq> CHR 0x22" "c \<noteq> CHR 0x5C" using False by auto
      then show ?thesis using False safe assms by (simp add: esc_ascii_def unquote.simps Let_def)
    qed
  qed
qed

lemma unquote_rune:
  assumes "rune_len s = n" "2 \<le> n" "128 \<le> code (hd s)"
  shows "unquote (take n s @ r) = prepend (take n s) (unquote r)"
proof -
  have n: "n \<le> length s" using assms(1) rune_len_le by metis
  obtain c cs where s: "s = c # cs" using assms n by (cases s) auto
  have t: "take n s @ r = c # (take (n - 1) cs @ r)" using assms(2) s by (cases n) auto
  have l: "rune_len (c # (take (n - 1) cs @ r)) = n" using rune_len_take [OF assms(1), of r] assms(2) t by simp
  have "c \<noteq> CHR 0x22" "c \<noteq> CHR 0x5C" "\<not> code c < 32" using assms(3) s by auto
  moreover have "take n (take n s @ r) = take n s" using n by simp
  moreover have "drop (n - 1) (take (n - 1) cs @ r) = r" using n s by simp
  ultimately show ?thesis unfolding t using l assms(2)
    by (simp only: unquote.simps(2) Let_def if_False) simp
qed

text \<open>Escaping and reading back is the identity on well-formed text.\<close>

lemma unquote_escape: "valid_utf8 s \<Longrightarrow> unquote (json_escape s @ CHR 0x22 # r) = Some (s, r)"
proof (induction s rule: json_escape.induct)
  case 1
  then show ?case by (simp add: unquote.simps)
next
  case (2 c cs)
  let ?n = "rune_len (c # cs)"
  have n: "?n \<noteq> 0" and v: "valid_utf8 (drop ?n (c # cs))"
    using "2.prems" by (auto simp: valid_utf8.simps [of "c # cs"] split: if_splits)
  show ?case
  proof (cases "code c < 128")
    case True
    then have "unquote (json_escape cs @ CHR 0x22 # r) = Some (cs, r)" using "2.IH"(1) v by simp
    then show ?thesis using True by (simp add: json_escape.simps unquote_esc_ascii prepend_def)
  next
    case False
    let ?rest = "json_escape (drop (?n - 1) cs) @ CHR 0x22 # r"
    have two: "2 \<le> ?n" using rune_len_pos [OF refl] False n by simp
    have d: "drop ?n (c # cs) = drop (?n - 1) cs" using two by (cases ?n) auto
    have ih: "unquote ?rest = Some (drop (?n - 1) cs, r)"
      using "2.IH"(3) [OF False refl n] v d by simp
    have split: "take ?n (c # cs) @ drop (?n - 1) cs = c # cs" using d by (metis append_take_drop_id)
    have plain: "unquote (take ?n (c # cs) @ ?rest) = Some (c # cs, r)"
      using unquote_rune [OF refl two, of ?rest] False ih split by (simp add: prepend_def)
    have esc: "unquote (CHR 0x5C # CHR ''u'' # hex4 x @ ?rest) = Some (c # cs, r)"
      if "take ?n (c # cs) = encode_rune x" "x < 55296" for x
      using unquote_u [OF that(2), of ?rest] ih split that(1) by (simp add: prepend_def)
    let ?A = "\<lambda>x. ?n = 3 \<and> take 3 (c # cs) = encode_rune x"
    have body: "json_escape (c # cs) = (if ?A 8232 then [CHR 0x5C, CHR ''u''] @ hex4 8232
        else if ?A 8233 then [CHR 0x5C, CHR ''u''] @ hex4 8233 else take ?n (c # cs)) @ json_escape (drop (?n - 1) cs)"
      by (simp only: json_escape.simps(2) Let_def False n if_False)
    have A: "take ?n (c # cs) = encode_rune x" if "?A x" for x using that by metis
    show ?thesis
    proof (cases "?A 8232")
      case True
      then show ?thesis using esc [OF A [OF True]] by (simp only: body if_True append.simps append_assoc) simp
    next
      case nA: False
      show ?thesis
      proof (cases "?A 8233")
        case True
        then show ?thesis using esc [OF A [OF True]] nA by (simp only: body if_True if_False append.simps append_assoc) simp
      next
        case False
        then show ?thesis using plain nA by (simp only: body if_False append_assoc)
      qed
    qed
  qed
qed

lemma unquote_quote: "valid_utf8 s \<Longrightarrow> unquote (tl (json_quote s) @ r) = Some (s, r)"
  by (simp add: json_quote_def unquote_escape)


section \<open>Parsing\<close>

datatype json = JNull | JBool bool | JNum string | JStr string | JArr "json list" | JObj "(string \<times> json) list"

definition skip_ws :: "string \<Rightarrow> string" where
  "skip_ws s = dropWhile (\<lambda>c. code c \<in> {32, 9, 10, 13}) s"

definition p_literal :: "string \<Rightarrow> json \<Rightarrow> string \<Rightarrow> (json \<times> string) option" where
  "p_literal w v s = (if has_prefix s w then Some (v, drop (length w) s) else None)"

text \<open>Digits, at least one.\<close>

definition p_digits :: "string \<Rightarrow> (string \<times> string) option" where
  "p_digits s = (let ds = takeWhile is_digit s in if ds = [] then None else Some (ds, dropWhile is_digit s))"

definition p_frac :: "string \<Rightarrow> (string \<times> string) option" where
  "p_frac s = (case s of [] \<Rightarrow> Some ([], s)
     | c # r \<Rightarrow> if c = CHR ''.'' then prepend [c] (p_digits r) else Some ([], s))"

definition p_exp :: "string \<Rightarrow> (string \<times> string) option" where
  "p_exp s = (case s of [] \<Rightarrow> Some ([], s)
     | c # r \<Rightarrow> if c = CHR ''e'' \<or> c = CHR ''E''
        then (case r of d # r' \<Rightarrow> if d = CHR ''+'' \<or> d = CHR ''-'' then prepend [c, d] (p_digits r') else prepend [c] (p_digits r)
              | [] \<Rightarrow> None)
        else Some ([], s))"

definition p_uint :: "string \<Rightarrow> (string \<times> string) option" where
  "p_uint s = (case p_digits s of None \<Rightarrow> None
     | Some (ds, r) \<Rightarrow> if hd ds = CHR ''0'' \<and> length ds > 1 then None else Some (ds, r))"

definition p_number :: "string \<Rightarrow> (json \<times> string) option" where
  "p_number s =
     (let (sign, s1) = (case s of c # r \<Rightarrow> if c = CHR ''-'' then ([c], r) else ([], s) | [] \<Rightarrow> ([], s)) in
      case p_uint s1 of None \<Rightarrow> None
      | Some (ds, s2) \<Rightarrow>
          (case p_frac s2 of None \<Rightarrow> None
           | Some (fr, s3) \<Rightarrow>
               (case p_exp s3 of None \<Rightarrow> None
                | Some (ex, s4) \<Rightarrow> Some (JNum (sign @ ds @ fr @ ex), s4))))"

text \<open>
  The recursive descent. The first argument is fuel (twice the length of the text and two is enough, as
  \<open>json_parse_fuel\<close> shows); the second is the nesting that is still allowed.
\<close>

fun p_value :: "nat \<Rightarrow> nat \<Rightarrow> string \<Rightarrow> (json \<times> string) option"
  and p_elems :: "nat \<Rightarrow> nat \<Rightarrow> string \<Rightarrow> (json list \<times> string) option"
  and p_members :: "nat \<Rightarrow> nat \<Rightarrow> string \<Rightarrow> ((string \<times> json) list \<times> string) option" where
  "p_value 0 dep s = None"
| "p_value (Suc n) dep s =
     (case skip_ws s of [] \<Rightarrow> None
      | c # r \<Rightarrow>
          if c = CHR 0x22 then map_option (\<lambda>(x, r'). (JStr x, r')) (unquote r)
          else if c = CHR 0x7B then
            (if dep = 0 then None
             else if take 1 (skip_ws r) = [CHR 0x7D] then Some (JObj [], tl (skip_ws r))
             else map_option (\<lambda>(ms, r'). (JObj ms, r')) (p_members n (dep - 1) r))
          else if c = CHR 0x5B then
            (if dep = 0 then None
             else if take 1 (skip_ws r) = [CHR 0x5D] then Some (JArr [], tl (skip_ws r))
             else map_option (\<lambda>(es, r'). (JArr es, r')) (p_elems n (dep - 1) r))
          else if c = CHR ''t'' then p_literal ''true'' (JBool True) (c # r)
          else if c = CHR ''f'' then p_literal ''false'' (JBool False) (c # r)
          else if c = CHR ''n'' then p_literal ''null'' JNull (c # r)
          else p_number (c # r))"
| "p_elems 0 dep s = None"
| "p_elems (Suc n) dep s =
     (case p_value n dep s of None \<Rightarrow> None
      | Some (v, r) \<Rightarrow>
          (case skip_ws r of [] \<Rightarrow> None
           | c # r' \<Rightarrow> if c = CHR 0x5D then Some ([v], r')
               else if c = CHR '','' then map_option (\<lambda>(vs, q). (v # vs, q)) (p_elems n dep r') else None))"
| "p_members 0 dep s = None"
| "p_members (Suc n) dep s =
     (case skip_ws s of [] \<Rightarrow> None
      | c # r \<Rightarrow>
          if c \<noteq> CHR 0x22 then None
          else case unquote r of None \<Rightarrow> None
            | Some (k, r1) \<Rightarrow>
                (case skip_ws r1 of [] \<Rightarrow> None
                 | d # r2 \<Rightarrow>
                     if d \<noteq> CHR '':'' then None
                     else case p_value n dep r2 of None \<Rightarrow> None
                       | Some (v, r3) \<Rightarrow>
                           (case skip_ws r3 of [] \<Rightarrow> None
                            | e # r4 \<Rightarrow> if e = CHR 0x7D then Some ([(k, v)], r4)
                                else if e = CHR '','' then map_option (\<lambda>(ms, q). ((k, v) # ms, q)) (p_members n dep r4)
                                else None)))"

definition json_parse :: "string \<Rightarrow> json option" where
  "json_parse s =
     (case p_value (2 * length s + 2) 10000 s of None \<Rightarrow> None
      | Some (v, r) \<Rightarrow> if skip_ws r = [] then Some v else None)"

section \<open>Flat structs\<close>

text \<open>\<open>Marshal\<close> of a struct with string, integer and boolean fields, in the order of the fields.\<close>

datatype field_val = FStr string | FInt int64 | FBool bool

fun render_val :: "field_val \<Rightarrow> string" where
  "render_val (FStr s) = json_quote s"
| "render_val (FInt n) = format_int n"
| "render_val (FBool b) = (if b then ''true'' else ''false'')"

fun render_members :: "(string \<times> field_val) list \<Rightarrow> string" where
  "render_members [] = [CHR 0x7D]"
| "render_members [(k, v)] = json_quote k @ [CHR '':''] @ render_val v @ [CHR 0x7D]"
| "render_members ((k, v) # ms) = json_quote k @ [CHR '':''] @ render_val v @ [CHR '',''] @ render_members ms"

definition marshal_struct :: "(string \<times> field_val) list \<Rightarrow> string" where
  "marshal_struct ms = CHR 0x7B # render_members ms"

fun json_val :: "field_val \<Rightarrow> json" where
  "json_val (FStr s) = JStr s"
| "json_val (FInt n) = JNum (format_int n)"
| "json_val (FBool b) = JBool b"

text \<open>
  \<open>Unmarshal\<close> into a field: what happens to its value, and whether a type error is recorded (the
  call then returns an error after it has gone through all members).
\<close>

definition set_int :: "json \<Rightarrow> int64 \<Rightarrow> int64 \<times> bool" where
  "set_int j old = (case j of JNull \<Rightarrow> (old, True)
     | JNum l \<Rightarrow> (case parse_int l of Some v \<Rightarrow> (v, True) | None \<Rightarrow> (old, False))
     | _ \<Rightarrow> (old, False))"

definition set_str :: "json \<Rightarrow> string \<Rightarrow> string \<times> bool" where
  "set_str j old = (case j of JNull \<Rightarrow> (old, True) | JStr s \<Rightarrow> (s, True) | _ \<Rightarrow> (old, False))"

text \<open>Which field of the struct a member goes to.\<close>

definition field_of :: "string list \<Rightarrow> string \<Rightarrow> string option" where
  "field_of names k = (if k \<in> set names then Some k else find (\<lambda>n. equal_fold k n) names)"

text \<open>\<open>Unmarshal\<close> into a struct of which \<open>put\<close> sets one field by name.\<close>

definition unmarshal_struct ::
  "string list \<Rightarrow> (string \<Rightarrow> json \<Rightarrow> 'a \<Rightarrow> 'a \<times> bool) \<Rightarrow> 'a \<Rightarrow> string \<Rightarrow> 'a option" where
  "unmarshal_struct names put zero s =
     (case json_parse s of
        None \<Rightarrow> None
      | Some JNull \<Rightarrow> Some zero
      | Some (JObj ms) \<Rightarrow>
          (let (x, ok) = fold (\<lambda>(k, v) (x, ok).
                 case field_of names k of None \<Rightarrow> (x, ok)
                 | Some f \<Rightarrow> let (x', ok') = put f v x in (x', ok \<and> ok')) ms (zero, True)
           in if ok then Some x else None)
      | Some _ \<Rightarrow> None)"

section \<open>Round trip of flat structs\<close>

definition delim :: "string \<Rightarrow> bool" where
  "delim r \<longleftrightarrow> (case r of [] \<Rightarrow> False | c # _ \<Rightarrow> c = CHR '','' \<or> c = CHR 0x7D)"

lemma skip_ws_punct [simp]:
  "skip_ws (CHR 0x22 # r) = CHR 0x22 # r" "skip_ws (CHR 0x7B # r) = CHR 0x7B # r" "skip_ws (CHR 0x7D # r) = CHR 0x7D # r"
  "skip_ws (CHR '':'' # r) = CHR '':'' # r" "skip_ws (CHR '','' # r) = CHR '','' # r" "skip_ws (CHR ''-'' # r) = CHR ''-'' # r"
  by (simp_all add: skip_ws_def)

lemma delim_simps [simp]: "delim (CHR '','' # r)" "delim (CHR 0x7D # r)"
  by (simp_all add: delim_def)

lemma digit_not_special: "is_digit c \<Longrightarrow> skip_ws (c # r) = c # r"
  "is_digit c \<Longrightarrow> c \<notin> {CHR 0x22, CHR 0x7B, CHR 0x5B, CHR ''t'', CHR ''f'', CHR ''n'', CHR ''-''}"
  by (auto simp: skip_ws_def is_digit_def)

lemma format_uint_no_zero: "0 \<le> n \<Longrightarrow> hd (format_uint n) = CHR ''0'' \<Longrightarrow> length (format_uint n) = 1"
proof (induction n rule: format_uint.induct)
  case (1 n)
  have z: "digit_char d = CHR ''0'' \<Longrightarrow> 0 \<le> d \<Longrightarrow> d < 10 \<Longrightarrow> d = 0" for d
    using digit_char_props(2) [of d] by (auto simp: digit_val_def)
  show ?case
  proof (cases "n < 10")
    case True
    then show ?thesis by (simp add: format_uint.simps [of n])
  next
    case False
    then have hd: "hd (format_uint (n div 10)) = CHR ''0''"
      using "1.prems" by (simp add: format_uint.simps [of n] hd_append)
    then have "length (format_uint (n div 10)) = 1" using "1.IH" [OF False] False by simp
    then have "n div 10 < 10" by (rule contrapos_pp) (simp add: format_uint.simps [of "n div 10"])
    with hd have "n div 10 = 0" using z [of "n div 10"] False by (simp add: format_uint.simps [of "n div 10"])
    then show ?thesis using False by simp
  qed
qed

lemma p_uint_format: "0 \<le> n \<Longrightarrow> delim r \<Longrightarrow> p_uint (format_uint n @ r) = Some (format_uint n, r)"
proof -
  assume n: "0 \<le> n" and r: "delim r"
  have nd: "\<not> is_digit (hd r)" "r \<noteq> []" using r by (auto simp: delim_def is_digit_def split: list.splits)
  have all: "\<forall>c \<in> set (format_uint n). is_digit c" using format_uint_digits n by blast
  then have "takeWhile is_digit (format_uint n @ r) = format_uint n" "dropWhile is_digit (format_uint n @ r) = r"
    using nd by (cases r; simp add: takeWhile_append2 dropWhile_append2)+
  then show ?thesis using format_uint_no_zero [OF n] by (auto simp: p_uint_def p_digits_def Let_def)
qed

lemma p_number_format: "delim r \<Longrightarrow> p_number (format_int n @ r) = Some (JNum (format_int n), r)"
proof -
  assume r: "delim r"
  then have fe: "p_frac r = Some ([], r)" "p_exp r = Some ([], r)"
    by (auto simp: delim_def p_frac_def p_exp_def split: list.splits)
  show ?thesis
  proof (cases "n < 0")
    case True
    then show ?thesis using p_uint_format [of "- n" r] r fe by (simp add: format_int_def p_number_def)
  next
    case False
    obtain c cs where f: "format_uint n = c # cs" by (cases "format_uint n") auto
    have "c \<noteq> CHR ''-''" using format_uint_hd_digit [of n] False f by (auto simp: is_digit_def)
    then show ?thesis using p_uint_format [of n r] r fe False f by (simp add: format_int_def p_number_def)
  qed
qed

fun val_ok :: "field_val \<Rightarrow> bool" where
  "val_ok (FStr s) = valid_utf8 s"
| "val_ok (FInt n) = in_int64 n"
| "val_ok (FBool b) = True"

lemma p_value_render: "val_ok v \<Longrightarrow> delim r \<Longrightarrow> p_value (Suc n) dep (render_val v @ r) = Some (json_val v, r)"
proof (cases v)
  case (FStr s)
  then show "val_ok v \<Longrightarrow> ?thesis" by (simp add: json_quote_def unquote_escape)
next
  case (FBool b)
  then show ?thesis by (simp add: skip_ws_def p_literal_def)
next
  case (FInt i)
  assume r: "delim r"
  obtain c cs where f: "format_int i = c # cs" by (cases "format_int i") (auto simp: format_int_def split: if_splits)
  have "c = CHR ''-'' \<or> is_digit c"
    using f format_uint_hd_digit [of i] by (auto simp: format_int_def split: if_splits)
  then have "skip_ws (c # cs @ r) = c # cs @ r" "c \<notin> {CHR 0x22, CHR 0x7B, CHR 0x5B, CHR ''t'', CHR ''f'', CHR ''n''}"
    using digit_not_special(1) [of c "cs @ r"] digit_not_special(2) [of c] by auto
  then show ?thesis using p_number_format [OF r, of i] FInt f by simp
qed

lemma p_members_render:
  "ms \<noteq> [] \<Longrightarrow> list_all (\<lambda>(k, v). valid_utf8 k \<and> val_ok v) ms \<Longrightarrow> length ms \<le> n \<Longrightarrow>
     p_members (Suc n) dep (render_members ms @ r) = Some (map (\<lambda>(k, v). (k, json_val v)) ms, r)"
proof (induction ms arbitrary: n rule: render_members.induct)
  case (2 k v)
  then obtain m where "n = Suc m" by (cases n) auto
  with 2 show ?case by (simp add: json_quote_def unquote_escape p_value_render del: p_value.simps)
next
  case (3 k v m ms)
  then obtain j where n: "n = Suc j" by (cases n) auto
  with 3 have ih: "p_members (Suc j) dep (render_members (m # ms) @ r) = Some (map (\<lambda>(k, v). (k, json_val v)) (m # ms), r)"
    by simp
  with 3 n show ?case
    by (simp add: json_quote_def unquote_escape p_value_render del: p_value.simps p_members.simps(2))
       (simp add: json_quote_def unquote_escape p_value_render ih del: p_value.simps p_members.simps(2) add: p_members.simps(2) [of "Suc j"])
qed simp

lemma length_render: "length ms \<le> length (render_members ms)"
  by (induction ms rule: render_members.induct) (auto simp: json_quote_def)

text \<open>\<open>Marshal\<close> followed by the parser gives the members back.\<close>

lemma json_parse_marshal:
  assumes "ms \<noteq> []" "list_all (\<lambda>(k, v). valid_utf8 k \<and> val_ok v) ms"
  shows "json_parse (marshal_struct ms) = Some (JObj (map (\<lambda>(k, v). (k, json_val v)) ms))"
proof -
  let ?b = "render_members ms"
  obtain k v ms' where ms: "ms = (k, v) # ms'" using assms(1) by (cases ms) auto
  then obtain r where b: "?b = CHR 0x22 # r" by (cases ms') (auto simp: json_quote_def)
  have "p_members (Suc (2 * length ?b + 2)) 9999 (?b @ []) = Some (map (\<lambda>(k, v). (k, json_val v)) ms, [])"
    by (rule p_members_render [OF assms]) (use length_render [of ms] in linarith)
  then have "p_members (Suc (Suc (Suc (2 * length ?b)))) 9999 ?b = Some (map (\<lambda>(k, v). (k, json_val v)) ms, [])" by simp
  then have "p_value (2 * length (CHR 0x7B # ?b) + 2) 10000 (CHR 0x7B # ?b)
      = Some (JObj (map (\<lambda>(k, v). (k, json_val v)) ms), [])"
    using b by (simp del: p_members.simps)
  then show ?thesis by (simp add: json_parse_def marshal_struct_def skip_ws_def)
qed

section \<open>The fuel is enough\<close>

lemma prepend_Some: "prepend p x = Some (s, r) \<Longrightarrow> \<exists>s'. x = Some (s', r)"
  by (auto simp: prepend_def)

lemma unquote_shorter: "unquote s = Some (x, r) \<Longrightarrow> length r < length s"
proof (induction s arbitrary: x rule: unquote.induct)
  case (2 c cs)
  show ?case
    using "2.prems" "2.IH"
    by (subst (asm) unquote.simps(2))
       (fastforce simp: Let_def dest!: prepend_Some dest: unescape_u_shorter split: if_splits list.splits option.splits)
qed simp

lemma skip_ws_le: "length (skip_ws s) \<le> length s"
  by (simp add: skip_ws_def length_dropWhile_le)

lemma skip_ws_length: "skip_ws s = c # r \<Longrightarrow> length r < length s"
  using skip_ws_le [of s] by simp

lemma p_digits_shorter: "p_digits s = Some (ds, r) \<Longrightarrow> length r < length s"
  by (auto simp: p_digits_def Let_def takeWhile_eq_Nil_iff neq_Nil_conv split: if_splits)
     (metis length_dropWhile_le le_imp_less_Suc)

lemma p_number_shorter: "p_number s = Some (v, r) \<Longrightarrow> length r < length s"
proof -
  have fr: "p_frac t = Some (x, r) \<Longrightarrow> length r \<le> length t" for t x r
    by (auto simp: p_frac_def split: list.splits if_splits dest!: prepend_Some p_digits_shorter)
  have ex: "p_exp t = Some (x, r) \<Longrightarrow> length r \<le> length t" for t x r
    by (auto simp: p_exp_def split: list.splits if_splits dest!: prepend_Some p_digits_shorter)
  have ui: "p_uint t = Some (x, r) \<Longrightarrow> length r < length t" for t x r
    by (auto simp: p_uint_def split: option.splits if_splits dest!: p_digits_shorter)
  show "p_number s = Some (v, r) \<Longrightarrow> length r < length s"
    by (auto simp: p_number_def split: list.splits if_splits option.splits dest!: fr ex ui)
qed

lemma p_literal_shorter: "w \<noteq> [] \<Longrightarrow> p_literal w x s = Some (v, r) \<Longrightarrow> length r < length s"
  by (cases s; cases w) (auto simp: p_literal_def split: if_splits)

lemmas shorter = unquote_shorter skip_ws_length p_number_shorter p_literal_shorter [rotated]

lemma parser_shorter:
  "p_value n dep s = Some (v, r) \<Longrightarrow> length r < length s"
  "p_elems n dep s = Some (es, r) \<Longrightarrow> length r < length s"
  "p_members n dep s = Some (ms, r) \<Longrightarrow> length r < length s"
proof (induction n dep s and n dep s and n dep s arbitrary: v r and es r and ms r rule: p_value_p_elems_p_members.induct)
  case (2 n dep s)
  then show ?case
    by (fastforce simp: le_less_trans [OF diff_le_self le_less_trans [OF skip_ws_le]]
        split: list.splits if_splits prod.splits dest!: shorter)
next
  case (4 n dep s)
  then show ?case
    by (fastforce split: list.splits if_splits option.splits dest!: shorter)
next
  case (6 n dep s)
  then show ?case
    by (fastforce split: list.splits if_splits option.splits dest!: shorter)
qed simp_all

text \<open>With more fuel than that the parser returns the same, so its answer is the one of the unbounded descent.\<close>

lemma parser_fuel_step:
  "2 * length s + 1 \<le> n \<Longrightarrow> p_value (Suc n) dep s = p_value n dep s"
  "2 * length s + 2 \<le> n \<Longrightarrow> p_elems (Suc n) dep s = p_elems n dep s"
  "2 * length s + 1 \<le> n \<Longrightarrow> p_members (Suc n) dep s = p_members n dep s"
proof (induction n arbitrary: dep s)
  case (Suc n)
  case 1
  have "p_members (Suc n) (dep - 1) r = p_members n (dep - 1) r" "p_elems (Suc n) (dep - 1) r = p_elems n (dep - 1) r"
    if "skip_ws s = c # r" for c r
    using Suc.IH(2,3) [of r "dep - 1"] skip_ws_length [OF that] 1 by simp_all
  then show ?case unfolding p_value.simps(2) by (auto simp del: p_elems.simps p_members.simps split: list.splits)
next
  case (Suc n)
  case 2
  have "p_value (Suc n) dep s = p_value n dep s" using Suc.IH(1) [of s dep] 2 by simp
  moreover have "p_elems (Suc n) dep r' = p_elems n dep r'" if "p_value n dep s = Some (v, r)" "skip_ws r = c # r'" for v r c r'
    using Suc.IH(2) [of r' dep] parser_shorter(1) [OF that(1)] skip_ws_length [OF that(2)] 2 by simp
  ultimately show ?case unfolding p_elems.simps(2)
    by (auto simp del: p_value.simps p_elems.simps split: list.splits option.splits)
next
  case (Suc n)
  case 3
  have key: "length r2 < length s" if "skip_ws s = c # r" "unquote r = Some (k, r1)" "skip_ws r1 = d # r2" for c r k r1 d r2
    using skip_ws_length [OF that(1)] unquote_shorter [OF that(2)] skip_ws_length [OF that(3)] by simp
  show ?case
  proof (cases "\<exists>c r k r1 d r2. skip_ws s = c # r \<and> unquote r = Some (k, r1) \<and> skip_ws r1 = d # r2")
    case False
    then consider "skip_ws s = []" | c r where "skip_ws s = c # r" "unquote r = None"
      | c r k r1 where "skip_ws s = c # r" "unquote r = Some (k, r1)" "skip_ws r1 = []"
      by (metis neq_Nil_conv option.exhaust surj_pair)
    then show ?thesis by cases (simp_all add: p_members.simps(2) del: p_value.simps)
  next
    case True
    then obtain c r k r1 d r2 where eq: "skip_ws s = c # r" "unquote r = Some (k, r1)" "skip_ws r1 = d # r2" by blast
    have v: "p_value (Suc n) dep r2 = p_value n dep r2" using Suc.IH(1) [of r2 dep] key [OF eq] 3 by simp
    have m: "p_members (Suc n) dep r4 = p_members n dep r4" if "p_value n dep r2 = Some (x, r3)" "skip_ws r3 = e # r4" for x r3 e r4
      using Suc.IH(3) [of r4 dep] key [OF eq] parser_shorter(1) [OF that(1)] skip_ws_length [OF that(2)] 3 by simp
    show ?thesis unfolding p_members.simps(2) [of "Suc n" dep s] p_members.simps(2) [of n dep s] eq
      by (simp add: v eq del: p_value.simps p_members.simps) (auto simp: m simp del: p_value.simps p_members.simps split: list.split option.split)
  qed
qed simp_all

lemma json_parse_fuel:
  assumes "2 * length s + 2 \<le> n"
  shows "json_parse s = (case p_value n 10000 s of None \<Rightarrow> None | Some (v, r) \<Rightarrow> if skip_ws r = [] then Some v else None)"
proof -
  have "p_value n 10000 s = p_value (2 * length s + 2) 10000 s"
    using assms by (induction n rule: dec_induct) (simp_all add: parser_fuel_step(1) del: p_value.simps)
  then show ?thesis by (simp add: json_parse_def)
qed

end
