(* ===== verification/Pki_Client.thy ===== *)
theory Pki_Client
  imports Go_Json Go_Http Go_Crypto
begin

text \<open>
  \<open>internal/pki/client.go\<close>, \<open>provisioner.go\<close> and \<open>bundle.go\<close>: the client of the certificate authority.
  PEM, X.509, JOSE and zip are libraries: they are the fields of the record \<open>pki_ops\<close>, an argument
  of every function that uses them; the authority itself is the argument \<open>post\<close>, which maps a URL and
  a body to its answer. Each call returns the requests it has sent.
\<close>

section \<open>Data\<close>

record pem_block =
  pb_Type :: string
  pb_Bytes :: "u8 list"

record csr_info =
  cs_CommonName :: string
  cs_DNSNames :: "string list"
  cs_EmailAddresses :: "string list"
  cs_IPAddresses :: "string list"
  cs_URIs :: "string list"
  cs_SignatureOK :: bool

record x509_cert =
  xc_Raw :: "u8 list"
  xc_SerialHex :: string
  xc_NotBefore :: time
  xc_NotAfter :: time

datatype jwk_key = ECPrivate int64 | Ed25519Private | RSAPrivate | OtherSigner | NotASigner

record jwk =
  jk_KeyID :: string
  jk_Algorithm :: string
  jk_Key :: "jwk_key option"

record jwt_claims =
  jc_Issuer :: string
  jc_Audience :: string
  jc_IssuedAt :: int64
  jc_NotBefore :: int64
  jc_Expiry :: int64
  jc_ID :: string
  jc_Subject :: string
  jc_SHA :: string
  jc_SANs :: "string list"

record pki_ops =
  po_PemDecode :: "string \<Rightarrow> pem_block option"
  po_PemEncode :: "pem_block \<Rightarrow> string"
  po_ParseCSR :: "u8 list \<Rightarrow> csr_info result"
  po_ParseCert :: "u8 list \<Rightarrow> x509_cert result"
  po_AppendCertsFromPEM :: "string \<Rightarrow> bool"
  po_ParseJWK :: "string \<Rightarrow> jwk result"
  po_SignJWT :: "string \<Rightarrow> jwk \<Rightarrow> jwt_claims \<Rightarrow> string result"

type_synonym ca_post = "string \<Rightarrow> string \<Rightarrow> (int64 \<times> string result) result"

section \<open>The provisioner\<close>

record JWKProvisioner =
  pv_name :: string
  pv_key :: jwk
  pv_rootSHA :: string
  pv_alg :: string

definition signature_algorithms :: "string list" where
  "signature_algorithms = [''ES256'', ''ES384'', ''ES512'', ''EdDSA'', ''RS256'', ''RS384'', ''RS512'', ''PS256'', ''PS384'', ''PS512'']"

definition signatureAlgorithm :: "jwk \<Rightarrow> string result" where
  "signatureAlgorithm k =
     (if jk_Algorithm k \<noteq> ''''
      then (if jk_Algorithm k \<in> set signature_algorithms then Inr (jk_Algorithm k) else Inl (Msg ''unsupported JWK signature algorithm''))
      else case jk_Key k of
        Some (ECPrivate bits) \<Rightarrow>
          if bits = 256 then Inr ''ES256'' else if bits = 384 then Inr ''ES384'' else if bits = 521 then Inr ''ES512''
          else Inl (Msg ''unsupported JWK private key type'')
      | Some Ed25519Private \<Rightarrow> Inr ''EdDSA''
      | Some RSAPrivate \<Rightarrow> Inr ''RS256''
      | _ \<Rightarrow> Inl (Msg ''unsupported JWK private key type''))"

definition rootFingerprint :: "pki_ops \<Rightarrow> string \<Rightarrow> string result" where
  "rootFingerprint ops rootCert =
     (case po_PemDecode ops rootCert of
        None \<Rightarrow> Inl (Msg ''root certificate is not PEM encoded'')
      | Some block \<Rightarrow>
          if pb_Type block \<noteq> ''CERTIFICATE'' then Inl (Msg ''root certificate is not PEM encoded'')
          else case po_ParseCert ops (pb_Bytes block) of
            Inl _ \<Rightarrow> Inl (Msg ''parse root certificate'')
          | Inr cert \<Rightarrow> Inr (hex_encode (sha256 (xc_Raw cert))))"

definition NewJWKProvisioner :: "pki_ops \<Rightarrow> string \<Rightarrow> string \<Rightarrow> string \<Rightarrow> JWKProvisioner result" where
  "NewJWKProvisioner ops name rawJWK rootCert =
     (case po_ParseJWK ops rawJWK of
        Inl _ \<Rightarrow> Inl (Msg ''parse JWK'')
      | Inr k \<Rightarrow>
          if jk_Key k = None then Inl (Msg ''JWK has no key material'')
          else if jk_Key k = Some NotASigner then Inl (Msg ''JWK key is not a signer (private key required)'')
          else case signatureAlgorithm k of
            Inl e \<Rightarrow> Inl e
          | Inr alg \<Rightarrow>
              (case rootFingerprint ops rootCert of
                 Inl _ \<Rightarrow> Inl (Msg ''root fingerprint'')
               | Inr fp \<Rightarrow> Inr \<lparr>pv_name = name, pv_key = k, pv_rootSHA = fp, pv_alg = alg\<rparr>))"

definition token_claims :: "JWKProvisioner \<Rightarrow> u8 list \<Rightarrow> time \<Rightarrow> string \<Rightarrow> string \<Rightarrow> string list \<Rightarrow> jwt_claims" where
  "token_claims p rnd now audience subject sans =
     \<lparr>jc_Issuer = pv_name p, jc_Audience = audience, jc_IssuedAt = unix now, jc_NotBefore = unix (now - 30 * second),
      jc_Expiry = unix (now + 5 * minute), jc_ID = hex_encode rnd, jc_Subject = subject, jc_SHA = pv_rootSHA p, jc_SANs = sans\<rparr>"

definition Token :: "pki_ops \<Rightarrow> JWKProvisioner \<Rightarrow> u8 list \<Rightarrow> time \<Rightarrow> string \<Rightarrow> string \<Rightarrow> string list \<Rightarrow> string result" where
  "Token ops p rnd now audience subject sans =
     po_SignJWT ops (pv_alg p) (pv_key p) (token_claims p rnd now audience subject sans)"

definition RootFingerprint :: "JWKProvisioner \<Rightarrow> string" where
  "RootFingerprint p = pv_rootSHA p"

section \<open>Durations as text\<close>

text \<open>\<open>time.Duration.String\<close> for a positive duration: \<open>2160h0m0s\<close>, \<open>1.5s\<close>, \<open>250ms\<close>.\<close>

fun frac_digits :: "nat \<Rightarrow> int \<Rightarrow> string" where
  "frac_digits 0 v = []"
| "frac_digits (Suc n) v = frac_digits n (v div 10) @ [digit_char (v mod 10)]"

definition fmt_frac :: "nat \<Rightarrow> int \<Rightarrow> string" where
  "fmt_frac prec v =
     (let ds = trim_right (frac_digits prec (v mod 10 ^ prec)) CHR ''0'' in if ds = [] then [] else CHR ''.'' # ds)"

definition duration_string :: "time \<Rightarrow> string" where
  "duration_string d =
     (if d < 1000 then format_int d @ ''ns''
      else if d < 1000000 then format_int (d div 1000) @ fmt_frac 3 d @ [CHR 0xC2, CHR 0xB5] @ ''s''
      else if d < second then format_int (d div 1000000) @ fmt_frac 6 d @ ''ms''
      else (let secs = d div second; s = format_int (secs mod 60) @ fmt_frac 9 d @ ''s'' in
            if secs div 60 = 0 then s
            else (let m = format_int (secs div 60 mod 60) @ ''m'' @ s in
                  if secs div 3600 = 0 then m else format_int (secs div 3600) @ ''h'' @ m)))"

section \<open>The client\<close>

record Client =
  cl_endpoint :: string
  cl_provisioner :: JWKProvisioner
  cl_rootCert :: string
  cl_lifetime :: time

definition rootPool :: "pki_ops \<Rightarrow> string \<Rightarrow> unit result" where
  "rootPool ops rootCert =
     (if po_AppendCertsFromPEM ops rootCert then Inr () else Inl (Msg ''no certificates found in root CA PEM''))"

definition NewClient :: "pki_ops \<Rightarrow> string \<Rightarrow> string \<Rightarrow> string \<Rightarrow> string \<Rightarrow> time \<Rightarrow> Client result" where
  "NewClient ops endpoint provisionerName provisionerKey rootCert lifetime =
     (case NewJWKProvisioner ops provisionerName provisionerKey rootCert of
        Inl _ \<Rightarrow> Inl (Msg ''provisioner'')
      | Inr prov \<Rightarrow>
          (case rootPool ops rootCert of
             Inl e \<Rightarrow> Inl e
           | Inr _ \<Rightarrow> Inr \<lparr>cl_endpoint = trim_right endpoint CHR ''/'', cl_provisioner = prov, cl_rootCert = rootCert,
                           cl_lifetime = lifetime\<rparr>))"

definition endpointURL :: "Client \<Rightarrow> string \<Rightarrow> string" where
  "endpointURL c path = cl_endpoint c @ path"

definition csrSubjectAndSANs :: "pki_ops \<Rightarrow> string \<Rightarrow> (string \<times> string list) result" where
  "csrSubjectAndSANs ops csrPEM =
     (case po_PemDecode ops csrPEM of
        None \<Rightarrow> Inl (Msg ''CSR is not a PEM certificate request'')
      | Some block \<Rightarrow>
          if pb_Type block \<noteq> ''CERTIFICATE REQUEST'' then Inl (Msg ''CSR is not a PEM certificate request'')
          else case po_ParseCSR ops (pb_Bytes block) of
            Inl _ \<Rightarrow> Inl (Msg ''parse CSR'')
          | Inr csr \<Rightarrow>
              if \<not> cs_SignatureOK csr then Inl (Msg ''invalid CSR signature'')
              else Inr (cs_CommonName csr, cs_DNSNames csr @ cs_EmailAddresses csr @ cs_IPAddresses csr @ cs_URIs csr))"

text \<open>The answer of the authority: JSON with a \<open>crt\<close> member, or plain PEM.\<close>

definition set_strs :: "json \<Rightarrow> bool" where
  "set_strs j = (case j of JNull \<Rightarrow> True
     | JArr es \<Rightarrow> list_all (\<lambda>e. case e of JStr _ \<Rightarrow> True | JNull \<Rightarrow> True | _ \<Rightarrow> False) es | _ \<Rightarrow> False)"

definition put_cert_response :: "string \<Rightarrow> json \<Rightarrow> string \<Rightarrow> string \<times> bool" where
  "put_cert_response f v crt =
     (if f = ''crt'' then set_str v crt
      else if f = ''ca'' then (crt, snd (set_str v ''''))
      else (crt, set_strs v))"

definition parse_pem_cert :: "pki_ops \<Rightarrow> string \<Rightarrow> string \<Rightarrow> x509_cert result" where
  "parse_pem_cert ops text msg =
     (case po_PemDecode ops text of None \<Rightarrow> Inl (Msg msg) | Some block \<Rightarrow> po_ParseCert ops (pb_Bytes block))"

definition parseCertResponse :: "pki_ops \<Rightarrow> string result \<Rightarrow> x509_cert result" where
  "parseCertResponse ops body =
     (case body of
        Inl _ \<Rightarrow> Inl (Msg ''read cert response'')
      | Inr raw \<Rightarrow>
          (case unmarshal_struct [''crt'', ''ca'', ''certChain''] put_cert_response '''' raw of
             Some crt \<Rightarrow>
               if crt \<noteq> '''' then parse_pem_cert ops crt ''no PEM block in sign response crt''
               else parse_pem_cert ops raw ''no PEM block in sign response''
           | None \<Rightarrow> parse_pem_cert ops raw ''no PEM block in sign response''))"

definition sign_body :: "string \<Rightarrow> string \<Rightarrow> time \<Rightarrow> string" where
  "sign_body csrPEM token lifetime =
     marshal_struct ([(''csr'', FStr csrPEM), (''ott'', FStr token)] @
       (if lifetime > 0 then [(''notAfter'', FStr (duration_string lifetime))] else []))"

definition Sign_cert ::
  "pki_ops \<Rightarrow> ca_post \<Rightarrow> u8 list \<Rightarrow> time \<Rightarrow> Client \<Rightarrow> string \<Rightarrow> time \<Rightarrow> x509_cert result \<times> (string \<times> string) list" where
  "Sign_cert ops post rnd now c csrPEM lifetime0 =
     (case csrSubjectAndSANs ops csrPEM of
        Inl e \<Rightarrow> (Inl e, [])
      | Inr (subject, sans) \<Rightarrow>
          (case Token ops (cl_provisioner c) rnd now (endpointURL c ''/1.0/sign'') subject sans of
             Inl _ \<Rightarrow> (Inl (Msg ''token''), [])
           | Inr token \<Rightarrow>
               (let lifetime = (if lifetime0 \<le> 0 then cl_lifetime c else lifetime0);
                    url = endpointURL c ''/1.0/sign''; body = sign_body csrPEM token lifetime
                in (case post url body of
                      Inl _ \<Rightarrow> Inl (Msg ''sign request'')
                    | Inr (status, resp) \<Rightarrow>
                        if status \<noteq> 200 \<and> status \<noteq> 201 then Inl (Msg ''sign failed'') else parseCertResponse ops resp,
                    [(url, body)]))))"

definition Renew ::
  "pki_ops \<Rightarrow> ca_post \<Rightarrow> u8 list \<Rightarrow> time \<Rightarrow> Client \<Rightarrow> string \<Rightarrow> string \<Rightarrow> x509_cert result \<times> (string \<times> string) list" where
  "Renew ops post rnd now c serial csrPEM = Sign_cert ops post rnd now c csrPEM (cl_lifetime c)"

definition normalizeSerial :: "string \<Rightarrow> string" where
  "normalizeSerial serial =
     (let s = trim_space serial in
      if s = '''' \<or> has_prefix s ''0x'' \<or> has_prefix s ''0X'' then s else ''0x'' @ s)"

definition revoke_body :: "string \<Rightarrow> string \<Rightarrow> string \<Rightarrow> string" where
  "revoke_body serial token reason =
     marshal_struct [(''serial'', FStr serial), (''ott'', FStr token), (''reasonCode'', FInt 0), (''reason'', FStr reason), (''passive'', FBool True)]"

definition Revoke ::
  "pki_ops \<Rightarrow> ca_post \<Rightarrow> u8 list \<Rightarrow> time \<Rightarrow> Client \<Rightarrow> string \<Rightarrow> string \<Rightarrow> unit result \<times> (string \<times> string) list" where
  "Revoke ops post rnd now c serial0 reason =
     (let serial = normalizeSerial serial0; url = endpointURL c ''/1.0/revoke'' in
      case Token ops (cl_provisioner c) rnd now url serial [] of
        Inl _ \<Rightarrow> (Inl (Msg ''token''), [])
      | Inr token \<Rightarrow>
          (let body = revoke_body serial token reason in
           (case post url body of
              Inl _ \<Rightarrow> Inl (Msg ''revoke request'')
            | Inr (status, _) \<Rightarrow> if status \<noteq> 200 then Inl (Msg ''revoke failed'') else Inr (), [(url, body)])))"

section \<open>Bundles\<close>

text \<open>
  What executing \<open>templates/rsyslog.conf.tmpl\<close> writes: its lines, with the two fields filled in. The
  template has no other action, so its execution cannot fail.
\<close>

definition rsyslog_conf_lines :: "string \<Rightarrow> int64 \<Rightarrow> string list" where
  \<open>rsyslog_conf_lines hostname port =
     [''# Signoz OTLP proxy '' @ [CHR 0xE2, CHR 0x80, CHR 0x94] @ '' syslog relay configuration'',
      ''# Managed by install.sh '' @ [CHR 0xE2, CHR 0x80, CHR 0x94] @ '' do not edit manually'',
      '''',
      ''global('',
      ''    DefaultNetstreamDriver="gtls"'',
      ''    DefaultNetstreamDriverCAFile="/etc/ssl/signoz/ca.crt"'',
      ''    DefaultNetstreamDriverCertFile="/etc/ssl/signoz/client.crt"'',
      ''    DefaultNetstreamDriverKeyFile="/etc/ssl/signoz/client.key"'',
      '')'',
      '''',
      ''ruleset(name="signozRelay") {'',
      ''    action('',
      ''        type="omfwd"'',
      ''        Target="'' @ hostname @ ''"'',
      ''        Port="'' @ format_int port @ ''"'',
      ''        Protocol="tcp"'',
      ''        TCP_Framing="octet-counted"'',
      ''        StreamDriver="gtls"'',
      ''        StreamDriverMode="1"'',
      ''        StreamDriverAuthMode="x509/name"'',
      ''        StreamDriverPermittedPeers="'' @ hostname @ ''"'',
      ''        template="RSYSLOG_SyslogProtocol23Format"'',
      ''        queue.type="LinkedList"'',
      ''        queue.filename="signoz"'',
      ''        queue.spoolDirectory="/var/spool/rsyslog"'',
      ''        queue.maxDiskSpace="1g"'',
      ''        queue.saveOnShutdown="on"'',
      ''        action.resumeRetryCount="-1"'',
      ''    )'',
      ''    stop'',
      ''}'',
      '''',
      ''# Forward all messages to the signoz relay ruleset'',
      ''*.* call signozRelay'']\<close>

definition rsyslog_conf :: "string \<Rightarrow> int64 \<Rightarrow> string" where
  "rsyslog_conf hostname port = concat (map (\<lambda>l. l @ [CHR 0x0A]) (rsyslog_conf_lines hostname port))"

text \<open>The files of a bundle (name, contents, mode) and the archive of them, whose format is the argument \<open>archive\<close>.\<close>

definition bundle_files :: "string \<Rightarrow> string \<Rightarrow> u8 list \<Rightarrow> string \<Rightarrow> string \<Rightarrow> int64 \<Rightarrow> (string \<times> string \<times> int64) list" where
  "bundle_files installSh certPEM keyPEM rootCert hostname syslogPort =
     [(''ca.crt'', rootCert, 420), (''client.crt'', certPEM, 420)] @
     (if length keyPEM > 0 then [(''client.key'', string_of keyPEM, 384)] else []) @
     [(''60-signoz.conf'', rsyslog_conf hostname syslogPort, 420), (''install.sh'', installSh, 493)]"

definition GenerateBundle ::
  "((string \<times> string \<times> int64) list \<Rightarrow> string result) \<Rightarrow> string \<Rightarrow> string \<Rightarrow> u8 list \<Rightarrow> string \<Rightarrow> string \<Rightarrow> int64 \<Rightarrow> string result" where
  "GenerateBundle archive installSh certPEM keyPEM rootCert hostname syslogPort =
     archive (bundle_files installSh certPEM keyPEM rootCert hostname syslogPort)"

definition EncodeCertPEM :: "pki_ops \<Rightarrow> x509_cert \<Rightarrow> string" where
  "EncodeCertPEM ops cert = po_PemEncode ops \<lparr>pb_Type = ''CERTIFICATE'', pb_Bytes = xc_Raw cert\<rparr>"

section \<open>Properties\<close>

text \<open>C15. A certificate is only ever requested for a signing request whose own signature is valid, with a
  one-time token that names exactly its subject and alternative names, is addressed to the sign
  endpoint and is valid from 30 seconds before to 5 minutes after the call; the request that is sent
  decodes to that CSR, that token and the effective lifetime.\<close>

theorem sign_bound_to_csr:
  assumes "Sign_cert ops post rnd now c csrPEM lifetime = (r, reqs)" and "reqs \<noteq> [] \<or> r = Inr cert"
  shows "\<exists>block csr token body. po_PemDecode ops csrPEM = Some block \<and> pb_Type block = ''CERTIFICATE REQUEST'' \<and>
     po_ParseCSR ops (pb_Bytes block) = Inr csr \<and> cs_SignatureOK csr \<and>
     po_SignJWT ops (pv_alg (cl_provisioner c)) (pv_key (cl_provisioner c))
       \<lparr>jc_Issuer = pv_name (cl_provisioner c), jc_Audience = cl_endpoint c @ ''/1.0/sign'', jc_IssuedAt = unix now,
        jc_NotBefore = unix now - 30, jc_Expiry = unix now + 300, jc_ID = hex_encode rnd, jc_Subject = cs_CommonName csr,
        jc_SHA = pv_rootSHA (cl_provisioner c),
        jc_SANs = cs_DNSNames csr @ cs_EmailAddresses csr @ cs_IPAddresses csr @ cs_URIs csr\<rparr> = Inr token \<and>
     reqs = [(cl_endpoint c @ ''/1.0/sign'', body)] \<and>
     (valid_utf8 csrPEM \<and> valid_utf8 token \<and> valid_utf8 (duration_string (if lifetime \<le> 0 then cl_lifetime c else lifetime)) \<longrightarrow>
       json_parse body = Some (JObj ([(''csr'', JStr csrPEM), (''ott'', JStr token)] @
         (if (if lifetime \<le> 0 then cl_lifetime c else lifetime) > 0
          then [(''notAfter'', JStr (duration_string (if lifetime \<le> 0 then cl_lifetime c else lifetime)))] else []))))"
proof -
  obtain subject sans where cs: "csrSubjectAndSANs ops csrPEM = Inr (subject, sans)"
    using assms by (auto simp: Sign_cert_def split: sum.splits)
  obtain block csr where b: "po_PemDecode ops csrPEM = Some block" "pb_Type block = ''CERTIFICATE REQUEST''"
    "po_ParseCSR ops (pb_Bytes block) = Inr csr" "cs_SignatureOK csr" and
    s: "subject = cs_CommonName csr" "sans = cs_DNSNames csr @ cs_EmailAddresses csr @ cs_IPAddresses csr @ cs_URIs csr"
    using cs by (auto simp: csrSubjectAndSANs_def split: option.splits if_splits sum.splits)
  obtain token where t: "Token ops (cl_provisioner c) rnd now (endpointURL c ''/1.0/sign'') subject sans = Inr token"
    using assms cs by (auto simp: Sign_cert_def split: sum.splits)
  define l where "l = (if lifetime \<le> 0 then cl_lifetime c else lifetime)"
  have reqs: "reqs = [(cl_endpoint c @ ''/1.0/sign'', sign_body csrPEM token l)]"
    using assms(1) cs t by (auto simp: Sign_cert_def Let_def endpointURL_def l_def)
  have u: "unix (now - 30 * second) = unix now - 30" "unix (now + 5 * minute) = unix now + 300"
    by (simp_all add: unix_def)
  have names: "valid_utf8 ''csr''" "valid_utf8 ''ott''" "valid_utf8 ''notAfter''" by code_simp+
  have js: "json_parse (sign_body csrPEM token l) = Some (JObj ([(''csr'', JStr csrPEM), (''ott'', JStr token)] @
      (if l > 0 then [(''notAfter'', JStr (duration_string l))] else [])))"
    if "valid_utf8 csrPEM" "valid_utf8 token" "valid_utf8 (duration_string l)"
    using that names by (simp add: sign_body_def json_parse_marshal)
  show ?thesis
    using b reqs t [unfolded Token_def token_claims_def u s endpointURL_def] js unfolding l_def by blast
qed

definition demo_csr :: csr_info where
  "demo_csr = \<lparr>cs_CommonName = ''agent-1'', cs_DNSNames = [''a.example''], cs_EmailAddresses = [], cs_IPAddresses = [], cs_URIs = [], cs_SignatureOK = True\<rparr>"

definition demo_cert :: x509_cert where
  "demo_cert = \<lparr>xc_Raw = [48, 1], xc_SerialHex = ''1f'', xc_NotBefore = 0, xc_NotAfter = hour\<rparr>"

definition demo_pki :: pki_ops where
  "demo_pki = \<lparr>po_PemDecode = (\<lambda>s. if s = ''CSR'' then Some \<lparr>pb_Type = ''CERTIFICATE REQUEST'', pb_Bytes = [1]\<rparr>
       else if s = ''CRT'' then Some \<lparr>pb_Type = ''CERTIFICATE'', pb_Bytes = [2]\<rparr> else None),
     po_PemEncode = (\<lambda>b. string_of (pb_Bytes b)), po_ParseCSR = (\<lambda>bs. if bs = [1] then Inr demo_csr else Inl (Msg ''asn1'')),
     po_ParseCert = (\<lambda>bs. if bs = [2] then Inr demo_cert else Inl (Msg ''asn1'')), po_AppendCertsFromPEM = (\<lambda>_. True),
     po_ParseJWK = (\<lambda>_. Inr \<lparr>jk_KeyID = ''k'', jk_Algorithm = '''', jk_Key = Some (ECPrivate 256)\<rparr>),
     po_SignJWT = (\<lambda>alg k cl. Inr (alg @ jc_Subject cl))\<rparr>"

definition demo_client :: Client where
  "demo_client = \<lparr>cl_endpoint = ''https://ca:9000'', cl_provisioner = \<lparr>pv_name = ''p'', pv_key = \<lparr>jk_KeyID = ''k'', jk_Algorithm = '''',
     jk_Key = Some (ECPrivate 256)\<rparr>, pv_rootSHA = ''aa'', pv_alg = ''ES256''\<rparr>, cl_rootCert = ''ROOT'', cl_lifetime = hour\<rparr>"

theorem sign_bound_to_csr_witness:
  "\<exists>body. snd (Sign_cert demo_pki (\<lambda>_ _. Inl Timeout) [7] 0 demo_client ''CSR'' 0) = [(''https://ca:9000/1.0/sign'', body)]"
proof -
  obtain r reqs where e: "Sign_cert demo_pki (\<lambda>_ _. Inl Timeout) [7] 0 demo_client ''CSR'' 0 = (r, reqs)" by fastforce
  have "reqs \<noteq> []"
    using e by (auto simp: Sign_cert_def csrSubjectAndSANs_def demo_pki_def demo_csr_def Token_def Let_def)
  with sign_bound_to_csr [OF e] show ?thesis unfolding e by (auto simp: demo_client_def)
qed

text \<open>Serials reach the authority in hexadecimal form; normalising twice changes nothing.\<close>

lemma normalizeSerial_prefixed: "normalizeSerial s = '''' \<or> has_prefix (normalizeSerial s) ''0x'' \<or> has_prefix (normalizeSerial s) ''0X''"
  by (simp add: normalizeSerial_def Let_def)

text \<open>The private key of a bundle, and nothing else in it, is readable by its owner only.\<close>

lemma bundle_key_mode:
  "(n, body, mode) \<in> set (bundle_files sh certPEM keyPEM rootCert host port) \<Longrightarrow> mode = 384 \<longleftrightarrow> n = ''client.key''"
  by (auto simp: bundle_files_def split: if_splits)

end
