(* ===== verification/Go_Mux.thy ===== *)
theory Go_Mux
  imports Go_Http
begin

text \<open>
  The multiplexer of \<open>net/http\<close> (\<open>ServeMux\<close> with patterns of a method and a path), for the patterns
  that the program registers: how a path is cleaned and split, how a pattern matches, what a table of
  patterns answers to a method and a path. The type of the handlers is a parameter.
\<close>

section \<open>Patterns and paths\<close>

datatype seg = Lit string | Wild string | Rest

type_synonym 'h route = "string \<times> seg list \<times> 'h"

text \<open>A path below the root as its segments; a trailing slash is an empty last segment.\<close>

definition path_segs :: "string \<Rightarrow> string list" where
  "path_segs p = split_n (Suc (length p)) CHR ''/'' (tl p)"

text \<open>A wildcard stands for one non-empty segment, \<open>Rest\<close> for the rest after a trailing slash.\<close>

fun match_segs :: "seg list \<Rightarrow> string list \<Rightarrow> (string \<times> string) list option" where
  "match_segs [] [] = Some []"
| "match_segs [] (_ # _) = None"
| "match_segs (Rest # _) xs = (if xs = [] then None else Some [])"
| "match_segs (Lit _ # _) [] = None"
| "match_segs (Lit l # ps) (x # xs) = (if x = l then match_segs ps xs else None)"
| "match_segs (Wild _ # _) [] = None"
| "match_segs (Wild n # ps) (x # xs) = (if x = '''' then None else map_option (Cons (n, x)) (match_segs ps xs))"

text \<open>A pattern for GET also serves HEAD.\<close>

definition method_matches :: "string \<Rightarrow> string \<Rightarrow> bool" where
  "method_matches pm m \<longleftrightarrow> m = pm \<or> pm = ''GET'' \<and> m = ''HEAD''"

fun find_route :: "'h route list \<Rightarrow> string \<Rightarrow> string list \<Rightarrow> ('h \<times> (string \<times> string) list) option" where
  "find_route [] m xs = None"
| "find_route ((pm, ps, h) # rs) m xs =
     (case match_segs ps xs of
        Some vs \<Rightarrow> if method_matches pm m then Some (h, vs) else find_route rs m xs
      | None \<Rightarrow> find_route rs m xs)"

text \<open>\<open>cleanPath\<close>: dot segments and repeated slashes are resolved, a trailing slash is kept.\<close>

fun clean_segs :: "string list \<Rightarrow> string list \<Rightarrow> string list" where
  "clean_segs out [] = rev out"
| "clean_segs out (x # xs) =
     (if x = '''' \<or> x = ''.'' then clean_segs out xs
      else if x = ''..'' then clean_segs (tl out) xs
      else clean_segs (x # out) xs)"

definition cleanPath :: "string \<Rightarrow> string" where
  "cleanPath p0 =
     (let p = (if p0 = '''' \<or> hd p0 \<noteq> CHR ''/'' then CHR ''/'' # p0 else p0);
          np = CHR ''/'' # join CHR ''/'' (clean_segs [] (path_segs p))
      in if last p = CHR ''/'' \<and> np \<noteq> ''/'' then np @ ''/'' else np)"

section \<open>Dispatch\<close>

text \<open>The methods a path would answer to, the path with a slash added included.\<close>

definition allowed_methods :: "'h route list \<Rightarrow> string list \<Rightarrow> string list" where
  "allowed_methods rs xs =
     (let served = (\<lambda>m. \<exists>(pm, ps, _) \<in> set rs. method_matches pm m \<and>
                       (match_segs ps xs \<noteq> None \<or> last xs \<noteq> '''' \<and> match_segs ps (xs @ ['''']) \<noteq> None))
      in filter served [''GET'', ''HEAD'', ''POST''])"

definition comma_join :: "string list \<Rightarrow> string" where
  "comma_join ms = concat (map (\<lambda>(i, m). (if i = 0 then m else '', '' @ m)) (enumerate 0 ms))"

text \<open>
  The answer to a method and a path: a redirect to the path with a slash when only that one is
  registered, a redirect to the cleaned path, the handler with its path values, 405 with the methods
  that are allowed, or 404. The path of a CONNECT request is not cleaned.
\<close>

datatype 'h mux_answer = MovedTo string | MethodNotAllowed string | NotFound | Dispatch 'h "(string \<times> string) list"

definition mux :: "'h route list \<Rightarrow> string \<Rightarrow> string \<Rightarrow> 'h mux_answer" where
  "mux rs m p =
     (let path = (if m = ''CONNECT'' then p else cleanPath p); xs = path_segs path in
      case find_route rs m xs of
        None \<Rightarrow>
          (if last xs \<noteq> '''' \<and> find_route rs m (xs @ ['''']) \<noteq> None then MovedTo (path @ ''/'')
           else if path \<noteq> p then MovedTo path
           else if allowed_methods rs xs \<noteq> [] then MethodNotAllowed (comma_join (allowed_methods rs xs))
           else NotFound)
      | Some (h, vs) \<Rightarrow> (if path \<noteq> p then MovedTo path else Dispatch h vs))"

text \<open>How the multiplexer's own answers are written; \<open>location\<close> renders the URL of a path.\<close>

fun mux_response :: "(string \<Rightarrow> string) \<Rightarrow> request \<Rightarrow> 'h mux_answer \<Rightarrow> response \<Rightarrow> response" where
  "mux_response location r (MovedTo p) w = Redirect r (location p) 301 w"
| "mux_response location r (MethodNotAllowed allow) w = http_Error ''Method Not Allowed'' 405 (set_header ''Allow'' allow w)"
| "mux_response location r NotFound w = http_Error ''404 page not found'' 404 w"
| "mux_response location r (Dispatch h vs) w = w"

lemma find_route_mem:
  "find_route rs m xs = Some (h, vs) \<Longrightarrow> \<exists>pm ps. (pm, ps, h) \<in> set rs \<and> method_matches pm m \<and> match_segs ps xs = Some vs"
  by (induction rs m xs rule: find_route.induct) (auto split: option.splits if_splits)

lemma mux_Dispatch:
  assumes "mux rs m p = Dispatch h vs"
  shows "\<exists>pm ps. (pm, ps, h) \<in> set rs \<and> method_matches pm m \<and> match_segs ps (path_segs p) = Some vs"
    and "m \<noteq> ''CONNECT'' \<Longrightarrow> cleanPath p = p"
  using assms find_route_mem [of rs m "path_segs p" h vs]
  by (auto simp: mux_def Let_def split: option.splits if_splits)

section \<open>Unambiguous tables\<close>

text \<open>Whether some path matches both patterns.\<close>

fun overlap :: "seg list \<Rightarrow> seg list \<Rightarrow> bool" where
  "overlap [] [] = True"
| "overlap [] (_ # _) = False"
| "overlap (_ # _) [] = False"
| "overlap (Rest # _) (_ # _) = True"
| "overlap (_ # _) (Rest # _) = True"
| "overlap (Lit a # ps) (Lit b # qs) = (a = b \<and> overlap ps qs)"
| "overlap (Lit a # ps) (Wild _ # qs) = (a \<noteq> '''' \<and> overlap ps qs)"
| "overlap (Wild _ # ps) (Lit b # qs) = (b \<noteq> '''' \<and> overlap ps qs)"
| "overlap (Wild _ # ps) (Wild _ # qs) = overlap ps qs"

lemma overlap_sound: "match_segs ps xs = Some vs \<Longrightarrow> match_segs qs xs = Some us \<Longrightarrow> overlap ps qs"
proof (induction ps qs arbitrary: xs vs us rule: overlap.induct)
  case (6 a ps b qs) then show ?case by (cases xs) (auto split: if_splits)
next
  case (7 a ps n qs) then show ?case by (cases xs) (auto split: if_splits)
next
  case (8 n ps b qs) then show ?case by (cases xs) (auto split: if_splits)
next
  case (9 n ps m qs) then show ?case by (cases xs) (auto split: if_splits)
next
  case (2 q qs) then show ?case by (cases xs; cases q) auto
next
  case (3 p ps) then show ?case by (cases xs; cases p) auto
qed simp_all

fun route_pattern :: "'h route \<Rightarrow> string \<times> seg list" where
  "route_pattern (m, p, _) = (m, p)"

text \<open>No two patterns for the same method overlap, which the table checks once and for all.\<close>

fun disjoint_patterns :: "(string \<times> seg list) list \<Rightarrow> bool" where
  "disjoint_patterns [] = True"
| "disjoint_patterns ((m, p) # xs) = (list_all (\<lambda>(m', p'). m' \<noteq> m \<or> \<not> overlap p p') xs \<and> disjoint_patterns xs)"

lemma find_route_disjoint:
  assumes "disjoint_patterns (map route_pattern rs)" "list_all (\<lambda>x. fst x \<in> {''GET'', ''POST''}) rs"
    and "(pm, ps, h) \<in> set rs" "method_matches pm m" "match_segs ps xs = Some vs"
  shows "find_route rs m xs = Some (h, vs)"
  using assms
proof (induction rs)
  case (Cons x rs)
  obtain pm' ps' h' where x: "x = (pm', ps', h')" by (cases x)
  show ?case
  proof (cases "x = (pm, ps, h)")
    case True then show ?thesis using Cons.prems by simp
  next
    case False
    then have mem: "(pm, ps, h) \<in> set rs" using Cons.prems(3) x by auto
    then have "(pm, ps) \<in> set (map route_pattern rs)" by force
    then have "pm \<noteq> pm' \<or> \<not> overlap ps' ps" using Cons.prems(1) x by (auto simp: list_all_iff)
    moreover have "pm \<in> {''GET'', ''POST''}" "pm' \<in> {''GET'', ''POST''}" using Cons.prems(2) mem x by (auto simp: list_all_iff)
    ultimately have "\<not> (method_matches pm' m \<and> match_segs ps' xs \<noteq> None)"
      using Cons.prems(4,5) overlap_sound by (auto simp: method_matches_def)
    moreover have "disjoint_patterns (map route_pattern rs)" using Cons.prems(1) x by simp
    then have "find_route rs m xs = Some (h, vs)" using Cons.IH Cons.prems(2,4,5) mem by simp
    ultimately show ?thesis by (auto simp: x split: option.splits)
  qed
qed simp

lemma mux_registered:
  assumes "disjoint_patterns (map route_pattern rs)" "list_all (\<lambda>x. fst x \<in> {''GET'', ''POST''}) rs"
    and "(pm, ps, h) \<in> set rs" "method_matches pm m" "match_segs ps (path_segs p) = Some vs" "cleanPath p = p"
  shows "mux rs m p = Dispatch h vs"
  using find_route_disjoint [OF assms(1-5)] assms(6) by (simp add: mux_def Let_def)

end
