(* ===== verification/Crypto_Vectors.thy ===== *)
theory Crypto_Vectors
  imports Go_Crypto
begin

text \<open>
  Two published test vectors of the hash function, evaluated by the kernel's simplifier: they tie the
  computing definition of \<^theory_text>\<open>Go_Crypto\<close> to FIPS 180-4.
\<close>

lemma sha256_abc:
  "hex_encode (sha256 (bytes_of ''abc'')) =
     ''ba7816bf8f01cfea414140de5dae2223b00361a396177a9cb410ff61f20015ad''"
  by code_simp

lemma sha256_empty:
  "hex_encode (sha256 []) = ''e3b0c44298fc1c149afbf4c8996fb92427ae41e4649b934ca495991b7852b855''"
  by code_simp

end
