(* ===== verification/Pki_Renewal.thy ===== *)
theory Pki_Renewal
  imports Pki_Client Auth_Gateway Go_Mux Crypto_Vectors
begin

text \<open>
  \<open>internal/pki/renewal.go\<close>: a device that still has a valid client certificate gets a new one for a
  fresh key. The TLS layer is outside: a request carries the raw peer certificates that it verified.
\<close>

record renew_request =
  rr_peers :: "u8 list list"
  rr_Body :: "string result"

definition handleRenew ::
  "pki_ops \<Rightarrow> ca_post \<Rightarrow> u8 list \<Rightarrow> time \<Rightarrow> Client \<Rightarrow> renew_request \<Rightarrow> db \<Rightarrow> response \<times> (string \<times> string) list \<times> db" where
  "handleRenew ops post rnd now client req d =
     (case rr_peers req of
        [] \<Rightarrow> (http_Error ''client certificate required'' 401 new_response, [], d)
      | leaf # _ \<Rightarrow>
          (let fingerprint = hex_encode (sha256 leaf) in
           case ResolveTenant now (NewCertCredential fingerprint) d of
             (Inl _, d1) \<Rightarrow> (http_Error ''internal error'' 500 new_response, [], d1)
           | (Inr None, d1) \<Rightarrow> (http_Error ''certificate not registered or revoked'' 401 new_response, [], d1)
           | (Inr (Some tenant), d1) \<Rightarrow>
               (case LookupCertificateByFingerprint fingerprint d1 of
                  (Inr (Some oldCert), d2) \<Rightarrow>
                    (case rr_Body req of
                       Inl err \<Rightarrow> (http_Error (''read CSR: '' @ error_text err) 400 new_response, [], d2)
                     | Inr csrPEM \<Rightarrow>
                         (case Renew ops post rnd now client (cert_SerialNumber oldCert) csrPEM of
                            (Inl _, reqs) \<Rightarrow> (http_Error ''renewal failed'' 500 new_response, reqs, d2)
                          | (Inr newCert, reqs) \<Rightarrow>
                              (case AddCertificate now (ID tenant) (xc_SerialHex newCert) (hex_encode (sha256 (xc_Raw newCert)))
                                      (cert_SubjectCN oldCert) (xc_NotBefore newCert) (xc_NotAfter newCert) d2 of
                                 (Inl _, d3) \<Rightarrow> (http_Error ''store failed'' 500 new_response, reqs, d3)
                               | (Inr _, d3) \<Rightarrow>
                                   (Write (EncodeCertPEM ops newCert)
                                      (set_header ''Content-Type'' ''application/pem-certificate-chain'' new_response), reqs, d3))))
                | (_, d2) \<Rightarrow> (http_Error ''certificate metadata not found'' 401 new_response, [], d2))))"

text \<open>
  The handler of the server (\<open>ListenAndServe\<close>): a multiplexer with one pattern. \<open>r\<close> has what the
  multiplexer reads of the request, \<open>location\<close> renders the URL of a redirect.
\<close>

definition renewal_routes :: "unit route list" where
  "renewal_routes = [(''POST'', [Lit ''renew''], ())]"

definition renewal_serve ::
  "pki_ops \<Rightarrow> ca_post \<Rightarrow> u8 list \<Rightarrow> time \<Rightarrow> Client \<Rightarrow> (string \<Rightarrow> string) \<Rightarrow> request \<Rightarrow> renew_request \<Rightarrow> db
     \<Rightarrow> response \<times> (string \<times> string) list \<times> db" where
  "renewal_serve ops post rnd now client location r req d =
     (case mux renewal_routes (rq_Method r) (rq_Path r) of
        Dispatch _ _ \<Rightarrow> handleRenew ops post rnd now client req d
      | answer \<Rightarrow> (mux_response location r answer new_response, [], d))"

lemma renewal_serve_cases:
  obtains "renewal_serve ops post rnd now client location r req d = handleRenew ops post rnd now client req d" "rq_Method r = ''POST''"
  | w where "renewal_serve ops post rnd now client location r req d = (w, [], d)"
proof (cases "mux renewal_routes (rq_Method r) (rq_Path r)")
  case (Dispatch h vs)
  then show thesis using that(1) mux_Dispatch(1) [OF Dispatch]
    by (auto simp: renewal_serve_def renewal_routes_def method_matches_def)
qed (use that(2) in \<open>simp_all add: renewal_serve_def\<close>)

text \<open>The listener's address and TLS settings (given what loading the files returned).\<close>

definition NewRenewalServer :: "unit result \<Rightarrow> string result \<Rightarrow> (string \<Rightarrow> bool) \<Rightarrow> string \<Rightarrow> string result" where
  "NewRenewalServer serverCert caFile AppendCertsFromPEM listenAddr =
     (case serverCert of
        Inl _ \<Rightarrow> Inl (Msg ''load server cert'')
      | Inr _ \<Rightarrow>
          (case caFile of
             Inl _ \<Rightarrow> Inl (Msg ''read client CA file'')
           | Inr caPEM \<Rightarrow>
               if \<not> AppendCertsFromPEM caPEM then Inl (Msg ''no certificates found in client CA file'')
               else Inr (if listenAddr = '''' then '':6543'' else listenAddr)))"


text \<open>A renewal that is answered with a certificate went through every step.\<close>

lemma handleRenew_ok:
  assumes "handleRenew ops post rnd now client req d = (w, reqs, d')" and "rs_status w = 200"
  obtains leaf rest t old newCert csr d1 d2 c where "rr_peers req = leaf # rest"
    "ResolveTenant now (NewCertCredential (hex_encode (sha256 leaf))) d = (Inr (Some t), d1)"
    "LookupCertificateByFingerprint (hex_encode (sha256 leaf)) d1 = (Inr (Some old), d2)"
    "rr_Body req = Inr csr" "Renew ops post rnd now client (cert_SerialNumber old) csr = (Inr newCert, reqs)"
    "AddCertificate now (ID t) (xc_SerialHex newCert) (hex_encode (sha256 (xc_Raw newCert))) (cert_SubjectCN old)
       (xc_NotBefore newCert) (xc_NotAfter newCert) d2 = (Inr c, d')"
  using assms by (auto simp: handleRenew_def Let_def split: list.splits prod.splits sum.splits option.splits)

lemma AddCertificate_Inr:
  assumes "AddCertificate now t s fp cn nb na d = (Inr c, d')"
  shows "insert_certificate t s fp cn nb na now (pop_fault d) = Some d'"
  using assms by (auto simp: AddCertificate_def sql_exec_Inr split: prod.splits sum.splits)

lemma fp_holds_cong:
  "t_tenants d' = t_tenants d \<Longrightarrow> set (t_certificates d) \<subseteq> set (t_certificates d') \<Longrightarrow> fp_holds d fp r \<Longrightarrow> fp_holds d' fp r"
  by (auto simp: fp_holds_def)

section \<open>Properties\<close>

text \<open>C16. Renewal is bound to the certificate that asks: a certificate is issued only to a peer whose current
  certificate is on file and unrevoked for an active tenant; the new one is registered for that same
  tenant and resolves to it at once, and the old one keeps resolving (it is not revoked).\<close>

theorem renewal_sound:
  assumes inv: "db_inv d" and run: "handleRenew ops post rnd now client req d = (w, reqs, d')" and ok: "rs_status w = 200"
  shows "\<exists>leaf row newCert. hd (rr_peers req) = leaf \<and> fp_holds d (hex_encode (sha256 leaf)) row \<and>
     fst (Renew ops post rnd now client '''' (projr (rr_Body req))) = Inr newCert \<and>
     fp_holds d' (hex_encode (sha256 (xc_Raw newCert))) row \<and> fp_holds d' (hex_encode (sha256 leaf)) row \<and> db_inv d'"
proof -
  from handleRenew_ok [OF run ok] obtain leaf rest t old newCert csr d1 d2 c where p: "rr_peers req = leaf # rest"
    and r: "ResolveTenant now (NewCertCredential (hex_encode (sha256 leaf))) d = (Inr (Some t), d1)"
    and l: "LookupCertificateByFingerprint (hex_encode (sha256 leaf)) d1 = (Inr (Some old), d2)"
    and b: "rr_Body req = Inr csr" and rn: "Renew ops post rnd now client (cert_SerialNumber old) csr = (Inr newCert, reqs)"
    and a: "AddCertificate now (ID t) (xc_SerialHex newCert) (hex_encode (sha256 (xc_Raw newCert))) (cert_SubjectCN old)
       (xc_NotBefore newCert) (xc_NotAfter newCert) d2 = (Inr c, d')" by metis
  let ?fp = "hex_encode (sha256 leaf)"
  have lk: "LookupTenantByFingerprint ?fp d = (Inr (Some t), d1)" using r by (simp add: ResolveTenant_def NewCertCredential_def)
  obtain row q where row: "fp_holds d ?fp row" "t = tenant_of_row row q" using cert_fps.resolve_sound [OF inv lk] by blast
  have d1: "d1 = pop_fault d" using lk by (simp add: LookupTenantByFingerprint_def sql_query_Inr)
  have d2: "d2 = pop_fault d1" using l by (simp add: LookupCertificateByFingerprint_def sql_query_Inr)
  have i: "insert_certificate (ID t) (xc_SerialHex newCert) (hex_encode (sha256 (xc_Raw newCert))) (cert_SubjectCN old)
     (xc_NotBefore newCert) (xc_NotAfter newCert) now (pop_fault d2) = Some d'" by (rule AddCertificate_Inr [OF a])
  note tb = insert_certificate_tables [OF i]
  have t: "row \<in> set (t_tenants (pop_fault d2))" "tr_id row = ID t" "tr_active row = 1"
    using row by (auto simp: fp_holds_def d1 d2 tenant_of_row_def)
  have new: "fp_holds d' (hex_encode (sha256 (xc_Raw newCert))) row" by (rule insert_certificate_holds [OF i t(1,2,3)])
  have old: "fp_holds d' ?fp row"
    by (rule fp_holds_cong [OF _ _ row(1)]) (use tb(1,5) d1 d2 in auto)
  have "db_inv d'"
    using AddCertificate_inv [of d2 now "ID t" "xc_SerialHex newCert" "hex_encode (sha256 (xc_Raw newCert))" "cert_SubjectCN old"
        "xc_NotBefore newCert" "xc_NotAfter newCert"] a inv d1 d2 by simp
  then show ?thesis using p row new old rn b by (auto simp: Renew_def)
qed

definition renew_pki :: pki_ops where
  "renew_pki = demo_pki\<lparr>po_ParseCert := (\<lambda>_. Inr (demo_cert\<lparr>xc_Raw := []\<rparr>))\<rparr>"

definition renew_cert_row :: cert_row where
  "renew_cert_row = \<lparr>ct_id = 1, ct_tenant_id = 1, ct_serial_number = ''77'', ct_fingerprint = hex_encode (sha256 (bytes_of ''abc'')),
     ct_subject_cn = ''agent'', ct_not_before = None, ct_not_after = None, ct_revoked_at = None, ct_created_at = 0, ct_last_seen_at = None\<rparr>"

definition renew_db :: db where
  "renew_db = demo_db\<lparr>t_certificates := [renew_cert_row], seq_certificates := 1\<rparr>"

definition demo_renewal :: renew_request where
  "demo_renewal = \<lparr>rr_peers = [bytes_of ''abc''], rr_Body = Inr ''CSR''\<rparr>"

abbreviation renew_post :: ca_post where
  "renew_post \<equiv> (\<lambda>_ _. Inr (200, Inr ''CRT''))"

lemma renew_db_eq: "healthy renew_db" "db_inv renew_db" "t_tenants renew_db = [demo_tenant]"
  "fp_holds renew_db (hex_encode (sha256 (bytes_of ''abc''))) demo_tenant"
  by (simp_all add: renew_db_def demo_db_def healthy_def db_inv_def table_ok_defs empty_db_def tenant_ids_def demo_tenant_def
      renew_cert_row_def fp_holds_def)

lemma demo_renew: "fst (Renew renew_pki renew_post [7] 0 demo_client s ''CSR'') = Inr (demo_cert\<lparr>xc_Raw := []\<rparr>)"
proof -
  have "json_parse ''CRT'' = None" by code_simp
  then show ?thesis
    by (simp add: Renew_def Sign_cert_def csrSubjectAndSANs_def renew_pki_def demo_pki_def demo_csr_def Token_def Let_def
        parseCertResponse_def unmarshal_struct_def parse_pem_cert_def)
qed

lemma demo_renewed: "rs_status (fst (handleRenew renew_pki renew_post [7] 0 demo_client demo_renewal renew_db)) = 200"
proof -
  let ?fp = "hex_encode (sha256 (bytes_of ''abc''))"
  define t where "t = scanTenant renew_db demo_tenant"
  have r: "ResolveTenant 0 (NewCertCredential ?fp) renew_db = (Inr (Some t), renew_db)"
    using LookupTenantByFingerprint_iff [OF renew_db_eq(2), of ?fp t] renew_db_eq
    by (simp add: ResolveTenant_def NewCertCredential_def t_def LookupTenantByFingerprint_def sql_query_healthy) blast
  have l: "LookupCertificateByFingerprint ?fp renew_db = (Inr (Some (scanCertificate renew_cert_row)), renew_db)"
    by (simp add: LookupCertificateByFingerprint_def sql_query_healthy [OF renew_db_eq(1)]) (simp add: renew_db_def renew_cert_row_def)
  have ne: "hex_encode (sha256 []) \<noteq> ?fp" unfolding sha256_abc sha256_empty by simp
  have t: "ID t = 1" by (simp add: t_def scanTenant_def tenant_of_row_def demo_tenant_def)
  have a: "\<exists>c d'. AddCertificate 0 1 s (hex_encode (sha256 [])) cn nb na renew_db = (Inr c, d')" for s cn nb na
    using ne by (simp add: AddCertificate_def sql_exec_healthy [OF renew_db_eq(1)] insert_certificate_def next_id_def)
      (simp add: renew_db_def demo_db_def empty_db_def tenant_ids_def demo_tenant_def renew_cert_row_def)
  let ?s = "cert_SerialNumber (scanCertificate renew_cert_row)"
  obtain reqs where rn: "Renew renew_pki renew_post [7] 0 demo_client ?s ''CSR'' = (Inr (demo_cert\<lparr>xc_Raw := []\<rparr>), reqs)"
    using demo_renew [of ?s] by (cases "Renew renew_pki renew_post [7] 0 demo_client ?s ''CSR''") simp
  obtain c d' where "AddCertificate 0 1 (xc_SerialHex demo_cert) (hex_encode (sha256 [])) (cert_SubjectCN (scanCertificate renew_cert_row))
      (xc_NotBefore demo_cert) (xc_NotAfter demo_cert) renew_db = (Inr c, d')" using a by blast
  then show ?thesis by (simp add: handleRenew_def demo_renewal_def r l rn t Let_def)
qed

theorem renewal_sound_witness:
  "\<exists>row. fp_holds (snd (snd (handleRenew renew_pki renew_post [7] 0 demo_client demo_renewal renew_db))) (hex_encode (sha256 [])) row"
proof -
  obtain w reqs d' where e: "handleRenew renew_pki renew_post [7] 0 demo_client demo_renewal renew_db = (w, reqs, d')" by (metis prod_cases3)
  have "rs_status w = 200" using demo_renewed e by simp
  from renewal_sound [OF renew_db_eq(2) e this] demo_renew show ?thesis unfolding e by (auto simp: demo_renewal_def)
qed

end
