(* ===== verification/Auth_Session.thy ===== *)
theory Auth_Session
  imports Store_Users Go_Json Go_Http
begin

text \<open>
  \<open>internal/auth/session.go\<close>, \<open>internal/auth/csrf.go\<close> and \<open>internal/web/flash.go\<close>: the three kinds of
  authenticated values the admin interface hands to a browser. Session and flash cookies share one
  format (a JSON payload and its HMAC, both in raw URL base64, joined by a dot), so the format's laws
  are proved once, in the locale \<open>signed_token\<close>, and both components interpret it. The signing key
  is shared as well; \<open>flash_is_no_session\<close> shows that this lets no flash cookie pass as a session.
\<close>

section \<open>Signed tokens\<close>

definition sign_payload :: "u8 list \<Rightarrow> u8 list \<Rightarrow> string" where
  "sign_payload key payload = b64_encode payload @ ''.'' @ b64_encode (hmac_sha256 key payload)"

text \<open>The checks of \<open>Verify\<close> and \<open>Get\<close> up to the payload.\<close>

definition open_token :: "u8 list \<Rightarrow> string \<Rightarrow> u8 list option" where
  "open_token key token =
     (case split_n 2 CHR ''.'' token of
        [p, s] \<Rightarrow>
          (case b64_decode p of None \<Rightarrow> None
           | Some payload \<Rightarrow>
               (case b64_decode s of None \<Rightarrow> None
                | Some sig \<Rightarrow>
                    if constant_time_compare (hmac_sha256 key payload) sig = 1 then Some payload else None))
      | _ \<Rightarrow> None)"

lemma open_sign_payload: "open_token key (sign_payload key payload) = Some payload"
proof -
  have "split_n 2 CHR ''.'' (b64_encode payload @ CHR ''.'' # b64_encode (hmac_sha256 key payload))
      = [b64_encode payload, b64_encode (hmac_sha256 key payload)]"
    by (rule split_n_two) (rule b64_encode_no_dot)
  then show ?thesis by (simp add: open_token_def sign_payload_def b64_roundtrip)
qed

lemma open_token_mac:
  assumes "open_token key token = Some payload"
  shows "\<exists>p s. token = p @ ''.'' @ s \<and> b64_decode p = Some payload \<and> b64_decode s = Some (hmac_sha256 key payload)"
proof -
  from assms obtain p s where sp: "split_n 2 CHR ''.'' token = [p, s]" "b64_decode p = Some payload"
    "b64_decode s = Some (hmac_sha256 key payload)"
    by (auto simp: open_token_def split: list.splits option.splits if_splits)
  then show ?thesis using join_split_n [where c = "CHR ''.''" and n = 1 and s = token]
    by (auto simp: numeral_2_eq_2)
qed

text \<open>
  The contract of a kind of token: values are encoded into payloads and decoded again. The laws of
  minting and opening follow for every encoding that round-trips.
\<close>

locale signed_token =
  fixes encode :: "'v \<Rightarrow> string"
    and decode :: "string \<Rightarrow> 'v option"
    and ok :: "'v \<Rightarrow> bool"
  assumes decode_encode: "ok v \<Longrightarrow> decode (encode v) = Some v"
begin

definition mint :: "u8 list \<Rightarrow> 'v \<Rightarrow> string" where
  "mint key v = sign_payload key (bytes_of (encode v))"

definition accept :: "u8 list \<Rightarrow> string \<Rightarrow> 'v option" where
  "accept key token = (case open_token key token of None \<Rightarrow> None | Some payload \<Rightarrow> decode (string_of payload))"

lemma accept_mint: "ok v \<Longrightarrow> accept key (mint key v) = Some v"
  by (simp add: accept_def mint_def open_sign_payload string_bytes decode_encode)

lemma accept_mac:
  assumes "accept key token = Some v"
  shows "\<exists>payload p s. token = p @ ''.'' @ s \<and> b64_decode p = Some payload \<and>
     b64_decode s = Some (hmac_sha256 key payload) \<and> decode (string_of payload) = Some v"
  using assms open_token_mac [of key token] by (auto simp: accept_def split: option.splits)

end

section \<open>Session claims\<close>

record sessionClaims =
  sc_ID :: int64
  sc_U :: string
  sc_Exp :: int64

definition marshal_claims :: "sessionClaims \<Rightarrow> string" where
  "marshal_claims c = marshal_struct [(''id'', FInt (sc_ID c)), (''u'', FStr (sc_U c)), (''exp'', FInt (sc_Exp c))]"

definition put_claim :: "string \<Rightarrow> json \<Rightarrow> sessionClaims \<Rightarrow> sessionClaims \<times> bool" where
  "put_claim f v c =
     (if f = ''id'' then (let (x, ok) = set_int v (sc_ID c) in (c\<lparr>sc_ID := x\<rparr>, ok))
      else if f = ''u'' then (let (x, ok) = set_str v (sc_U c) in (c\<lparr>sc_U := x\<rparr>, ok))
      else (let (x, ok) = set_int v (sc_Exp c) in (c\<lparr>sc_Exp := x\<rparr>, ok)))"

definition unmarshal_claims :: "string \<Rightarrow> sessionClaims option" where
  "unmarshal_claims s = unmarshal_struct [''id'', ''u'', ''exp''] put_claim \<lparr>sc_ID = 0, sc_U = '''', sc_Exp = 0\<rparr> s"

definition claims_ok :: "sessionClaims \<Rightarrow> bool" where
  "claims_ok c \<longleftrightarrow> in_int64 (sc_ID c) \<and> valid_utf8 (sc_U c) \<and> in_int64 (sc_Exp c)"

lemma valid_utf8_names:
  "valid_utf8 ''id''" "valid_utf8 ''u''" "valid_utf8 ''exp''" "valid_utf8 ''kind''" "valid_utf8 ''key''"
  "valid_utf8 ''tenant''" "valid_utf8 ''url''" "valid_utf8 ''message''"
  by code_simp+

lemma unmarshal_marshal_claims: "claims_ok c \<Longrightarrow> unmarshal_claims (marshal_claims c) = Some c"
  by (simp add: claims_ok_def unmarshal_claims_def unmarshal_struct_def marshal_claims_def json_parse_marshal valid_utf8_names
      field_of_def put_claim_def set_int_def set_str_def parse_format_int)

interpretation session_tokens: signed_token marshal_claims unmarshal_claims claims_ok
  by unfold_locales (rule unmarshal_marshal_claims)

section \<open>Session manager\<close>

definition sessionTTL :: time where
  "sessionTTL = 24 * hour"

record session_manager =
  sm_signingKey :: "u8 list"
  sm_cookieSecure :: bool

definition NewSessionManager :: "u8 list \<Rightarrow> bool \<Rightarrow> session_manager" where
  "NewSessionManager signingKey cookieSecure = \<lparr>sm_signingKey = signingKey, sm_cookieSecure = cookieSecure\<rparr>"

definition Sign :: "session_manager \<Rightarrow> time \<Rightarrow> int64 \<Rightarrow> string \<Rightarrow> string" where
  "Sign m now userID username =
     sign_payload (sm_signingKey m)
       (bytes_of (marshal_claims \<lparr>sc_ID = userID, sc_U = username, sc_Exp = unix (now + sessionTTL)\<rparr>))"

text \<open>\<open>(0, "", false)\<close> of the source is \<open>None\<close>; the query of the store may use up a fault.\<close>

definition Verify :: "session_manager \<Rightarrow> time \<Rightarrow> string \<Rightarrow> db \<Rightarrow> (int64 \<times> string) option \<times> db" where
  "Verify m now token d =
     (case open_token (sm_signingKey m) token of
        None \<Rightarrow> (None, d)
      | Some payload \<Rightarrow>
          (case unmarshal_claims (string_of payload) of
             None \<Rightarrow> (None, d)
           | Some claims \<Rightarrow>
               if unix now > sc_Exp claims then (None, d)
               else case GetUserByID (sc_ID claims) d of
                 (Inl _, d1) \<Rightarrow> (None, d1)
               | (Inr (_, found), d1) \<Rightarrow> if found then (Some (sc_ID claims, sc_U claims), d1) else (None, d1)))"

definition session_cookie :: "session_manager \<Rightarrow> string \<Rightarrow> int64 \<Rightarrow> cookie" where
  "session_cookie m value maxAge =
     \<lparr>ck_Name = ''session'', ck_Value = value, ck_Path = ''/'', ck_HttpOnly = True, ck_Secure = sm_cookieSecure m,
      ck_SameSite = SameSiteStrictMode, ck_MaxAge = maxAge, ck_Expires = None\<rparr>"

definition SetSessionCookie :: "session_manager \<Rightarrow> string \<Rightarrow> response \<Rightarrow> response" where
  "SetSessionCookie m token w = SetCookie (session_cookie m token (sessionTTL div second)) w"

definition ClearSessionCookie :: "session_manager \<Rightarrow> response \<Rightarrow> response" where
  "ClearSessionCookie m w = SetCookie (session_cookie m '''' (-1)) w"

lemma Sign_mint: "Sign m now uid u = session_tokens.mint (sm_signingKey m) \<lparr>sc_ID = uid, sc_U = u, sc_Exp = unix (now + sessionTTL)\<rparr>"
  by (simp add: Sign_def session_tokens.mint_def)

lemma Verify_accept:
  "Verify m now token d =
     (case session_tokens.accept (sm_signingKey m) token of
        None \<Rightarrow> (None, d)
      | Some claims \<Rightarrow>
          if unix now > sc_Exp claims then (None, d)
          else case GetUserByID (sc_ID claims) d of
            (Inl _, d1) \<Rightarrow> (None, d1)
          | (Inr (_, found), d1) \<Rightarrow> if found then (Some (sc_ID claims, sc_U claims), d1) else (None, d1))"
  by (auto simp: Verify_def session_tokens.accept_def split: option.split)

lemma GetUserByID_found: "fst (GetUserByID uid d) = Inr (u, b) \<Longrightarrow> b \<longleftrightarrow> uid \<in> ur_id ` set (t_users d)"
  by (auto simp: GetUserByID_def sql_query_def find_None_iff split: if_splits option.splits dest!: find_Some_mem)

text \<open>The session check never changes a table.\<close>

lemma Verify_frame: "snd (Verify m now token d) = d \<or> snd (Verify m now token d) = pop_fault d"
  by (auto simp: Verify_def GetUserByID_def split: option.splits prod.splits sum.splits dest!: sql_query_eq)

section \<open>Anti-forgery tokens\<close>

definition NewSecret :: "u8 list \<Rightarrow> string" where
  "NewSecret rnd = hex_encode rnd"

definition CSRF_Token :: "u8 list \<Rightarrow> string \<Rightarrow> string" where
  "CSRF_Token key secret = hex_encode (hmac_sha256 key (bytes_of (''csrf:'' @ secret)))"

definition CSRF_Verify :: "u8 list \<Rightarrow> string \<Rightarrow> string \<Rightarrow> bool" where
  "CSRF_Verify key secret token \<longleftrightarrow> constant_time_compare (CSRF_Token key secret) token = 1"

definition csrf_cookie :: "string \<Rightarrow> bool \<Rightarrow> int64 \<Rightarrow> cookie" where
  "csrf_cookie value secure maxAge =
     \<lparr>ck_Name = ''csrf'', ck_Value = value, ck_Path = ''/'', ck_HttpOnly = True, ck_Secure = secure,
      ck_SameSite = SameSiteStrictMode, ck_MaxAge = maxAge, ck_Expires = None\<rparr>"

definition SetCSRFCookie :: "string \<Rightarrow> bool \<Rightarrow> response \<Rightarrow> response" where
  "SetCSRFCookie secret secure w = SetCookie (csrf_cookie secret secure (sessionTTL div second)) w"

definition ClearCSRFCookie :: "bool \<Rightarrow> response \<Rightarrow> response" where
  "ClearCSRFCookie secure w = SetCookie (csrf_cookie '''' secure (-1)) w"

section \<open>Flash messages\<close>

record FlashData =
  fl_Kind :: string
  fl_Key :: string
  fl_Tenant :: string
  fl_URL :: string
  fl_Message :: string

definition marshal_flash :: "FlashData \<Rightarrow> string" where
  "marshal_flash f = marshal_struct [(''kind'', FStr (fl_Kind f)), (''key'', FStr (fl_Key f)),
     (''tenant'', FStr (fl_Tenant f)), (''url'', FStr (fl_URL f)), (''message'', FStr (fl_Message f))]"

definition put_flash :: "string \<Rightarrow> json \<Rightarrow> FlashData \<Rightarrow> FlashData \<times> bool" where
  "put_flash f v x =
     (if f = ''kind'' then (let (s, ok) = set_str v (fl_Kind x) in (x\<lparr>fl_Kind := s\<rparr>, ok))
      else if f = ''key'' then (let (s, ok) = set_str v (fl_Key x) in (x\<lparr>fl_Key := s\<rparr>, ok))
      else if f = ''tenant'' then (let (s, ok) = set_str v (fl_Tenant x) in (x\<lparr>fl_Tenant := s\<rparr>, ok))
      else if f = ''url'' then (let (s, ok) = set_str v (fl_URL x) in (x\<lparr>fl_URL := s\<rparr>, ok))
      else (let (s, ok) = set_str v (fl_Message x) in (x\<lparr>fl_Message := s\<rparr>, ok)))"

definition no_flash :: FlashData where
  "no_flash = \<lparr>fl_Kind = '''', fl_Key = '''', fl_Tenant = '''', fl_URL = '''', fl_Message = ''''\<rparr>"

definition unmarshal_flash :: "string \<Rightarrow> FlashData option" where
  "unmarshal_flash s = unmarshal_struct [''kind'', ''key'', ''tenant'', ''url'', ''message''] put_flash no_flash s"

definition flash_ok :: "FlashData \<Rightarrow> bool" where
  "flash_ok f \<longleftrightarrow> valid_utf8 (fl_Kind f) \<and> valid_utf8 (fl_Key f) \<and> valid_utf8 (fl_Tenant f) \<and>
     valid_utf8 (fl_URL f) \<and> valid_utf8 (fl_Message f)"

definition flash_cookie :: "bool \<Rightarrow> string \<Rightarrow> int64 \<Rightarrow> int64 option \<Rightarrow> cookie" where
  "flash_cookie secure value maxAge expires =
     \<lparr>ck_Name = ''flash'', ck_Value = value, ck_Path = ''/'', ck_HttpOnly = True, ck_Secure = secure,
      ck_SameSite = SameSiteStrictMode, ck_MaxAge = maxAge, ck_Expires = expires\<rparr>"

definition Flash_Set :: "u8 list \<Rightarrow> bool \<Rightarrow> FlashData \<Rightarrow> response \<Rightarrow> response" where
  "Flash_Set key secure data w =
     SetCookie (flash_cookie secure (sign_payload key (bytes_of (marshal_flash data))) 300 None) w"

definition Flash_Get :: "u8 list \<Rightarrow> request \<Rightarrow> FlashData option" where
  "Flash_Get key r =
     (case Cookie r ''flash'' of
        None \<Rightarrow> None
      | Some value \<Rightarrow>
          (case open_token key value of
             None \<Rightarrow> None
           | Some payload \<Rightarrow> unmarshal_flash (string_of payload)))"

definition Flash_Clear :: "bool \<Rightarrow> response \<Rightarrow> response" where
  "Flash_Clear secure w = SetCookie (flash_cookie secure '''' (-1) (Some 1)) w"

lemma unmarshal_marshal_flash: "flash_ok f \<Longrightarrow> unmarshal_flash (marshal_flash f) = Some f"
  by (simp add: flash_ok_def unmarshal_flash_def unmarshal_struct_def marshal_flash_def json_parse_marshal valid_utf8_names
      field_of_def put_flash_def set_str_def no_flash_def)

interpretation flash_tokens: signed_token marshal_flash unmarshal_flash flash_ok
  by unfold_locales (rule unmarshal_marshal_flash)

text \<open>A session works for exactly its lifetime: the token that \<open>Sign\<close> makes for an existing user
  is accepted with that user's identity until 24 hours later, and refused afterwards.\<close>

lemma Verify_Sign:
  assumes "uid \<in> ur_id ` set (t_users d)" and "\<not> next_fault d"
    and "claims_ok \<lparr>sc_ID = uid, sc_U = u, sc_Exp = unix (now + sessionTTL)\<rparr>"
  shows "fst (Verify m now' (Sign m now uid u) d) = (if unix now' \<le> unix (now + sessionTTL) then Some (uid, u) else None)"
proof -
  obtain name b where g: "GetUserByID uid d = (Inr (name, b), pop_fault d)"
    using assms(2) by (cases "find (\<lambda>r. ur_id r = uid) (t_users d)") (auto simp: GetUserByID_def sql_query_def)
  then have "b" using GetUserByID_found [of uid d name b] assms(1) by simp
  then show ?thesis
    by (simp add: Verify_accept Sign_mint session_tokens.accept_mint [OF assms(3)] g)
qed

section \<open>Properties\<close>

definition demo_users :: db where
  "demo_users = empty_db\<lparr>t_users := [\<lparr>ur_id = 1, ur_username = ''root'', ur_password = ''h'', ur_created_at = 0\<rparr>], seq_users := 1\<rparr>"

lemma demo_session: "Verify m 0 (Sign m 0 1 ''root'') demo_users = (Some (1, ''root''), demo_users)"
proof -
  let ?c = "\<lparr>sc_ID = 1, sc_U = ''root'', sc_Exp = unix (0 + sessionTTL)\<rparr> :: sessionClaims"
  have "valid_utf8 ''root''" by code_simp
  then have ok: "claims_ok ?c" by (simp add: claims_ok_def in_int64_def unix_def sessionTTL_def)
  have "GetUserByID 1 demo_users = (Inr (''root'', True), demo_users)"
    by (simp add: GetUserByID_def sql_query_def demo_users_def next_fault_def empty_db_def pop_fault_def)
  then show ?thesis
    using session_tokens.accept_mint [OF ok] by (simp add: Verify_accept Sign_mint unix_def sessionTTL_def)
qed

text \<open>C38. No session without the signing key and a live account: whatever token is accepted carries the
  HMAC of its own payload under the server's key, names the claims that are returned, is not
  expired, and belongs to a user that is still in the database. In particular, deleting a user ends
  all of that user's sessions.\<close>

theorem session_sound:
  assumes "fst (Verify m now token d) = Some (uid, u)"
  shows "uid \<in> ur_id ` set (t_users d) \<and>
    (\<exists>payload claims p s. token = p @ ''.'' @ s \<and> b64_decode p = Some payload \<and>
       b64_decode s = Some (hmac_sha256 (sm_signingKey m) payload) \<and>
       unmarshal_claims (string_of payload) = Some claims \<and>
       sc_ID claims = uid \<and> sc_U claims = u \<and> unix now \<le> sc_Exp claims)"
proof -
  from assms obtain claims where c: "session_tokens.accept (sm_signingKey m) token = Some claims"
    "unix now \<le> sc_Exp claims" "sc_ID claims = uid" "sc_U claims = u"
    and g: "\<exists>name. fst (GetUserByID uid d) = Inr (name, True)"
    by (auto simp: Verify_accept split: option.splits if_splits prod.splits sum.splits)
  from g GetUserByID_found have "uid \<in> ur_id ` set (t_users d)" by blast
  with session_tokens.accept_mac [OF c(1)] c show ?thesis by blast
qed

theorem session_sound_witness:
  "1 \<in> ur_id ` set (t_users demo_users) \<and>
   fst (Verify \<lparr>sm_signingKey = [1, 2, 3], sm_cookieSecure = True\<rparr> 0
     (Sign \<lparr>sm_signingKey = [1, 2, 3], sm_cookieSecure = True\<rparr> 0 1 ''root'') demo_users) = Some (1, ''root'')"
proof -
  have v: "fst (Verify \<lparr>sm_signingKey = [1, 2, 3], sm_cookieSecure = True\<rparr> 0
     (Sign \<lparr>sm_signingKey = [1, 2, 3], sm_cookieSecure = True\<rparr> 0 1 ''root'') demo_users) = Some (1, ''root'')"
    by (simp add: demo_session)
  from session_sound [OF v] v show ?thesis by blast
qed

text \<open>C39. Flash cookies are signed with the same key and the same format as sessions, yet none of them
  is accepted as a session: their payload has no expiry claim. (The texts of the message are valid UTF-8 and
  the clock is positive.)\<close>

theorem flash_is_no_session:
  assumes "flash_ok f" and "unix now > 0"
  shows "fst (Verify m now (ck_Value (last (rs_cookies (Flash_Set (sm_signingKey m) secure f w)))) d) = None"
proof -
  have folds: "\<not> equal_fold k n" if "k \<in> {''kind'', ''key'', ''tenant'', ''url'', ''message''}" "n \<in> {''id'', ''u'', ''exp''}" for k n
    using that by (auto simp: equal_fold_def lower_ascii_def)
  have "unmarshal_claims (marshal_flash f) = Some \<lparr>sc_ID = 0, sc_U = '''', sc_Exp = 0\<rparr>"
    using assms(1) folds
    by (simp add: flash_ok_def unmarshal_claims_def unmarshal_struct_def marshal_flash_def json_parse_marshal valid_utf8_names
        field_of_def)
  then show ?thesis
    using assms(2) by (simp add: Flash_Set_def flash_cookie_def Verify_def open_sign_payload string_bytes)
qed

theorem flash_is_no_session_witness:
  "fst (Verify \<lparr>sm_signingKey = [9], sm_cookieSecure = True\<rparr> (5 * second)
     (ck_Value (last (rs_cookies (Flash_Set [9] True (no_flash\<lparr>fl_Kind := ''apikey'', fl_Key := ''k''\<rparr>) new_response)))) demo_users) = None"
proof -
  have "flash_ok (no_flash\<lparr>fl_Kind := ''apikey'', fl_Key := ''k''\<rparr>)" by code_simp
  from flash_is_no_session [OF this, of "5 * second" "\<lparr>sm_signingKey = [9], sm_cookieSecure = True\<rparr>"]
  show ?thesis by (simp add: unix_def)
qed

end
