(* ===== verification/Login_Limiter.thy ===== *)
theory Login_Limiter
  imports Prelude
begin

text \<open>
  \<open>internal/auth/loginlimiter.go\<close>: at most five attempts per key (a user name or a client address) in
  a window of fifteen minutes. The theorems bound the number of admitted attempts over every
  sequence of calls and say when an attempt is admitted.
\<close>

record windowCount =
  wc_count :: int64
  wc_resetAt :: time

type_synonym login_limiter = "string \<rightharpoonup> windowCount"

definition NewLoginLimiter :: login_limiter where
  "NewLoginLimiter = Map.empty"

definition Allow :: "time \<Rightarrow> string \<Rightarrow> login_limiter \<Rightarrow> bool \<times> login_limiter" where
  "Allow now key l =
     (case l key of
        None \<Rightarrow> (True, l(key \<mapsto> \<lparr>wc_count = 1, wc_resetAt = now + 15 * minute\<rparr>))
      | Some entry \<Rightarrow>
          if now > wc_resetAt entry then (True, l(key \<mapsto> \<lparr>wc_count = 1, wc_resetAt = now + 15 * minute\<rparr>))
          else if wc_count entry \<ge> 5 then (False, l)
          else (True, l(key \<mapsto> entry\<lparr>wc_count := wc_count entry + 1\<rparr>)))"

section \<open>The invariant\<close>

definition limiter_inv :: "login_limiter \<Rightarrow> bool" where
  "limiter_inv l \<longleftrightarrow> (\<forall>k e. l k = Some e \<longrightarrow> 1 \<le> wc_count e \<and> wc_count e \<le> 5)"

lemma Allow_inv: "limiter_inv l \<Longrightarrow> limiter_inv (snd (Allow now k l))"
  by (force simp: limiter_inv_def Allow_def split: option.splits)

interpretation login_attempts: step_machine "\<lambda>(now, k) l. snd (Allow now k l)" limiter_inv
  by unfold_locales (auto intro: Allow_inv)

lemma Allow_other: "k' \<noteq> k \<Longrightarrow> snd (Allow now k l) k' = l k'"
  by (auto simp: Allow_def split: option.splits)

section \<open>How many attempts get through\<close>

fun admitted :: "string \<Rightarrow> (time \<times> string) list \<Rightarrow> login_limiter \<Rightarrow> time list" where
  "admitted k [] l = []"
| "admitted k ((now, k') # as) l =
     (case Allow now k' l of (ok, l') \<Rightarrow> (if ok \<and> k' = k then [now] else []) @ admitted k as l')"

text \<open>Within one window that is already open, only the attempts that are left get through.\<close>

lemma admitted_open_window:
  "l k = Some e \<Longrightarrow> limiter_inv l \<Longrightarrow> \<forall>(now, k') \<in> set as. now \<le> wc_resetAt e \<Longrightarrow>
     int (length (admitted k as l)) \<le> 5 - wc_count e"
proof (induction as arbitrary: l e)
  case Nil
  then show ?case by (simp add: limiter_inv_def)
next
  case (Cons a as)
  obtain now k' where a: "a = (now, k')" by (cases a)
  have inv: "limiter_inv (snd (Allow now k' l))" by (rule Allow_inv [OF Cons.prems(2)])
  show ?case
  proof (cases "k' = k")
    case False
    then have "snd (Allow now k' l) k = Some e" using Cons.prems(1) by (simp add: Allow_other)
    from Cons.IH [OF this inv] Cons.prems(3) show ?thesis using False a by (simp add: case_prod_unfold)
  next
    case True
    have now: "now \<le> wc_resetAt e" using Cons.prems(3) a by simp
    show ?thesis
    proof (cases "wc_count e \<ge> 5")
      case full: True
      then have al: "Allow now k l = (False, l)" using Cons.prems(1) now by (simp add: Allow_def)
      then show ?thesis using Cons.IH [OF Cons.prems(1,2)] Cons.prems(3) True a by simp
    next
      case False
      let ?e = "e\<lparr>wc_count := wc_count e + 1\<rparr>"
      have al: "Allow now k l = (True, l(k \<mapsto> ?e))" using Cons.prems(1) now False by (simp add: Allow_def)
      have "int (length (admitted k as (l(k \<mapsto> ?e)))) \<le> 5 - wc_count ?e"
        by (rule Cons.IH) (use inv al True Cons.prems(3) in \<open>auto simp del: fun_upd_apply\<close>, simp)
      then show ?thesis using al True a by simp
    qed
  qed
qed

text \<open>
  In any stretch of fifteen minutes at most nine attempts get through: what is left of an open
  window and the five of the next one.
\<close>

lemma admitted_stretch:
  "l k = Some e \<Longrightarrow> limiter_inv l \<Longrightarrow> \<forall>(now, k') \<in> set as. t0 \<le> now \<and> now \<le> t0 + 15 * minute \<Longrightarrow>
     int (length (admitted k as l)) \<le> 10 - wc_count e"
proof (induction as arbitrary: l e)
  case Nil
  then show ?case by (force simp: limiter_inv_def)
next
  case (Cons a as)
  obtain now k' where a: "a = (now, k')" by (cases a)
  have inv: "limiter_inv (snd (Allow now k' l))" by (rule Allow_inv [OF Cons.prems(2)])
  have rest: "\<forall>(now, k') \<in> set as. t0 \<le> now \<and> now \<le> t0 + 15 * minute" and t0: "t0 \<le> now"
    using Cons.prems(3) a by simp_all
  show ?case
  proof (cases "k' = k")
    case False
    then have "snd (Allow now k' l) k = Some e" using Cons.prems(1) by (simp add: Allow_other)
    from Cons.IH [OF this inv rest] show ?thesis using False a by (simp add: case_prod_unfold)
  next
    case k: True
    consider (new) "now > wc_resetAt e" | (full) "now \<le> wc_resetAt e" "wc_count e \<ge> 5" | (more) "now \<le> wc_resetAt e" "wc_count e < 5"
      by linarith
    then show ?thesis
    proof cases
      case new
      let ?e = "\<lparr>wc_count = 1, wc_resetAt = now + 15 * minute\<rparr>"
      have al: "Allow now k l = (True, l(k \<mapsto> ?e))" using Cons.prems(1) new by (simp add: Allow_def)
      have reset: "\<forall>(x, k') \<in> set as. x \<le> wc_resetAt ?e" using rest t0 by auto
      have "int (length (admitted k as (l(k \<mapsto> ?e)))) \<le> 5 - wc_count ?e"
        by (rule admitted_open_window [OF _ _ reset]) (use inv al k in simp_all)
      moreover have "wc_count e \<le> 5" using Cons.prems(1,2) by (auto simp: limiter_inv_def)
      ultimately show ?thesis using al k a by simp
    next
      case full
      then have "Allow now k l = (False, l)" using Cons.prems(1) by (simp add: Allow_def)
      then show ?thesis using Cons.IH [OF Cons.prems(1,2) rest] k a by simp
    next
      case more
      let ?e = "e\<lparr>wc_count := wc_count e + 1\<rparr>"
      have al: "Allow now k l = (True, l(k \<mapsto> ?e))" using Cons.prems(1) more by (simp add: Allow_def)
      have "limiter_inv (l(k \<mapsto> ?e))" using inv al k by simp
      then have "int (length (admitted k as (l(k \<mapsto> ?e)))) \<le> 10 - wc_count ?e"
        by (rule Cons.IH [OF fun_upd_same _ rest])
      then show ?thesis using al k a by simp
    qed
  qed
qed

lemma admitted_fresh:
  "l k = None \<Longrightarrow> limiter_inv l \<Longrightarrow> \<forall>(now, k') \<in> set as. t0 \<le> now \<and> now \<le> t0 + 15 * minute \<Longrightarrow>
     length (admitted k as l) \<le> 5"
proof (induction as arbitrary: l)
  case (Cons a as)
  obtain now k' where a: "a = (now, k')" by (cases a)
  have inv: "limiter_inv (snd (Allow now k' l))" by (rule Allow_inv [OF Cons.prems(2)])
  have rest: "\<forall>(now, k') \<in> set as. t0 \<le> now \<and> now \<le> t0 + 15 * minute" and t0: "t0 \<le> now"
    using Cons.prems(3) a by simp_all
  show ?case
  proof (cases "k' = k")
    case False
    then have "snd (Allow now k' l) k = None" using Cons.prems(1) by (simp add: Allow_other)
    from Cons.IH [OF this inv rest] show ?thesis using False a by (simp add: case_prod_unfold)
  next
    case k: True
    let ?e = "\<lparr>wc_count = 1, wc_resetAt = now + 15 * minute\<rparr>"
    have al: "Allow now k l = (True, l(k \<mapsto> ?e))" using Cons.prems(1) by (simp add: Allow_def)
    have reset: "\<forall>(x, k') \<in> set as. x \<le> wc_resetAt ?e" using rest t0 by auto
    have "int (length (admitted k as (l(k \<mapsto> ?e)))) \<le> 5 - wc_count ?e"
      by (rule admitted_open_window [OF _ _ reset]) (use inv al k in simp_all)
    then show ?thesis using al k a by simp
  qed
qed simp

text \<open>C40. Login throttling, over every history of attempts: in any fifteen minutes at most nine
  attempts for one key get through, and at most five when no window was open before.\<close>

theorem login_attempts_bounded:
  fixes history :: "(time \<times> string) list"
  defines "l \<equiv> fold (\<lambda>(now, k) l. snd (Allow now k l)) history NewLoginLimiter"
  assumes "\<forall>(now, k') \<in> set as. t0 \<le> now \<and> now \<le> t0 + 15 * minute"
  shows "length (admitted k as l) \<le> 9 \<and> (k \<notin> snd ` set history \<longrightarrow> length (admitted k as l) \<le> 5)"
proof -
  have inv: "limiter_inv l"
    unfolding l_def by (rule login_attempts.inv_run) (simp add: limiter_inv_def NewLoginLimiter_def)
  have none: "l k = None" if "k \<notin> snd ` set history"
  proof -
    have "fold (\<lambda>(now, k) l. snd (Allow now k l)) hs l0 k = l0 k" if "k \<notin> snd ` set hs" for hs l0
      using that by (induction hs arbitrary: l0) (auto simp: Allow_other)
    then show ?thesis using that by (simp add: l_def NewLoginLimiter_def)
  qed
  show ?thesis
  proof (cases "l k")
    case None
    then show ?thesis using admitted_fresh [OF None inv assms(2)] by simp
  next
    case (Some e)
    then have "1 \<le> wc_count e" using inv by (auto simp: limiter_inv_def)
    then show ?thesis using admitted_stretch [OF Some inv assms(2)] none Some by auto
  qed
qed

theorem login_attempts_bounded_witness:
  "length (admitted ''user:bob'' (replicate 7 (60, ''user:bob'')) NewLoginLimiter) \<le> 5"
  using login_attempts_bounded [of "replicate 7 (60, ''user:bob'')" 0 "''user:bob''" "[]"] by simp

end
