(* ===== verification/Pki_Download.thy ===== *)
theory Pki_Download
  imports Go_Crypto
begin

text \<open>
  \<open>internal/pki/download.go\<close>: single-use download links for a freshly issued certificate and its
  private key. The key is a byte slice that the manager shares with whoever created the token and
  overwrites with zeros; so the memory that holds the slices is explicit (a map from addresses to
  bytes), and a token refers to its key by address.
\<close>

datatype download_error = ErrTokenUsed | ErrTokenExpired | ErrTokenInvalid

record DownloadToken =
  dt_CertPEM :: string
  dt_KeyPEM :: nat                 \<comment> \<open>the address of the key bytes\<close>
  dt_ExpiresAt :: time
  dt_Used :: bool

record DownloadManager =
  dm_tokens :: "string \<rightharpoonup> DownloadToken"
  dm_mem :: "nat \<Rightarrow> u8 list"

definition NewDownloadManager :: "(nat \<Rightarrow> u8 list) \<Rightarrow> DownloadManager" where
  "NewDownloadManager mem = \<lparr>dm_tokens = Map.empty, dm_mem = mem\<rparr>"

definition zero_bytes :: "nat \<Rightarrow> DownloadManager \<Rightarrow> DownloadManager" where
  "zero_bytes a m = m\<lparr>dm_mem := (dm_mem m)(a := replicate (length (dm_mem m a)) 0)\<rparr>"

definition Create :: "u8 list \<Rightarrow> time \<Rightarrow> string \<Rightarrow> nat \<Rightarrow> DownloadManager \<Rightarrow> string \<times> DownloadManager" where
  "Create rnd now certPEM keyPEM m =
     (let token = hex_encode rnd in
      (token, m\<lparr>dm_tokens := (dm_tokens m)(token \<mapsto>
         \<lparr>dt_CertPEM = certPEM, dt_KeyPEM = keyPEM, dt_ExpiresAt = now + 10 * minute, dt_Used = False\<rparr>)\<rparr>))"

definition delete_token :: "string \<Rightarrow> DownloadManager \<Rightarrow> DownloadManager" where
  "delete_token token m = m\<lparr>dm_tokens := (dm_tokens m)(token := None)\<rparr>"

text \<open>The result carries copies of both byte slices.\<close>

definition Consume :: "time \<Rightarrow> string \<Rightarrow> DownloadManager \<Rightarrow> (download_error + string \<times> u8 list) \<times> DownloadManager" where
  "Consume now token m =
     (case dm_tokens m token of
        None \<Rightarrow> (Inl ErrTokenInvalid, m)
      | Some dt \<Rightarrow>
          if now > dt_ExpiresAt dt then (Inl ErrTokenExpired, delete_token token (zero_bytes (dt_KeyPEM dt) m))
          else if dt_Used dt then (Inl ErrTokenUsed, m)
          else (Inr (dt_CertPEM dt, dm_mem m (dt_KeyPEM dt)), delete_token token (zero_bytes (dt_KeyPEM dt) m)))"

text \<open>One pass of the cleanup goroutine: every expired key is zeroed and its token deleted.\<close>

definition expired_token :: "time \<Rightarrow> DownloadToken \<Rightarrow> bool" where
  "expired_token now dt \<longleftrightarrow> now > dt_ExpiresAt dt"

definition cleanup :: "time \<Rightarrow> DownloadManager \<Rightarrow> DownloadManager" where
  "cleanup now m =
     \<lparr>dm_tokens = (\<lambda>t. case dm_tokens m t of None \<Rightarrow> None | Some dt \<Rightarrow> if expired_token now dt then None else Some dt),
      dm_mem = (\<lambda>a. if \<exists>t dt. dm_tokens m t = Some dt \<and> expired_token now dt \<and> dt_KeyPEM dt = a
                    then replicate (length (dm_mem m a)) 0 else dm_mem m a)\<rparr>"

section \<open>Histories\<close>

datatype download_event = DCreate "u8 list" time string nat | DConsume time string | DCleanup time

fun download_step :: "download_event \<Rightarrow> DownloadManager \<Rightarrow> DownloadManager" where
  "download_step (DCreate rnd now cert key) m = snd (Create rnd now cert key m)"
| "download_step (DConsume now token) m = snd (Consume now token m)"
| "download_step (DCleanup now) m = cleanup now m"

definition unused :: "DownloadManager \<Rightarrow> bool" where
  "unused m \<longleftrightarrow> (\<forall>t dt. dm_tokens m t = Some dt \<longrightarrow> \<not> dt_Used dt)"

lemma unused_step: "unused m \<Longrightarrow> unused (download_step e m)"
  by (cases e) (auto simp: unused_def Create_def Consume_def cleanup_def delete_token_def zero_bytes_def Let_def split: option.splits if_splits)

interpretation downloads_unused: step_machine download_step unused
  by unfold_locales (rule unused_step)

text \<open>
  The fate of one link. Other events neither draw its token again nor store its key bytes under another
  token. It is spent by a use, or by a cleanup after its deadline; before that it is intact.
\<close>

definition apart :: "string \<Rightarrow> nat \<Rightarrow> download_event \<Rightarrow> bool" where
  "apart token key e \<longleftrightarrow> (case e of DCreate rnd _ _ k \<Rightarrow> hex_encode rnd \<noteq> token \<and> k \<noteq> key | _ \<Rightarrow> True)"

definition spends :: "string \<Rightarrow> time \<Rightarrow> download_event \<Rightarrow> bool" where
  "spends token deadline e \<longleftrightarrow> (case e of DConsume _ t \<Rightarrow> t = token | DCleanup now \<Rightarrow> now > deadline | DCreate _ _ _ _ \<Rightarrow> False)"

definition sole_user :: "string \<Rightarrow> nat \<Rightarrow> DownloadManager \<Rightarrow> bool" where
  "sole_user token key m \<longleftrightarrow> (\<forall>t dt. dm_tokens m t = Some dt \<and> dt_KeyPEM dt = key \<longrightarrow> t = token)"

definition wiped :: "nat \<Rightarrow> DownloadManager \<Rightarrow> bool" where
  "wiped a m \<longleftrightarrow> set (dm_mem m a) \<subseteq> {0}"

definition intact :: "string \<Rightarrow> DownloadToken \<Rightarrow> u8 list \<Rightarrow> DownloadManager \<Rightarrow> bool" where
  "intact token dt bytes m \<longleftrightarrow> dm_tokens m token = Some dt \<and> dm_mem m (dt_KeyPEM dt) = bytes \<and> sole_user token (dt_KeyPEM dt) m"

definition spent :: "string \<Rightarrow> nat \<Rightarrow> DownloadManager \<Rightarrow> bool" where
  "spent token key m \<longleftrightarrow> dm_tokens m token = None \<and> wiped key m"

lemmas download_defs = Create_def Consume_def cleanup_def delete_token_def zero_bytes_def expired_token_def Let_def

lemma intact_step:
  assumes "intact token dt bytes m" "apart token (dt_KeyPEM dt) e" "\<not> spends token (dt_ExpiresAt dt) e"
  shows "intact token dt bytes (download_step e m)"
  using assms
  by (cases e) (auto simp: intact_def sole_user_def apart_def spends_def download_defs split: option.splits if_splits)

lemma intact_spent:
  "intact token dt bytes m \<Longrightarrow> spends token (dt_ExpiresAt dt) e \<Longrightarrow> dt_Used dt = False \<Longrightarrow> spent token (dt_KeyPEM dt) (download_step e m)"
  by (cases e) (auto simp: intact_def spends_def spent_def wiped_def download_defs split: option.splits if_splits)

lemma spent_step: "spent token key m \<Longrightarrow> apart token key e \<Longrightarrow> spent token key (download_step e m)"
  by (cases e) (auto simp: spent_def wiped_def apart_def download_defs split: option.splits if_splits)

lemma spent_run: "spent token key m \<Longrightarrow> list_all (apart token key) es \<Longrightarrow> spent token key (fold download_step es m)"
  by (induction es arbitrary: m) (auto simp: spent_step)

lemma link_run:
  assumes "intact token dt bytes m" "\<not> dt_Used dt" "list_all (apart token (dt_KeyPEM dt)) es"
  shows "if \<exists>e \<in> set es. spends token (dt_ExpiresAt dt) e then spent token (dt_KeyPEM dt) (fold download_step es m)
    else intact token dt bytes (fold download_step es m)"
  using assms
proof (induction es arbitrary: m)
  case (Cons e es)
  show ?case
  proof (cases "spends token (dt_ExpiresAt dt) e")
    case True
    with Cons.prems have "spent token (dt_KeyPEM dt) (download_step e m)" by (simp add: intact_spent)
    then show ?thesis using True spent_run Cons.prems(3) by simp
  next
    case False
    with Cons.prems have "intact token dt bytes (download_step e m)" by (simp add: intact_step)
    from Cons.IH [OF this] Cons.prems False show ?thesis by simp
  qed
qed simp

section \<open>Properties\<close>

text \<open>C14. The fate of a download link, whatever other links are created, used and cleaned up before and after:
  a use is answered with the certificate and the key exactly when it is the first one, not later than
  ten minutes after the creation, and no cleanup ran after that time; a first use after the ten minutes
  is refused as expired, any other as unknown (never as used). From that use on, or from such a
  cleanup, the key bytes in memory are zero and every later use is refused as unknown. (The random
  source does not repeat the token, and no other link holds the same slice of key bytes.)\<close>

theorem download_single_use:
  assumes create: "Create rnd now cert key m = (token, m1)" and alone: "sole_user token key m"
    and es: "list_all (apart token key) es" and use: "Consume now' token (fold download_step es m1) = (r, m2)"
  shows "r = (if \<exists>e \<in> set es. spends token (now + 10 * minute) e then Inl ErrTokenInvalid
              else if now' > now + 10 * minute then Inl ErrTokenExpired else Inr (cert, dm_mem m key)) \<and>
    ((\<exists>e \<in> set es. spends token (now + 10 * minute) e) \<longrightarrow> wiped key (fold download_step es m1)) \<and>
    (\<forall>es' now''. list_all (apart token key) es' \<longrightarrow> wiped key (fold download_step es' m2) \<and>
       fst (Consume now'' token (fold download_step es' m2)) = Inl ErrTokenInvalid)"
proof -
  let ?dt = "\<lparr>dt_CertPEM = cert, dt_KeyPEM = key, dt_ExpiresAt = now + 10 * minute, dt_Used = False\<rparr>" and ?m = "fold download_step es m1"
  have "intact token ?dt (dm_mem m key) m1"
    using create alone by (auto simp: intact_def sole_user_def Create_def Let_def split: if_splits)
  moreover have "\<not> dt_Used ?dt" "list_all (apart token (dt_KeyPEM ?dt)) es" using es by simp_all
  ultimately have fate: "if \<exists>e \<in> set es. spends token (now + 10 * minute) e then spent token key ?m
      else intact token ?dt (dm_mem m key) ?m"
    using link_run [of token ?dt "dm_mem m key" m1 es] by (simp only: DownloadToken.select_convs simp_thms)
  have "spent token key m2" using fate use intact_spent [of token ?dt "dm_mem m key" ?m "DConsume now' token"]
    by (auto simp: spends_def spent_def Consume_def split: if_splits)
  then have later: "spent token key (fold download_step es' m2)" if "list_all (apart token key) es'" for es'
    using that by (rule spent_run)
  have "r = (if \<exists>e \<in> set es. spends token (now + 10 * minute) e then Inl ErrTokenInvalid
      else if now' > now + 10 * minute then Inl ErrTokenExpired else Inr (cert, dm_mem m key))"
    using fate use by (auto simp: spent_def intact_def Consume_def split: if_splits)
  moreover have "wiped key ?m" if "\<exists>e \<in> set es. spends token (now + 10 * minute) e"
    using fate that by (simp only: if_True spent_def)
  moreover have "wiped key (fold download_step es' m2)" "fst (Consume now'' token (fold download_step es' m2)) = Inl ErrTokenInvalid"
    if "list_all (apart token key) es'" for es' now''
    using later [OF that] by (simp_all add: spent_def Consume_def)
  ultimately show ?thesis by blast
qed

theorem download_single_use_witness:
  "let (token, m1) = Create [1] 0 ''cert'' 7 (NewDownloadManager (\<lambda>_. [5, 6]));
       es = [DCleanup 65000000000, DCreate [2] 66000000000 ''c'' 8];
       (r, m2) = Consume (10 * minute) token (fold download_step es m1)
   in r = Inr (''cert'', [5, 6]) \<and> fst (Consume (10 * minute + 1) token m2) = Inl ErrTokenInvalid \<and>
      fst (Consume (10 * minute + 1) token (fold download_step es m1)) = Inl ErrTokenExpired"
proof -
  let ?m = "NewDownloadManager (\<lambda>_. [5, 6])" and ?es = "[DCleanup 65000000000, DCreate [2] 66000000000 ''c'' 8]"
  obtain token m1 where c: "Create [1] 0 ''cert'' 7 ?m = (token, m1)" by fastforce
  obtain r m2 where u: "Consume (10 * minute) token (fold download_step ?es m1) = (r, m2)" by fastforce
  obtain r' m3 where u': "Consume (10 * minute + 1) token (fold download_step ?es m1) = (r', m3)" by fastforce
  have "hex_encode [2] \<noteq> hex_encode [1 :: 8 word]" by (simp add: hex_encode_inj)
  then have es: "list_all (apart token 7) ?es" using c by (auto simp: apart_def Create_def Let_def)
  have alone: "sole_user token 7 ?m" by (simp add: sole_user_def NewDownloadManager_def)
  have no: "\<not> (\<exists>e \<in> set ?es. spends token (0 + 10 * minute) e)" by (simp add: spends_def)
  note first = download_single_use [OF c alone es u]
  have "r = Inr (''cert'', [5, 6])" using first no by (simp add: NewDownloadManager_def del: fold_simps)
  moreover have "list_all (apart token 7) []" by simp
  then have "fst (Consume (10 * minute + 1) token (fold download_step [] m2)) = Inl ErrTokenInvalid" using first by blast
  moreover have "r' = Inl ErrTokenExpired" using download_single_use [OF c alone es u'] no by simp
  ultimately show ?thesis using c u u' by (simp del: fold_simps add: fold_simps(1))
qed

text \<open>The answer "already used" is unreachable: a used token is deleted at once.\<close>

lemma token_used_unreachable:
  "fst (Consume now token (fold download_step es (NewDownloadManager mem))) \<noteq> Inl ErrTokenUsed"
proof -
  have "unused (NewDownloadManager mem)" by (simp add: unused_def NewDownloadManager_def)
  then have "unused (fold download_step es (NewDownloadManager mem))" by (rule downloads_unused.inv_run)
  then show ?thesis by (auto simp: Consume_def unused_def split: option.splits)
qed

end
