(* ===== verification/Web_Core.thy ===== *)
theory Web_Core
  imports Auth_Session Login_Limiter Rate_Limit Pki_Download Pki_Client
begin

text \<open>
  The admin interface, part one: its dependencies and state (\<open>internal/web/server.go\<close>), the
  middleware (\<open>middleware.go\<close>), the template helpers, and signing in and out (\<open>handlers_auth.go\<close>).
  Templates, bcrypt, key generation, zip and the certificate authority are libraries or services:
  they are fields of the record \<open>web_env\<close>, with the clock reading and the random bytes of the request.
\<close>

section \<open>Dependencies and state\<close>

record View =
  v_Title :: string
  v_Section :: string
  v_ExpiringCerts :: int64
  v_CSRF :: string
  v_Flash :: "FlashData option"
  v_Tenants :: "tenant list"
  v_ExpiringMap :: "int64 \<rightharpoonup> int64"
  v_Editing :: bool
  v_Tenant :: "tenant option"
  v_Users :: "user list"
  v_TenantID :: int64
  v_QuotaUsed :: int64
  v_QuotaTotal :: int64
  v_Certificates :: "certificate list"
  v_CAEnabled :: bool
  v_ExpiryWarnDays :: int64

record web_env =
  we_template :: "string \<Rightarrow> View \<Rightarrow> string"
  we_error_page :: "int64 \<Rightarrow> string \<Rightarrow> string \<Rightarrow> View \<Rightarrow> string"
  we_static :: "request \<Rightarrow> response \<Rightarrow> response"
  we_location :: "request \<Rightarrow> string \<Rightarrow> string"                        \<comment> \<open>this path with the query, as a URL\<close>
  we_CompareHashAndPassword :: "string \<Rightarrow> string \<Rightarrow> bool"
  we_GenerateFromPassword :: "string \<Rightarrow> string result"
  we_pki :: pki_ops
  we_post :: ca_post
  we_GenerateKey :: "u8 list result"                               \<comment> \<open>a fresh P-256 key, in DER\<close>
  we_CreateCSR :: "string \<Rightarrow> u8 list \<Rightarrow> u8 list result"             \<comment> \<open>common name, key\<close>
  we_bundle :: "(string \<times> string \<times> int64) list \<Rightarrow> string result"      \<comment> \<open>the archive of these files\<close>
  we_installSh :: string
  we_encode_usage :: "usage_data \<Rightarrow> string"
  we_now :: time
  we_rnd_key :: "u8 list"
  we_rnd_secret :: "u8 list"
  we_rnd_token :: "u8 list"
  we_rnd_jti :: "u8 list"
  we_addr :: nat                                                   \<comment> \<open>where the key bytes are allocated\<close>

text \<open>\<open>ws_downloads\<close> says whether a download manager was configured (it is nil without a CA).\<close>

record web_server =
  ws_session :: session_manager
  ws_caClient :: "Client option"
  ws_downloads :: bool
  ws_caExternalHost :: string
  ws_caSyslogPort :: int64
  ws_certLifetime :: time
  ws_trustProxyHeaders :: bool

record web_state =
  wb_db :: db
  wb_login :: login_limiter
  wb_dm :: DownloadManager
  wb_quotaFailures :: "int64 option"   \<comment> \<open>the limiter's counter; None when there is no limiter\<close>

abbreviation signing_key :: "web_server \<Rightarrow> u8 list" where
  "signing_key sv \<equiv> sm_signingKey (ws_session sv)"

abbreviation cookie_secure :: "web_server \<Rightarrow> bool" where
  "cookie_secure sv \<equiv> sm_cookieSecure (ws_session sv)"

type_synonym handler = "web_env \<Rightarrow> web_server \<Rightarrow> request \<Rightarrow> response \<Rightarrow> web_state \<Rightarrow> response \<times> web_state"

text \<open>\<open>id, _ := strconv.ParseInt (s, 10, 64)\<close>: 0 for malformed text, the nearest bound out of range.\<close>

definition parse_int_value :: "string \<Rightarrow> int64" where
  "parse_int_value s =
     (case parse_int s of
        Some v \<Rightarrow> v
      | None \<Rightarrow>
          (case s of
             [] \<Rightarrow> 0
           | c # cs \<Rightarrow>
               if c = CHR ''-'' then (if parse_uint cs = None then 0 else - (2 ^ 63))
               else if parse_uint (if c = CHR ''+'' then cs else s) = None then 0 else 2 ^ 63 - 1))"

section \<open>Template helpers\<close>

definition maskKey :: "string \<Rightarrow> string" where
  "maskKey k = (if length k \<le> 8 then replicate (length k) CHR ''*'' else take 4 k @ ''...'' @ drop (length k - 4) k)"

text \<open>Go's integer division truncates towards zero.\<close>

definition go_div :: "int64 \<Rightarrow> int64 \<Rightarrow> int64" where
  "go_div a b = sgn a * sgn b * (\<bar>a\<bar> div \<bar>b\<bar>)"

definition percentOf :: "int64 \<Rightarrow> int64 \<Rightarrow> int64" where
  "percentOf used quota =
     (if quota \<le> 0 then 0
      else (let pct = go_div (wrap64 (used * 100)) quota; pct1 = (if pct > 100 then 100 else pct)
            in if pct1 < 0 then 0 else pct1))"

definition formatTime :: "time \<Rightarrow> string" where
  "formatTime t = format_date t"

definition expired :: "time \<Rightarrow> time \<Rightarrow> bool" where
  "expired now t \<longleftrightarrow> now > t"

definition expiringSoon :: "time \<Rightarrow> time \<Rightarrow> int64 \<Rightarrow> bool" where
  "expiringSoon now t warnDays \<longleftrightarrow> \<not> now > t \<and> now + warnDays * 24 * hour > t"

definition fingerprintShort :: "string \<Rightarrow> string" where
  "fingerprintShort s0 = (let s = trim_space s0 in if length s \<le> 12 then s else take 8 s @ [CHR 0xE2, CHR 0x80, CHR 0xA6])"

text \<open>
  Go's \<open>range\<close> over a string: the byte index and the rune at each step; an invalid byte is U+FFFD. A space
  goes before every rune whose index is a positive multiple of four.
\<close>

function group_runes :: "nat \<Rightarrow> string \<Rightarrow> string" where
  "group_runes i [] = []"
| "group_runes i (c # cs) =
     (let n = rune_len (c # cs); rune = (if n = 0 then replacement else take n (c # cs)) in
      (if 0 < i \<and> i mod 4 = 0 then '' '' else []) @ rune @ group_runes (i + max 1 n) (drop (n - 1) cs))"
  by pat_completeness auto
termination
  by (relation "measure (\<lambda>(i, s). length s)") auto

declare group_runes.simps(2) [simp del]

definition fingerprintFormat :: "string \<Rightarrow> string" where
  "fingerprintFormat s0 = (let s = trim_space s0 in if length s = 0 then s else group_runes 0 s)"

text \<open>The spaces are all that formatting adds to a fingerprint in ASCII, so what is shown identifies the certificate.\<close>

lemma group_runes_ascii:
  "list_all (\<lambda>c. code c < 128 \<and> c \<noteq> CHR '' '') s \<Longrightarrow> filter (\<lambda>c. c \<noteq> CHR '' '') (group_runes i s) = s"
proof (induction s arbitrary: i)
  case (Cons c cs)
  then show ?case by (simp add: group_runes.simps(2) [of i c cs] Let_def)
qed simp

lemma fingerprintFormat_faithful:
  "list_all (\<lambda>c. code c < 128 \<and> c \<noteq> CHR '' '') (trim_space s) \<Longrightarrow> filter (\<lambda>c. c \<noteq> CHR '' '') (fingerprintFormat s) = trim_space s"
  by (simp add: fingerprintFormat_def Let_def group_runes_ascii)

lemma percentOf_range: "0 \<le> percentOf used quota \<and> percentOf used quota \<le> 100"
  by (simp add: percentOf_def Let_def)

text \<open>The percentage is the real one as long as a hundredfold usage fits in 64 bits.\<close>

lemma percentOf_exact:
  assumes "0 \<le> used" "used * 100 < 2 ^ 63" "0 < quota"
  shows "percentOf used quota = min 100 (used * 100 div quota)"
proof -
  have w: "wrap64 (used * 100) = used * 100" using assms(1,2) by (intro wrap64_id) (simp add: in_int64_def)
  have "go_div (used * 100) quota = used * 100 div quota"
    using assms(1,3) by (cases "used = 0") (simp_all add: go_div_def)
  moreover have "0 \<le> used * 100 div quota" using assms(1,3) by (simp add: pos_imp_zdiv_nonneg_iff)
  ultimately show ?thesis using assms(3) by (auto simp: percentOf_def w Let_def)
qed

section \<open>Rendering\<close>

definition currentCSRFSecret :: "request \<Rightarrow> string" where
  "currentCSRFSecret r = (case Cookie r ''csrf'' of None \<Rightarrow> '''' | Some v \<Rightarrow> v)"

definition render :: "web_env \<Rightarrow> string \<Rightarrow> View \<Rightarrow> response \<Rightarrow> response" where
  "render env name v w = Write (we_template env name v) w"

definition baseView :: "web_env \<Rightarrow> web_server \<Rightarrow> request \<Rightarrow> string \<Rightarrow> web_state \<Rightarrow> View \<times> web_state" where
  "baseView env sv r title s =
     (case ListExpiringCertificates (we_now env) 168 (wb_db s) of
        (expiring, d) \<Rightarrow>
          (\<lparr>v_Title = title, v_Section = (if has_prefix (rq_Path r) ''/users'' then ''users'' else ''tenants''),
            v_ExpiringCerts = (case expiring of Inl _ \<Rightarrow> 0 | Inr es \<Rightarrow> int (length es)),
            v_CSRF = CSRF_Token (signing_key sv) (currentCSRFSecret r), v_Flash = None, v_Tenants = [], v_ExpiringMap = Map.empty,
            v_Editing = False, v_Tenant = None, v_Users = [], v_TenantID = 0, v_QuotaUsed = 0, v_QuotaTotal = 0,
            v_Certificates = [], v_CAEnabled = False, v_ExpiryWarnDays = 14\<rparr>, s\<lparr>wb_db := d\<rparr>))"

definition renderError :: "int64 \<Rightarrow> string \<Rightarrow> string \<Rightarrow> handler" where
  "renderError status title detail env sv r w s =
     (let w1 = WriteHeader status (set_header ''Content-Type'' ''text/html; charset=utf-8'' w) in
      case baseView env sv r title s of (v, s1) \<Rightarrow> (Write (we_error_page env status title detail v) w1, s1))"

definition writeJSONError :: "int64 \<Rightarrow> string \<Rightarrow> response \<Rightarrow> response" where
  \<open>writeJSONError status msg w =
     Write (''{"error":"'' @ msg @ ''"}'') (WriteHeader status (set_header ''Content-Type'' ''application/json'' w))\<close>

section \<open>Middleware\<close>

definition requireAuth :: "handler \<Rightarrow> handler" where
  "requireAuth next env sv r w s =
     (case Cookie r ''session'' of
        None \<Rightarrow> (Redirect r ''/login'' 303 w, s)
      | Some token \<Rightarrow>
          (case Verify (ws_session sv) (we_now env) token (wb_db s) of
             (None, d) \<Rightarrow> (Redirect r ''/login'' 303 w, s\<lparr>wb_db := d\<rparr>)
           | (Some _, d) \<Rightarrow> next env sv r w (s\<lparr>wb_db := d\<rparr>)))"

definition csrf_ok :: "web_server \<Rightarrow> request \<Rightarrow> bool" where
  "csrf_ok sv r \<longleftrightarrow>
     (let secret = currentCSRFSecret r; token = FormValue r ''_csrf'' in
      \<not> (secret = '''' \<or> token = '''' \<or> \<not> CSRF_Verify (signing_key sv) secret token))"

definition requireCSRF :: "handler \<Rightarrow> handler" where
  "requireCSRF next env sv r w s =
     (if \<not> csrf_ok sv r then (http_Error ''invalid CSRF token'' 403 w, s) else next env sv r w s)"

definition security_headers :: "(string \<times> string) list" where
  \<open>security_headers =
     [(''X-Content-Type-Options'', ''nosniff''), (''X-Frame-Options'', ''DENY''), (''Referrer-Policy'', ''no-referrer''),
      (''Content-Security-Policy'', ''default-src '' @ [CHR 0x27] @ ''self'' @ [CHR 0x27] @ ''; script-src '' @ [CHR 0x27] @ ''self'' @ [CHR 0x27] @
        ''; style-src '' @ [CHR 0x27] @ ''self'' @ [CHR 0x27] @ ''; img-src '' @ [CHR 0x27] @ ''self'' @ [CHR 0x27] @ '' data:; frame-ancestors '' @
        [CHR 0x27] @ ''none'' @ [CHR 0x27] @ ''; base-uri '' @ [CHR 0x27] @ ''none'' @ [CHR 0x27] @ ''; form-action '' @ [CHR 0x27] @ ''self'' @ [CHR 0x27])]\<close>

definition securityHeaders :: "handler \<Rightarrow> handler" where
  "securityHeaders next env sv r w s = next env sv r (fold (\<lambda>(k, v). set_header k v) security_headers w) s"

section \<open>Signing in and out\<close>

definition clientIP :: "web_server \<Rightarrow> request \<Rightarrow> string" where
  "clientIP sv r =
     (let fwd = header_get (rq_Header r) ''X-Forwarded-For''; real = header_get (rq_Header r) ''X-Real-Ip'' in
      if ws_trustProxyHeaders sv \<and> fwd \<noteq> '''' then hd (split_n 2 CHR '','' fwd)
      else if ws_trustProxyHeaders sv \<and> real \<noteq> '''' then real
      else rq_RemoteAddr r)"

definition count_or_zero :: "int64 result \<Rightarrow> int64" where
  "count_or_zero r = (case r of Inl _ \<Rightarrow> 0 | Inr n \<Rightarrow> n)"

definition loginPage :: handler where
  "loginPage env sv r w s =
     (case UserCount (wb_db s) of
        (n, d) \<Rightarrow>
          let s1 = s\<lparr>wb_db := d\<rparr> in
          if count_or_zero n = 0 then (Redirect r ''/setup'' 303 w, s1)
          else case baseView env sv r ''Sign in'' s1 of (v, s2) \<Rightarrow> (render env ''login'' v w, s2))"

definition establishSession :: "web_env \<Rightarrow> web_server \<Rightarrow> int64 \<Rightarrow> string \<Rightarrow> response \<Rightarrow> response" where
  "establishSession env sv userID username w =
     SetCSRFCookie (NewSecret (we_rnd_secret env)) (cookie_secure sv)
       (SetSessionCookie (ws_session sv) (Sign (ws_session sv) (we_now env) userID username) w)"

text \<open>The limiter calls of a login: the second key is only counted when the first one passes.\<close>

definition login_allowed :: "time \<Rightarrow> string \<Rightarrow> string \<Rightarrow> login_limiter \<Rightarrow> bool \<times> login_limiter" where
  "login_allowed now ipKey userKey l =
     (case Allow now ipKey l of
        (False, l1) \<Rightarrow> (False, l1)
      | (True, l1) \<Rightarrow> Allow now userKey l1)"

definition loginAction :: handler where
  "loginAction env sv r w s =
     (let username = FormValue r ''username''; password = FormValue r ''password'' in
      case login_allowed (we_now env) (''ip:'' @ clientIP sv r) (''user:'' @ username) (wb_login s) of
        (False, l) \<Rightarrow> (writeJSONError 429 ''too many attempts'' w, s\<lparr>wb_login := l\<rparr>)
      | (True, l) \<Rightarrow>
          (case GetUserByUsername username (wb_db s) of
             (Inl _, d) \<Rightarrow> (writeJSONError 401 ''invalid credentials'' w, s\<lparr>wb_login := l, wb_db := d\<rparr>)
           | (Inr (uid, hash), d) \<Rightarrow>
               let s1 = s\<lparr>wb_login := l, wb_db := d\<rparr> in
               if uid = 0 \<or> \<not> we_CompareHashAndPassword env hash password
               then (writeJSONError 401 ''invalid credentials'' w, s1)
               else (Redirect r ''/'' 303 (establishSession env sv uid username w), s1)))"

definition setupPage :: handler where
  "setupPage env sv r w s =
     (case UserCount (wb_db s) of
        (n, d) \<Rightarrow>
          let s1 = s\<lparr>wb_db := d\<rparr> in
          if count_or_zero n > 0 then (Redirect r ''/login'' 303 w, s1)
          else case baseView env sv r ''Set up'' s1 of (v, s2) \<Rightarrow> (render env ''setup'' v w, s2))"

text \<open>The checks of a new account, shared by the setup form and the user form.\<close>

definition new_account :: "web_env \<Rightarrow> string \<Rightarrow> string \<Rightarrow> (string \<times> int64) + string" where
  "new_account env username password =
     (if username = '''' \<or> password = '''' then Inl (''username and password required'', 400)
      else if length password < 12 then Inl (''password must be at least 12 characters'', 400)
      else case we_GenerateFromPassword env password of
        Inl _ \<Rightarrow> Inl (''internal error'', 500)
      | Inr hash \<Rightarrow> Inr hash)"

definition setupAction :: handler where
  "setupAction env sv r w s =
     (case UserCount (wb_db s) of
        (n, d) \<Rightarrow>
          let s1 = s\<lparr>wb_db := d\<rparr>; username = FormValue r ''username'' in
          if count_or_zero n > 0 then (http_Error ''already setup'' 403 w, s1)
          else case new_account env username (FormValue r ''password'') of
            Inl (msg, c) \<Rightarrow> (http_Error msg c w, s1)
          | Inr hash \<Rightarrow>
              (case CreateUser (we_now env) username hash d of
                 (Inl _, d1) \<Rightarrow> (http_Error ''create user failed'' 500 w, s1\<lparr>wb_db := d1\<rparr>)
               | (Inr _, d1) \<Rightarrow>
                   (case GetUserByUsername username d1 of
                      (res, d2) \<Rightarrow>
                        (let uid = (case res of Inl _ \<Rightarrow> 0 | Inr (i, _) \<Rightarrow> i) in
                         (Redirect r ''/'' 303 (establishSession env sv uid username w), s1\<lparr>wb_db := d2\<rparr>)))))"

definition logout :: handler where
  "logout env sv r w s =
     (Redirect r ''/login'' 303
        (Flash_Clear (cookie_secure sv) (ClearCSRFCookie (cookie_secure sv) (ClearSessionCookie (ws_session sv) w))), s)"

definition healthz_web :: handler where
  \<open>healthz_web env sv r w s =
     (let qf = (case wb_quotaFailures s of None \<Rightarrow> 0 | Some n \<Rightarrow> n) in
      case Ping (wb_db s) of
        (ping, d) \<Rightarrow>
          (let (status, c) = (case ping of Inl _ \<Rightarrow> (''unhealthy'', 503) | Inr _ \<Rightarrow> (''ok'', 200)) in
           (Write (''{"status":"'' @ status @ ''","quota_failures":'' @ format_int qf @ ''}'')
              (WriteHeader c (set_header ''Content-Type'' ''application/json'' w)), s\<lparr>wb_db := d\<rparr>)))\<close>
end
