(* ===== verification/Web_Handlers.thy ===== *)
theory Web_Handlers
  imports Web_Core
begin

text \<open>
  The admin interface, part two: the pages and forms for tenants and users (\<open>handlers.go\<close>) and for
  certificates (\<open>handlers_certs.go\<close>).
\<close>

section \<open>Tenants\<close>

definition consumeFlash :: "web_server \<Rightarrow> request \<Rightarrow> response \<Rightarrow> FlashData option \<times> response" where
  "consumeFlash sv r w = (Flash_Get (signing_key sv) r, Flash_Clear (cookie_secure sv) w)"

definition index :: handler where
  "index env sv r w s =
     (case ListTenants (wb_db s) of
        (Inl _, d) \<Rightarrow> renderError 500 ''Database Error'' ''Unable to load tenants.'' env sv r w (s\<lparr>wb_db := d\<rparr>)
      | (Inr tenants, d) \<Rightarrow>
          (case ExpiringCertsByTenant (we_now env) 168 d of
             (em, d1) \<Rightarrow>
               (case baseView env sv r ''Tenants'' (s\<lparr>wb_db := d1\<rparr>) of
                  (v, s1) \<Rightarrow>
                    (case consumeFlash sv r w of
                       (flash, w1) \<Rightarrow>
                         (render env ''index'' (v\<lparr>v_Tenants := tenants,
                            v_ExpiringMap := (case em of Inl _ \<Rightarrow> Map.empty | Inr m \<Rightarrow> m), v_Flash := flash\<rparr>) w1, s1)))))"

definition tenantNew :: handler where
  "tenantNew env sv r w s =
     (case baseView env sv r ''New Tenant'' s of (v, s1) \<Rightarrow> (render env ''tenant_form'' (v\<lparr>v_Editing := False\<rparr>) w, s1))"

definition path_id :: "request \<Rightarrow> string \<Rightarrow> int64" where
  "path_id r name = parse_int_value (PathValue r name)"

text \<open>Pages about one tenant start with its lookup; a failure and an unknown id get the same page.\<close>

definition with_tenant :: "(tenant \<Rightarrow> handler) \<Rightarrow> handler" where
  "with_tenant k env sv r w s =
     (case LookupTenantByID (path_id r ''id'') (wb_db s) of
        (Inr (Some t), d) \<Rightarrow> k t env sv r w (s\<lparr>wb_db := d\<rparr>)
      | (_, d) \<Rightarrow> renderError 404 ''Tenant Not Found'' ''The requested tenant does not exist or has been deleted.'' env sv r w (s\<lparr>wb_db := d\<rparr>))"

definition tenantEdit :: handler where
  "tenantEdit = with_tenant (\<lambda>t env sv r w s.
     case baseView env sv r ''Edit Tenant'' s of
       (v, s1) \<Rightarrow> (render env ''tenant_form'' (v\<lparr>v_Editing := True, v_Tenant := Some t\<rparr>) w, s1))"

definition positive_field :: "request \<Rightarrow> string \<Rightarrow> int64 option" where
  "positive_field r name =
     (let v = FormValue r name in
      if v = '''' then None
      else case parse_int v of None \<Rightarrow> None | Some val \<Rightarrow> if val > 0 then Some val else None)"

definition parseRateLimits :: "request \<Rightarrow> rate_limit_params" where
  "parseRateLimits r =
     \<lparr>lim_RateLimitRPS = positive_field r ''rate_limit_rps'', lim_BurstBytes = positive_field r ''burst_bytes'',
      lim_DailyByteQuota = map_option (\<lambda>val. wrap64 (val * 1048576)) (positive_field r ''daily_byte_quota'')\<rparr>"

definition apikey_flash :: "string \<Rightarrow> string \<Rightarrow> FlashData" where
  "apikey_flash key tenant = no_flash\<lparr>fl_Kind := ''apikey'', fl_Key := key, fl_Tenant := tenant\<rparr>"

definition tenantCreate :: handler where
  "tenantCreate env sv r w s =
     (case CreateTenant (we_rnd_key env) (we_now env) (FormValue r ''name'') (FormValue r ''description'') (Some (parseRateLimits r)) (wb_db s) of
        (Inl err, d) \<Rightarrow> (http_Error (error_text err) 500 w, s\<lparr>wb_db := d\<rparr>)
      | (Inr tenant, d) \<Rightarrow>
          (Redirect r ''/'' 303 (Flash_Set (signing_key sv) (cookie_secure sv) (apikey_flash (APIKey tenant) (Name tenant)) w), s\<lparr>wb_db := d\<rparr>))"

definition tenantUpdate :: handler where
  "tenantUpdate env sv r w s =
     (case UpdateTenant (we_now env) (path_id r ''id'') (FormValue r ''name'') (FormValue r ''description'') (FormValue r ''active'' = ''on'')
             (Some (parseRateLimits r)) (wb_db s) of
        (Inl err, d) \<Rightarrow> (http_Error (error_text err) 500 w, s\<lparr>wb_db := d\<rparr>)
      | (Inr _, d) \<Rightarrow> (Redirect r ''/'' 303 w, s\<lparr>wb_db := d\<rparr>))"

definition tenantDelete :: handler where
  "tenantDelete env sv r w s =
     (case DeleteTenant (path_id r ''id'') (wb_db s) of
        (Inl err, d) \<Rightarrow> (http_Error (error_text err) 500 w, s\<lparr>wb_db := d\<rparr>)
      | (Inr _, d) \<Rightarrow> (Redirect r ''/'' 303 w, s\<lparr>wb_db := d\<rparr>))"

definition tenantRegenerate :: handler where
  "tenantRegenerate env sv r w s =
     (case LookupTenantByID (path_id r ''id'') (wb_db s) of
        (Inr (Some tenant), d) \<Rightarrow>
          (case RegenerateKey (we_rnd_key env) (we_now env) (path_id r ''id'') d of
             (Inl err, d1) \<Rightarrow> (http_Error (error_text err) 500 w, s\<lparr>wb_db := d1\<rparr>)
           | (Inr newKey, d1) \<Rightarrow>
               (Redirect r ''/'' 303 (Flash_Set (signing_key sv) (cookie_secure sv) (apikey_flash newKey (Name tenant)) w), s\<lparr>wb_db := d1\<rparr>))
      | (_, d) \<Rightarrow> (http_Error ''not found'' 404 w, s\<lparr>wb_db := d\<rparr>))"

definition usagePage :: handler where
  "usagePage = with_tenant (\<lambda>t env sv r w s.
     case baseView env sv r ''Usage'' s of
       (v, s1) \<Rightarrow>
         (case GetDailyByteUsage (we_now env) (path_id r ''id'') (wb_db s1) of
            (used, d) \<Rightarrow>
              (render env ''tenant_usage'' (v\<lparr>v_Tenant := Some t, v_TenantID := path_id r ''id'', v_QuotaUsed := count_or_zero used,
                 v_QuotaTotal := (case DailyByteQuota t of None \<Rightarrow> 0 | Some q \<Rightarrow> q)\<rparr>) w, s1\<lparr>wb_db := d\<rparr>)))"

definition usageData :: handler where
  "usageData env sv r w s =
     (let q = QueryGet r ''range''; rng = (if q = '''' then ''7d'' else q) in
      case GetUsageData (we_now env) (path_id r ''id'') rng (wb_db s) of
        (Inl err, d) \<Rightarrow> (http_Error (error_text err) 500 w, s\<lparr>wb_db := d\<rparr>)
      | (Inr data, d) \<Rightarrow> (Write (we_encode_usage env data) (set_header ''Content-Type'' ''application/json'' w), s\<lparr>wb_db := d\<rparr>))"

section \<open>Users\<close>

definition usersPage :: handler where
  "usersPage env sv r w s =
     (case ListUsers (wb_db s) of
        (Inl _, d) \<Rightarrow> renderError 500 ''Database Error'' ''Unable to load users.'' env sv r w (s\<lparr>wb_db := d\<rparr>)
      | (Inr users, d) \<Rightarrow>
          (case baseView env sv r ''Admin users'' (s\<lparr>wb_db := d\<rparr>) of (v, s1) \<Rightarrow> (render env ''users'' (v\<lparr>v_Users := users\<rparr>) w, s1)))"

definition userCreate :: handler where
  "userCreate env sv r w s =
     (case new_account env (FormValue r ''username'') (FormValue r ''password'') of
        Inl (msg, c) \<Rightarrow> (http_Error msg c w, s)
      | Inr hash \<Rightarrow>
          (case CreateUser (we_now env) (FormValue r ''username'') hash (wb_db s) of
             (Inl err, d) \<Rightarrow> (http_Error (error_text err) 500 w, s\<lparr>wb_db := d\<rparr>)
           | (Inr _, d) \<Rightarrow> (Redirect r ''/users'' 303 w, s\<lparr>wb_db := d\<rparr>)))"

definition userDelete :: handler where
  "userDelete env sv r w s =
     (case DeleteUser (path_id r ''id'') (wb_db s) of (_, d) \<Rightarrow> (Redirect r ''/users'' 303 w, s\<lparr>wb_db := d\<rparr>))"

section \<open>Certificates\<close>

definition certs_url :: "request \<Rightarrow> string" where
  "certs_url r = ''/tenants/'' @ format_int (path_id r ''id'') @ ''/certificates''"

definition certsPage :: handler where
  "certsPage = with_tenant (\<lambda>t env sv r w s.
     case ListCertificates (path_id r ''id'') (wb_db s) of
       (Inl _, d) \<Rightarrow> renderError 500 ''Database Error'' ''Unable to load certificates.'' env sv r w (s\<lparr>wb_db := d\<rparr>)
     | (Inr certs, d) \<Rightarrow>
         (case baseView env sv r ''Certificates'' (s\<lparr>wb_db := d\<rparr>) of
            (v, s1) \<Rightarrow>
              (case consumeFlash sv r w of
                 (flash, w1) \<Rightarrow>
                   (render env ''cert_list'' (v\<lparr>v_Tenant := Some t, v_TenantID := path_id r ''id'', v_Certificates := certs,
                      v_CAEnabled := (ws_caClient sv \<noteq> None), v_ExpiryWarnDays := 14, v_Flash := flash\<rparr>) w1, s1))))"

definition certIssueForm :: handler where
  "certIssueForm = with_tenant (\<lambda>t env sv r w s.
     case baseView env sv r ''Issue certificate'' s of
       (v, s1) \<Rightarrow> (render env ''cert_issue'' (v\<lparr>v_Tenant := Some t, v_TenantID := path_id r ''id'', v_CAEnabled := (ws_caClient sv \<noteq> None),
          v_ExpiryWarnDays := 14\<rparr>) w, s1))"

text \<open>Registering a certificate that the authority issued.\<close>

definition store_cert :: "web_env \<Rightarrow> int64 \<Rightarrow> string \<Rightarrow> x509_cert \<Rightarrow> db \<Rightarrow> certificate result \<times> db" where
  "store_cert env tenantID cn cert d =
     AddCertificate (we_now env) tenantID (xc_SerialHex cert) (hex_encode (sha256 (xc_Raw cert))) cn (xc_NotBefore cert) (xc_NotAfter cert) d"

definition no_ca :: "response \<Rightarrow> response" where
  "no_ca w = http_Error ''certificate issuance unavailable: CA integration disabled'' 503 w"

definition certIssue :: handler where
  "certIssue env sv r w s =
     (case ws_caClient sv of
        None \<Rightarrow> (http_Error ''certificate issuance unavailable: CA integration disabled (set CA_ENABLED=true and the CA_* variables)'' 503 w, s)
      | Some ca \<Rightarrow>
          (let csrPEM = FormValue r ''csr'' in
           if csrPEM = '''' then (http_Error ''CSR is required'' 400 w, s)
           else case po_PemDecode (we_pki env) csrPEM of
             None \<Rightarrow> (http_Error ''invalid CSR: not a PEM-encoded certificate request'' 400 w, s)
           | Some block \<Rightarrow>
               if pb_Type block \<noteq> ''CERTIFICATE REQUEST''
               then (http_Error ''invalid CSR: not a PEM-encoded certificate request'' 400 w, s)
               else (case po_ParseCSR (we_pki env) (pb_Bytes block) of
                       Inl err \<Rightarrow> (http_Error (''invalid CSR: '' @ error_text err) 400 w, s)
                     | Inr csr \<Rightarrow>
                         (case fst (Sign_cert (we_pki env) (we_post env) (we_rnd_jti env) (we_now env) ca csrPEM (ws_certLifetime sv)) of
                            Inl _ \<Rightarrow> (http_Error ''certificate signing failed'' 500 w, s)
                          | Inr cert \<Rightarrow>
                              (case store_cert env (path_id r ''id'') (cs_CommonName csr) cert (wb_db s) of
                                 (Inl _, d) \<Rightarrow> (http_Error ''failed to store certificate metadata'' 500 w, s\<lparr>wb_db := d\<rparr>)
                               | (Inr _, d) \<Rightarrow> (Redirect r (certs_url r) 303 w, s\<lparr>wb_db := d\<rparr>))))))"

definition download_flash :: "string \<Rightarrow> string \<Rightarrow> FlashData" where
  "download_flash url title = no_flash\<lparr>fl_Kind := ''download'', fl_URL := url,
     fl_Message := title @ ''. Download link valid for 10 minutes; the private key will not be shown again.''\<rparr>"

text \<open>The key bytes are in memory at \<open>we_addr\<close>, which the download manager keeps a reference to.\<close>

definition issueDownload :: "string \<Rightarrow> string \<Rightarrow> string \<Rightarrow> handler" where
  "issueDownload certPEM keyPEM title env sv r w s =
     (let dm = (wb_dm s)\<lparr>dm_mem := (dm_mem (wb_dm s))(we_addr env := bytes_of keyPEM)\<rparr> in
      case Create (we_rnd_token env) (we_now env) certPEM (we_addr env) dm of
        (token, dm') \<Rightarrow>
          (Redirect r (certs_url r) 303
             (Flash_Set (signing_key sv) (cookie_secure sv) (download_flash (''/api/certificates/'' @ token @ ''/download'') title) w),
           s\<lparr>wb_dm := dm'\<rparr>))"

definition key_pem :: "web_env \<Rightarrow> u8 list \<Rightarrow> string" where
  "key_pem env der = po_PemEncode (we_pki env) \<lparr>pb_Type = ''EC PRIVATE KEY'', pb_Bytes = der\<rparr>"

definition csr_pem :: "web_env \<Rightarrow> u8 list \<Rightarrow> string" where
  "csr_pem env der = po_PemEncode (we_pki env) \<lparr>pb_Type = ''CERTIFICATE REQUEST'', pb_Bytes = der\<rparr>"

definition certIssueKeygen :: handler where
  "certIssueKeygen env sv r w s =
     (case ws_caClient sv of
        None \<Rightarrow> (no_ca w, s)
      | Some ca \<Rightarrow>
          (case we_GenerateKey env of
             Inl _ \<Rightarrow> (http_Error ''key generation failed'' 500 w, s)
           | Inr key \<Rightarrow>
               (let subject = ''tenant-'' @ format_int (path_id r ''id'') @ ''-'' @ format_int (unix (we_now env)) in
                case we_CreateCSR env subject key of
                  Inl _ \<Rightarrow> (http_Error ''CSR generation failed'' 500 w, s)
                | Inr csrDER \<Rightarrow>
                    (case fst (Sign_cert (we_pki env) (we_post env) (we_rnd_jti env) (we_now env) ca (csr_pem env csrDER) (ws_certLifetime sv)) of
                       Inl _ \<Rightarrow> (http_Error ''certificate signing failed'' 500 w, s)
                     | Inr cert \<Rightarrow>
                         (case store_cert env (path_id r ''id'') subject cert (wb_db s) of
                            (Inl _, d) \<Rightarrow> (http_Error ''failed to store certificate metadata'' 500 w, s\<lparr>wb_db := d\<rparr>)
                          | (Inr _, d) \<Rightarrow>
                              issueDownload (EncodeCertPEM (we_pki env) cert) (key_pem env key) ''Certificate Issued'' env sv r w (s\<lparr>wb_db := d\<rparr>))))))"

definition lookup_own_cert :: "request \<Rightarrow> db \<Rightarrow> certificate option \<times> db" where
  "lookup_own_cert r d =
     (case LookupCertificateByID (path_id r ''certId'') d of
        (Inr (Some cert), d1) \<Rightarrow> (if cert_TenantID cert = path_id r ''id'' then Some cert else None, d1)
      | (_, d1) \<Rightarrow> (None, d1))"

definition certRenew :: handler where
  "certRenew env sv r w s =
     (case ws_caClient sv of
        None \<Rightarrow> (no_ca w, s)
      | Some ca \<Rightarrow>
          (case lookup_own_cert r (wb_db s) of
             (None, d) \<Rightarrow> (http_Error ''certificate not found'' 404 w, s\<lparr>wb_db := d\<rparr>)
           | (Some cert, d) \<Rightarrow>
               let s1 = s\<lparr>wb_db := d\<rparr> in
               if cert_RevokedAt cert \<noteq> None then (http_Error ''cannot renew a revoked certificate'' 400 w, s1)
               else (case we_GenerateKey env of
                       Inl _ \<Rightarrow> (http_Error ''key generation failed'' 500 w, s1)
                     | Inr key \<Rightarrow>
                         (case we_CreateCSR env (cert_SubjectCN cert) key of
                            Inl _ \<Rightarrow> (http_Error ''CSR generation failed'' 500 w, s1)
                          | Inr csrDER \<Rightarrow>
                              (case fst (Renew (we_pki env) (we_post env) (we_rnd_jti env) (we_now env) ca (cert_SerialNumber cert) (csr_pem env csrDER)) of
                                 Inl _ \<Rightarrow> (http_Error ''renewal failed'' 500 w, s1)
                               | Inr newCert \<Rightarrow>
                                   (case store_cert env (path_id r ''id'') (cert_SubjectCN cert) newCert d of
                                      (Inl _, d2) \<Rightarrow> (http_Error ''failed to store certificate metadata'' 500 w, s1\<lparr>wb_db := d2\<rparr>)
                                    | (Inr _, d2) \<Rightarrow>
                                        issueDownload (EncodeCertPEM (we_pki env) newCert) (key_pem env key) ''Certificate Renewed'' env sv r w
                                          (s1\<lparr>wb_db := d2\<rparr>)))))))"

definition certRevoke :: handler where
  "certRevoke env sv r w s =
     (case lookup_own_cert r (wb_db s) of
        (None, d) \<Rightarrow> (http_Error ''certificate not found'' 404 w, s\<lparr>wb_db := d\<rparr>)
      | (Some cert, d) \<Rightarrow>
          (case (case ws_caClient sv of
                   None \<Rightarrow> Inr ()
                 | Some ca \<Rightarrow> fst (Revoke (we_pki env) (we_post env) (we_rnd_jti env) (we_now env) ca (cert_SerialNumber cert) ''unspecified'')) of
             Inl _ \<Rightarrow> (http_Error ''revocation failed in CA'' 500 w, s\<lparr>wb_db := d\<rparr>)
           | Inr _ \<Rightarrow>
               (case RevokeCertificate (we_now env) (cert_FingerprintSHA256 cert) d of
                  (_, d1) \<Rightarrow> (Redirect r (certs_url r) 303 w, s\<lparr>wb_db := d1\<rparr>))))"

definition downloadByToken :: handler where
  "downloadByToken env sv r w s =
     (case (if ws_downloads sv then ws_caClient sv else None) of
        None \<Rightarrow> (http_Error ''download unavailable'' 503 w, s)
      | Some ca \<Rightarrow>
          (case Consume (we_now env) (PathValue r ''token'') (wb_dm s) of
             (Inl ErrTokenExpired, dm) \<Rightarrow> (http_Error ''download link expired'' 410 w, s\<lparr>wb_dm := dm\<rparr>)
           | (Inl ErrTokenUsed, dm) \<Rightarrow> (http_Error ''download link already used'' 410 w, s\<lparr>wb_dm := dm\<rparr>)
           | (Inl ErrTokenInvalid, dm) \<Rightarrow> (http_Error ''download link not found'' 404 w, s\<lparr>wb_dm := dm\<rparr>)
           | (Inr (certPEM, keyPEM), dm) \<Rightarrow>
               (case GenerateBundle (we_bundle env) (we_installSh env) certPEM keyPEM (cl_rootCert ca)
                       (ws_caExternalHost sv) (ws_caSyslogPort sv) of
                  Inl _ \<Rightarrow> (http_Error ''bundle generation failed'' 500 w, s\<lparr>wb_dm := dm\<rparr>)
                | Inr zipData \<Rightarrow>
                    (Write zipData (set_header ''Content-Disposition'' ''attachment; filename=signoz-certs.zip''
                       (set_header ''Content-Type'' ''application/zip'' w)), s\<lparr>wb_dm := dm\<rparr>))))"
end
