(* ===== verification/Web_Server.thy ===== *)
theory Web_Server
  imports Web_Handlers Go_Mux
begin

text \<open>
  The admin interface, part three: the routing table of \<open>New\<close> (\<open>internal/web/server.go\<close>), how the
  multiplexer (\<^theory_text>\<open>Go_Mux\<close>) dispatches a request over it, and the middleware around it.
\<close>

section \<open>Routes\<close>

definition static_route :: handler where
  "static_route env sv r w s = (we_static env r w, s)"

definition public_routes :: "handler route list" where
  "public_routes =
     [(''GET'', [Lit ''static'', Rest], static_route),
      (''GET'', [Lit ''healthz''], healthz_web),
      (''GET'', [Lit ''login''], loginPage),
      (''POST'', [Lit ''login''], loginAction),
      (''GET'', [Lit ''setup''], setupPage),
      (''POST'', [Lit ''setup''], setupAction),
      (''GET'', [Lit ''api'', Lit ''certificates'', Wild ''token'', Lit ''download''], downloadByToken)]"

definition page_routes :: "handler route list" where
  "page_routes =
     [(''GET'', [Lit ''''], requireAuth index),
      (''GET'', [Lit ''tenants'', Lit ''new''], requireAuth tenantNew),
      (''GET'', [Lit ''tenants'', Wild ''id'', Lit ''edit''], requireAuth tenantEdit),
      (''GET'', [Lit ''tenants'', Wild ''id'', Lit ''usage''], requireAuth usagePage),
      (''GET'', [Lit ''tenants'', Wild ''id'', Lit ''usage'', Lit ''data''], requireAuth usageData),
      (''GET'', [Lit ''tenants'', Wild ''id'', Lit ''certificates''], requireAuth certsPage),
      (''GET'', [Lit ''tenants'', Wild ''id'', Lit ''certificates'', Lit ''new''], requireAuth certIssueForm),
      (''GET'', [Lit ''users''], requireAuth usersPage)]"

definition form_routes :: "handler route list" where
  "form_routes =
     [(''POST'', [Lit ''tenants''], requireAuth (requireCSRF tenantCreate)),
      (''POST'', [Lit ''tenants'', Wild ''id''], requireAuth (requireCSRF tenantUpdate)),
      (''POST'', [Lit ''tenants'', Wild ''id'', Lit ''delete''], requireAuth (requireCSRF tenantDelete)),
      (''POST'', [Lit ''tenants'', Wild ''id'', Lit ''regenerate''], requireAuth (requireCSRF tenantRegenerate)),
      (''POST'', [Lit ''tenants'', Wild ''id'', Lit ''certificates''], requireAuth (requireCSRF certIssue)),
      (''POST'', [Lit ''tenants'', Wild ''id'', Lit ''certificates'', Lit ''keygen''], requireAuth (requireCSRF certIssueKeygen)),
      (''POST'', [Lit ''tenants'', Wild ''id'', Lit ''certificates'', Wild ''certId'', Lit ''renew''], requireAuth (requireCSRF certRenew)),
      (''POST'', [Lit ''tenants'', Wild ''id'', Lit ''certificates'', Wild ''certId'', Lit ''revoke''], requireAuth (requireCSRF certRevoke)),
      (''POST'', [Lit ''users''], requireAuth (requireCSRF userCreate)),
      (''POST'', [Lit ''users'', Wild ''id'', Lit ''delete''], requireAuth (requireCSRF userDelete)),
      (''POST'', [Lit ''logout''], requireAuth (requireCSRF logout))]"

definition routes :: "handler route list" where
  "routes = public_routes @ page_routes @ form_routes"

section \<open>Dispatch\<close>

text \<open>The multiplexer over the table; \<open>we_location\<close> renders the URL of a redirect.\<close>

definition admin_mux :: handler where
  "admin_mux env sv r w s =
     (case mux routes (rq_Method r) (rq_Path r) of
        Dispatch h vs \<Rightarrow> h env sv (r\<lparr>rq_PathValue := vs\<rparr>) w s
      | answer \<Rightarrow> (mux_response (we_location env r) r answer w, s))"

text \<open>The log line is not part of the model.\<close>

definition loggingMiddleware :: "handler \<Rightarrow> handler" where
  "loggingMiddleware next env sv r w s = next env sv r w s"

definition admin_handler :: handler where
  "admin_handler = securityHeaders (loggingMiddleware admin_mux)"

text \<open>A request is answered by the multiplexer itself, or by the handler of a route that matches.\<close>

definition secured_response :: "response \<Rightarrow> response" where
  "secured_response w = fold (\<lambda>(k, v). set_header k v) security_headers w"

lemma written_cookies [simp]:
  "rs_cookies (secured_response w) = rs_cookies w"
  by (simp add: secured_response_def security_headers_def)

lemmas answers = admin_handler_def securityHeaders_def loggingMiddleware_def admin_mux_def

lemma admin_handler_cases:
  assumes "admin_handler env sv r w s = (w', s')"
  obtains "s' = s" "rs_cookies w' = rs_cookies w"
  | pm ps h vs where "(pm, ps, h) \<in> set routes" "h env sv (r\<lparr>rq_PathValue := vs\<rparr>) (secured_response w) s = (w', s')"
      "method_matches pm (rq_Method r)" "match_segs ps (path_segs (rq_Path r)) = Some vs"
      "rq_Method r \<noteq> ''CONNECT'' \<Longrightarrow> cleanPath (rq_Path r) = rq_Path r"
proof (cases "mux routes (rq_Method r) (rq_Path r)")
  case (Dispatch h vs)
  from mux_Dispatch [OF this] obtain pm ps where "(pm, ps, h) \<in> set routes" "method_matches pm (rq_Method r)"
    "match_segs ps (path_segs (rq_Path r)) = Some vs" "rq_Method r \<noteq> ''CONNECT'' \<Longrightarrow> cleanPath (rq_Path r) = rq_Path r" by blast
  moreover have "h env sv (r\<lparr>rq_PathValue := vs\<rparr>) (secured_response w) s = (w', s')"
    using assms Dispatch
    by (simp add: admin_handler_def securityHeaders_def loggingMiddleware_def admin_mux_def secured_response_def)
  ultimately show thesis using that(2) by blast
next
  case (MovedTo p)
  then show thesis using assms that(1) by (auto simp: answers secured_response_def [symmetric])
next
  case (MethodNotAllowed ms)
  then show thesis using assms that(1) by (auto simp: answers secured_response_def [symmetric])
next
  case NotFound
  then show thesis using assms that(1) by (auto simp: answers secured_response_def [symmetric])
qed


section \<open>Construction\<close>

record web_config =
  wc_Addr :: string
  wc_SigningKey :: "u8 list"
  wc_CookieSecure :: bool
  wc_TrustProxyHeaders :: bool
  wc_CAClient :: "Client option"
  wc_DownloadManager :: "DownloadManager option"
  wc_CAExternalHost :: string
  wc_CASyslogPort :: int64
  wc_CertLifetime :: time

definition New_web :: "web_config \<Rightarrow> db \<Rightarrow> int64 option \<Rightarrow> DownloadManager \<Rightarrow> web_server \<times> web_state" where
  "New_web cfg d quotaFailures noDownloads =
     (\<lparr>ws_session = NewSessionManager (wc_SigningKey cfg) (wc_CookieSecure cfg), ws_caClient = wc_CAClient cfg,
       ws_downloads = (wc_DownloadManager cfg \<noteq> None), ws_caExternalHost = wc_CAExternalHost cfg,
       ws_caSyslogPort = wc_CASyslogPort cfg,
       ws_certLifetime = (if wc_CertLifetime cfg = 0 then 2160 * hour else wc_CertLifetime cfg),
       ws_trustProxyHeaders = wc_TrustProxyHeaders cfg\<rparr>,
      \<lparr>wb_db = d, wb_login = NewLoginLimiter, wb_dm = (case wc_DownloadManager cfg of None \<Rightarrow> noDownloads | Some m \<Rightarrow> m),
       wb_quotaFailures = quotaFailures\<rparr>)"

section \<open>The routing table is unambiguous\<close>

lemma routes_disjoint: "disjoint_patterns (map route_pattern routes)"
  by (simp add: routes_def public_routes_def page_routes_def form_routes_def)

lemma routes_methods: "list_all (\<lambda>x. fst x \<in> {''GET'', ''POST''}) routes"
  by (simp add: routes_def public_routes_def page_routes_def form_routes_def)

text \<open>So the order of registration does not matter: a route that matches is the one that runs.\<close>

lemma route_dispatch:
  assumes "(pm, ps, h) \<in> set routes" "method_matches pm (rq_Method r)" "match_segs ps (path_segs (rq_Path r)) = Some vs"
    and "cleanPath (rq_Path r) = rq_Path r"
  shows "admin_handler env sv r w s = h env sv (r\<lparr>rq_PathValue := vs\<rparr>) (secured_response w) s"
  using mux_registered [OF routes_disjoint routes_methods assms]
  by (simp add: admin_handler_def securityHeaders_def loggingMiddleware_def admin_mux_def secured_response_def)

end
