(* ===== verification/Web_Frame.thy ===== *)
theory Web_Frame
  imports Web_Server Store
begin

text \<open>
  What a request can do to the store. A relation between the database before and after that holds of
  the single statements holds of every handler; the two locales say which statements a relation has
  to be checked on, for the handlers that only read and for all of them. They are interpreted on
  ``the same tables'', on the schema invariant and on the growth of the tenant ids.
\<close>

section \<open>Reading handlers\<close>

locale store_relation =
  fixes P :: "db \<Rightarrow> db \<Rightarrow> bool"
  assumes same: "P d d" and trans: "P a b \<Longrightarrow> P b c \<Longrightarrow> P a c" and pop: "P d (pop_fault d)"
begin

lemma query: "sql_query f d = (x, d') \<Longrightarrow> P d d'"
  using pop by (auto dest: sql_query_eq)

lemma query_flat: "flat (sql_query f d) = (x, d') \<Longrightarrow> P d d'"
  by (cases "sql_query f d") (auto simp: flat_def split: sum.splits dest: query)

lemma reads:
  "ListTenants d = (a1, d') \<Longrightarrow> P d d'" "LookupTenantByID t d = (a2, d') \<Longrightarrow> P d d'"
  "ListExpiringCertificates now h d = (a3, d') \<Longrightarrow> P d d'" "ExpiringCertsByTenant now h d = (a4, d') \<Longrightarrow> P d d'"
  "ListCertificates t d = (a5, d') \<Longrightarrow> P d d'" "LookupCertificateByID t d = (a6, d') \<Longrightarrow> P d d'"
  "GetUserByUsername u d = (a7, d') \<Longrightarrow> P d d'" "ListUsers d = (a8, d') \<Longrightarrow> P d d'"
  "UserCount d = (a9, d') \<Longrightarrow> P d d'" "Ping d = (a10, d') \<Longrightarrow> P d d'" "GetDailyByteUsage now t d = (a11, d') \<Longrightarrow> P d d'"
  by (simp_all add: ListTenants_def LookupTenantByID_def ListExpiringCertificates_def ExpiringCertsByTenant_def
      ListCertificates_def LookupCertificateByID_def GetUserByUsername_def ListUsers_def UserCount_def Ping_def
      GetDailyByteUsage_def query query_flat)

lemma read_usage: "GetUsageData now t rng d = (a, d') \<Longrightarrow> P d d'"
  by (auto simp: GetUsageData_def getUsageRequests_def getUsageVolumes_def getUsageSignalTypes_def Let_def
      split: prod.splits sum.splits dest!: query query_flat intro: trans)

lemma read_session: "Verify m now token d = (a, d') \<Longrightarrow> P d d'"
  using Verify_frame [of m now token d] same pop by (auto split: prod.splits)

lemma read_view: "baseView env sv r title s = (v, s') \<Longrightarrow> P (wb_db s) (wb_db s')"
  by (auto simp: baseView_def split: prod.splits dest: reads)

definition keeps :: "handler \<Rightarrow> bool" where
  "keeps h \<longleftrightarrow> (\<forall>env sv r w s. P (wb_db s) (wb_db (snd (h env sv r w s))))"

lemma keepsI: "(\<And>env sv r w s w' s'. h env sv r w s = (w', s') \<Longrightarrow> P (wb_db s) (wb_db s')) \<Longrightarrow> keeps h"
  unfolding keeps_def by (metis prod.collapse)

lemma keepsD: "keeps h \<Longrightarrow> h env sv r w s = (w', s') \<Longrightarrow> P (wb_db s) (wb_db s')"
  unfolding keeps_def by (metis snd_conv)

lemma keeps_requireAuth: "keeps h \<Longrightarrow> keeps (requireAuth h)"
  by (rule keepsI) (auto simp: requireAuth_def split: option.splits prod.splits dest!: keepsD read_session intro: same trans)

lemma keeps_requireCSRF: "keeps h \<Longrightarrow> keeps (requireCSRF h)"
  by (rule keepsI) (auto simp: requireCSRF_def split: if_splits dest!: keepsD intro: same)

lemma error_page: "renderError c t dt env sv r w s = (w', s') \<Longrightarrow> P (wb_db s) (wb_db s')"
  by (auto simp: renderError_def Let_def split: prod.splits dest: read_view)

lemma keeps_with_tenant: "(\<And>t. keeps (k t)) \<Longrightarrow> keeps (with_tenant k)"
  by (rule keepsI) (force simp: with_tenant_def split: prod.splits sum.splits option.splits
      dest!: reads keepsD error_page intro: trans)

lemma keeps_index: "keeps index"
  by (rule keepsI) (auto simp: index_def consumeFlash_def split: prod.splits sum.splits
      dest!: reads read_view error_page intro: trans)

lemma keeps_tenant_pages: "keeps tenantNew" "keeps tenantEdit" "keeps usagePage" "keeps certIssueForm"
proof -
  show "keeps tenantNew" by (rule keepsI) (auto simp: tenantNew_def split: prod.splits dest!: read_view)
  show "keeps tenantEdit" unfolding tenantEdit_def
    by (intro keeps_with_tenant keepsI) (auto split: prod.splits dest!: read_view)
  show "keeps usagePage" unfolding usagePage_def
    by (intro keeps_with_tenant keepsI) (auto split: prod.splits dest!: read_view reads intro: trans)
  show "keeps certIssueForm" unfolding certIssueForm_def
    by (intro keeps_with_tenant keepsI) (auto split: prod.splits dest!: read_view)
qed

lemma keeps_list_pages: "keeps usersPage" "keeps certsPage" "keeps usageData"
proof -
  show "keeps usersPage"
    by (rule keepsI) (auto simp: usersPage_def split: prod.splits sum.splits dest!: reads read_view error_page intro: trans)
  show "keeps certsPage" unfolding certsPage_def
    by (intro keeps_with_tenant keepsI) (auto simp: consumeFlash_def split: prod.splits sum.splits
        dest!: reads read_view error_page intro: trans)
  show "keeps usageData"
    by (rule keepsI) (auto simp: usageData_def Let_def split: prod.splits sum.splits dest!: read_usage)
qed

lemma keeps_public_pages: "keeps static_route" "keeps healthz_web" "keeps loginPage" "keeps setupPage" "keeps downloadByToken"
proof -
  show "keeps static_route" by (rule keepsI) (auto simp: static_route_def intro: same)
  show "keeps healthz_web" by (rule keepsI) (auto simp: healthz_web_def Let_def split: prod.splits sum.splits dest!: reads)
  show "keeps loginPage"
    by (rule keepsI) (auto simp: loginPage_def Let_def split: prod.splits if_splits dest!: reads read_view intro: trans)
  show "keeps setupPage"
    by (rule keepsI) (auto simp: setupPage_def Let_def split: prod.splits if_splits dest!: reads read_view intro: trans)
  show "keeps downloadByToken" unfolding downloadByToken_def
    by (rule keepsI) (auto split: option.splits prod.splits sum.splits if_splits download_error.splits intro: same)
qed

lemma keeps_login: "keeps loginAction"
  by (rule keepsI) (auto simp: loginAction_def Let_def split: prod.splits sum.splits bool.splits if_splits dest!: reads intro: same)

lemma keeps_logout: "keeps logout"
  by (rule keepsI) (auto simp: logout_def intro: same)

lemmas keeps_reading = keeps_index keeps_tenant_pages keeps_list_pages keeps_public_pages keeps_login keeps_logout

text \<open>A redirect and the multiplexer's own answers leave the store alone.\<close>

lemma keeps_mux:
  assumes "\<And>m p h. (m, p, h) \<in> set routes \<Longrightarrow> keeps h"
  shows "keeps admin_handler"
proof (rule keepsI)
  fix env sv r w s w' s' assume run: "admin_handler env sv r w s = (w', s')"
  show "P (wb_db s) (wb_db s')"
  proof (cases rule: admin_handler_cases [OF run])
    case 1 then show ?thesis using same by simp
  next
    case (2 pm ps h vs)
    then show ?thesis using keepsD [OF assms [OF 2(1)] 2(2)] by simp
  qed
qed

end

section \<open>Changing handlers\<close>

locale store_change = store_relation +
  assumes tenant_changes: "P d (snd (CreateTenant rnd now n ds l d))" "P d (snd (UpdateTenant now t n ds a l d))"
    "P d (snd (DeleteTenant t d))" "P d (snd (RegenerateKey rnd now t d))"
    and cert_changes: "P d (snd (AddCertificate now t ser fp cn nb na d))" "P d (snd (RevokeCertificate now fp d))"
    and user_changes: "P d (snd (CreateUser now u pw d))" "P d (snd (DeleteUser t d))"
begin

lemma changes:
  "CreateTenant rnd now n ds l d = (a1, d') \<Longrightarrow> P d d'" "UpdateTenant now t n ds a l d = (a2, d') \<Longrightarrow> P d d'"
  "DeleteTenant t d = (a3, d') \<Longrightarrow> P d d'" "RegenerateKey rnd now t d = (a4, d') \<Longrightarrow> P d d'"
  "AddCertificate now t ser fp cn nb na d = (a5, d') \<Longrightarrow> P d d'" "RevokeCertificate now fp d = (a6, d') \<Longrightarrow> P d d'"
  "CreateUser now u pw d = (a7, d') \<Longrightarrow> P d d'" "DeleteUser t d = (a8, d') \<Longrightarrow> P d d'"
  using tenant_changes cert_changes user_changes by (metis snd_conv)+

lemma keeps_tenant_forms: "keeps tenantCreate" "keeps tenantUpdate" "keeps tenantDelete" "keeps tenantRegenerate"
proof -
  show "keeps tenantCreate" by (rule keepsI) (auto simp: tenantCreate_def split: prod.splits sum.splits dest!: changes)
  show "keeps tenantUpdate" by (rule keepsI) (auto simp: tenantUpdate_def split: prod.splits sum.splits dest!: changes)
  show "keeps tenantDelete" by (rule keepsI) (auto simp: tenantDelete_def split: prod.splits sum.splits dest!: changes)
  show "keeps tenantRegenerate"
    by (rule keepsI) (auto simp: tenantRegenerate_def split: prod.splits sum.splits option.splits dest!: changes reads intro: trans)
qed

lemma keeps_user_forms: "keeps userCreate" "keeps userDelete" "keeps setupAction"
proof -
  show "keeps userCreate" by (rule keepsI) (auto simp: userCreate_def split: prod.splits sum.splits dest!: changes intro: same)
  show "keeps userDelete" by (rule keepsI) (auto simp: userDelete_def split: prod.splits sum.splits dest!: changes)
  show "keeps setupAction"
    by (rule keepsI) (auto simp: setupAction_def Let_def split: prod.splits sum.splits if_splits dest!: changes reads intro: trans)
qed

lemma keeps_issueDownload: "issueDownload c k t env sv r w s = (w', s') \<Longrightarrow> P (wb_db s) (wb_db s')"
  by (auto simp: issueDownload_def Let_def split: prod.splits intro: same)

lemma own_cert: "lookup_own_cert r d = (a, d') \<Longrightarrow> P d d'"
  by (auto simp: lookup_own_cert_def split: prod.splits sum.splits option.splits dest!: reads)

lemma keeps_cert_forms: "keeps certIssue" "keeps certIssueKeygen" "keeps certRenew" "keeps certRevoke"
proof -
  show "keeps certIssue"
    by (rule keepsI) (auto simp: certIssue_def store_cert_def Let_def split: prod.splits sum.splits if_splits option.splits
        dest!: changes intro: same)
  show "keeps certIssueKeygen"
    by (rule keepsI) (auto simp: certIssueKeygen_def store_cert_def Let_def split: prod.splits sum.splits option.splits
        dest!: changes keeps_issueDownload intro: same trans)
  show "keeps certRenew"
    by (rule keepsI) (auto simp: certRenew_def store_cert_def Let_def split: prod.splits sum.splits option.splits if_splits
        dest!: changes keeps_issueDownload own_cert intro: same trans)
  show "keeps certRevoke"
    by (rule keepsI) (auto simp: certRevoke_def split: prod.splits sum.splits option.splits
        dest!: changes own_cert intro: same trans)
qed

lemmas keeps_changing = keeps_tenant_forms keeps_user_forms keeps_cert_forms

lemma keeps_routes: "(m, p, h) \<in> set routes \<Longrightarrow> keeps h"
  using keeps_reading keeps_changing
  by (auto simp: routes_def public_routes_def page_routes_def form_routes_def intro!: keeps_requireAuth keeps_requireCSRF)

lemma keeps_admin: "keeps admin_handler"
  by (rule keeps_mux) (rule keeps_routes)

end

end
