(* ===== verification/Web_Security.thy ===== *)
theory Web_Security
  imports Web_Frame
begin

text \<open>
  The properties of the admin interface, over whole requests to \<open>admin_handler\<close>: who can change the
  store, what the guards answer, what signing in and setting up yield, the limits a form stores, and
  the headers of every response.
\<close>

section \<open>The store relations\<close>

text \<open>The tables without the script of faults.\<close>

definition tables :: "db \<Rightarrow> db" where
  "tables d = d\<lparr>db_faults := []\<rparr>"

lemma tables_pop [simp]: "tables (pop_fault d) = tables d"
  by (simp add: tables_def pop_fault_def)

lemma tables_users [simp]: "t_users (tables d) = t_users d"
  by (simp add: tables_def)

interpretation same_tables: store_relation "\<lambda>d d'. tables d' = tables d"
  by unfold_locales simp_all

interpretation web_store: store_change "\<lambda>d d'. db_inv d \<longrightarrow> db_inv d'"
  by unfold_locales (simp_all add: op_inv)

interpretation web_ids: store_change ids_grow
  by unfold_locales
     (auto simp: op_grow UpdateTenant_def DeleteTenant_def RevokeCertificate_def CreateUser_def DeleteUser_def
       intro: ids_grow_trans sql_exec_grow grow)

lemma read_routes: "(m, p, h) \<in> set page_routes \<Longrightarrow> same_tables.keeps h"
  using same_tables.keeps_reading by (auto simp: page_routes_def intro!: same_tables.keeps_requireAuth)

lemma public_routes_read: "(m, p, h) \<in> set public_routes \<Longrightarrow> same_tables.keeps h \<or> (m, p, h) = (''POST'', [Lit ''setup''], setupAction)"
  using same_tables.keeps_reading by (auto simp: public_routes_def)

text \<open>A form behind both guards runs only for a live session with a matching anti-forgery token.\<close>

lemma guarded_change:
  assumes "requireAuth (requireCSRF h) env sv r w s = (w', s')" and "tables (wb_db s') \<noteq> tables (wb_db s)"
  shows "csrf_ok sv r \<and> (\<exists>token uid u. Cookie r ''session'' = Some token \<and>
     fst (Verify (ws_session sv) (we_now env) token (wb_db s)) = Some (uid, u))"
proof -
  have v: "Verify m now token (wb_db s) = (a, d) \<Longrightarrow> tables d = tables (wb_db s)" for m now token a d
    by (rule same_tables.read_session)
  show ?thesis using assms
    by (auto simp: requireAuth_def requireCSRF_def split: option.splits prod.splits if_splits dest: v)
qed

lemma Verify_live: "fst (Verify m now token d) = Some (uid, u) \<Longrightarrow> uid \<in> ur_id ` set (t_users d)"
  by (auto simp: Verify_accept split: option.splits if_splits prod.splits sum.splits)
     (metis GetUserByID_found fst_conv)

lemma csrf_ok_iff:
  "csrf_ok sv r \<longleftrightarrow> (\<exists>secret. Cookie r ''csrf'' = Some secret \<and> secret \<noteq> '''' \<and> FormValue r ''_csrf'' = CSRF_Token (signing_key sv) secret)"
proof -
  have "hex_encode (hmac_sha256 k m) \<noteq> []" for k m
    using length_hex_encode [of "hmac_sha256 k m"] by (metis length_hmac_sha256 list.size(3) mult_eq_0_iff zero_neq_numeral)
  then have "CSRF_Token k secret \<noteq> []" "[] \<noteq> CSRF_Token k secret" for k secret unfolding CSRF_Token_def by (metis, metis)
  then show ?thesis by (auto simp: csrf_ok_def currentCSRFSecret_def CSRF_Verify_def Let_def split: option.splits)
qed

text \<open>
  Whose session it is does not matter to that check: the token that one administrator got for a cookie is
  accepted with the session of any other, and after signing in again.
\<close>

lemma csrf_ignores_session:
  assumes "Cookie r' ''csrf'' = Cookie r ''csrf''" "FormValue r' ''_csrf'' = FormValue r ''_csrf''"
  shows "csrf_ok sv r' = csrf_ok sv r"
  using assms by (simp add: csrf_ok_iff)

lemma setup_change:
  assumes "setupAction env sv r w s = (w', s')" and "tables (wb_db s') \<noteq> tables (wb_db s)"
  shows "count_or_zero (fst (UserCount (wb_db s))) \<le> 0"
proof -
  have "tables d = tables (wb_db s)" if "UserCount (wb_db s) = (n, d)" for n d using that by (rule same_tables.reads)
  then show ?thesis using assms by (auto simp: setupAction_def Let_def split: prod.splits if_splits)
qed

lemma form_route_shape:
  "(m, p, h) \<in> set form_routes \<Longrightarrow> m = ''POST'' \<and> (\<exists>k. h = requireAuth (requireCSRF k))"
  by (auto simp: form_routes_def)

lemma page_route_shape: "(m, p, h) \<in> set page_routes \<Longrightarrow> \<exists>k. h = requireAuth k"
  by (auto simp: page_routes_def)

lemma guards_path [simp]: "csrf_ok sv (r\<lparr>rq_PathValue := vs\<rparr>) = csrf_ok sv r" "Cookie (r\<lparr>rq_PathValue := vs\<rparr>) k = Cookie r k"
  "FormValue (r\<lparr>rq_PathValue := vs\<rparr>) k = FormValue r k"
  by (simp_all add: csrf_ok_def currentCSRFSecret_def Cookie_def FormValue_def)

lemma match_single: "match_segs [Lit l] xs = Some vs \<Longrightarrow> xs = [l]"
  by (cases xs; cases "tl xs") (auto split: if_splits)

lemma clean_rooted: "cleanPath p = p \<Longrightarrow> p = CHR ''/'' # tl p"
proof -
  have "cleanPath p = CHR ''/'' # tl (cleanPath p)" by (simp add: cleanPath_def Let_def)
  then show "cleanPath p = p \<Longrightarrow> p = CHR ''/'' # tl p" by simp
qed

lemma path_of_segs:
  assumes "cleanPath p = p" "path_segs p = [l]"
  shows "p = CHR ''/'' # l"
  using join_split_n [of "CHR ''/''" "length p" "tl p"] clean_rooted [OF assms(1)] assms(2) by (simp add: path_segs_def)

section \<open>What the handlers write\<close>

text \<open>
  A property of the response that every way of writing keeps, but perhaps not the session cookie: every
  handler keeps it then, apart from those that sign somebody in or out.
\<close>

lemmas page_splits = prod.splits sum.splits option.splits if_splits bool.splits download_error.splits
declare render_def [page_defs] consumeFlash_def [page_defs] writeJSONError_def [page_defs] establishSession_def [page_defs]
  no_ca_def [page_defs] store_cert_def [page_defs] Let_def [page_defs]

locale response_service =
  fixes P :: "response \<Rightarrow> bool"
  assumes writes [simp]: "P w \<Longrightarrow> P (Write x w)" "P w \<Longrightarrow> P (WriteHeader c w)" "P w \<Longrightarrow> P (http_Error m c w)" "P w \<Longrightarrow> P (Redirect r url c w)"
    and headers [simp]: "k \<notin> fst ` set security_headers \<Longrightarrow> P w \<Longrightarrow> P (set_header k v w)"
    and flashes [simp]: "P w \<Longrightarrow> P (Flash_Set key secure f w)" "P w \<Longrightarrow> P (Flash_Clear secure w)"
begin

lemma content_headers [simp]:
  "P w \<Longrightarrow> P (set_header ''Content-Type'' v w)" "P w \<Longrightarrow> P (set_header ''Content-Disposition'' v w)"
  by (rule headers, simp add: security_headers_def, assumption)+

definition dresses :: "web_env \<Rightarrow> handler \<Rightarrow> bool" where
  "dresses env h \<longleftrightarrow> (\<forall>sv r w s. P w \<longrightarrow> P (fst (h env sv r w s)))"

lemma dressesI: "(\<And>sv r w s w' s'. P w \<Longrightarrow> h env sv r w s = (w', s') \<Longrightarrow> P w') \<Longrightarrow> dresses env h"
  unfolding dresses_def by (metis prod.collapse)

lemma dressesD: "dresses env h \<Longrightarrow> P w \<Longrightarrow> h env sv r w s = (w', s') \<Longrightarrow> P w'"
  unfolding dresses_def by (metis fst_conv)

lemma dresses_guards: "dresses env h \<Longrightarrow> dresses env (requireAuth h)" "dresses env h \<Longrightarrow> dresses env (requireCSRF h)"
  by (rule dressesI; auto simp: requireAuth_def requireCSRF_def split: option.splits prod.splits if_splits dest: dressesD)+

lemma dresses_error_page: "renderError c t dt env sv r w s = (w', s') \<Longrightarrow> P w \<Longrightarrow> P w'"
  by (auto simp: renderError_def Let_def split: prod.splits)

lemma dresses_with_tenant: "(\<And>t. dresses env (k t)) \<Longrightarrow> dresses env (with_tenant k)"
  by (rule dressesI) (auto simp: with_tenant_def split: prod.splits sum.splits option.splits dest: dressesD dresses_error_page)

lemma dresses_pages:
  "dresses env index" "dresses env tenantNew" "dresses env tenantEdit" "dresses env usagePage" "dresses env usageData"
  "dresses env certsPage" "dresses env certIssueForm" "dresses env usersPage"
proof -
  show "dresses env index" by (rule dressesI) (auto simp: index_def page_defs split: page_splits dest: dresses_error_page)
  show "dresses env tenantNew" by (rule dressesI) (auto simp: tenantNew_def page_defs split: page_splits)
  show "dresses env tenantEdit" unfolding tenantEdit_def
    by (intro dresses_with_tenant dressesI) (auto simp: page_defs split: page_splits)
  show "dresses env usagePage" unfolding usagePage_def
    by (intro dresses_with_tenant dressesI) (auto simp: page_defs split: page_splits)
  show "dresses env usageData" by (rule dressesI) (auto simp: usageData_def page_defs split: page_splits)
  show "dresses env certsPage" unfolding certsPage_def
    by (intro dresses_with_tenant dressesI) (auto simp: page_defs split: page_splits dest: dresses_error_page)
  show "dresses env certIssueForm" unfolding certIssueForm_def
    by (intro dresses_with_tenant dressesI) (auto simp: page_defs split: page_splits)
  show "dresses env usersPage" by (rule dressesI) (auto simp: usersPage_def page_defs split: page_splits dest: dresses_error_page)
qed

lemma dresses_public:
  "dresses env healthz_web" "dresses env loginPage" "dresses env setupPage" "dresses env downloadByToken"
  by (rule dressesI; auto simp: healthz_web_def loginPage_def setupPage_def downloadByToken_def page_defs split: page_splits)+

lemma dresses_forms:
  "dresses env tenantCreate" "dresses env tenantUpdate" "dresses env tenantDelete" "dresses env tenantRegenerate"
  "dresses env userCreate" "dresses env userDelete"
  by (rule dressesI; auto simp: tenantCreate_def tenantUpdate_def tenantDelete_def tenantRegenerate_def userCreate_def userDelete_def
      page_defs split: page_splits)+

lemma dresses_download: "issueDownload c k t env sv r w s = (w', s') \<Longrightarrow> P w \<Longrightarrow> P w'"
  by (auto simp: issueDownload_def Let_def split: prod.splits)

lemma dresses_certs: "dresses env certIssue" "dresses env certIssueKeygen" "dresses env certRenew" "dresses env certRevoke"
  by (rule dressesI; auto simp: certIssue_def certIssueKeygen_def certRenew_def certRevoke_def page_defs split: page_splits
      dest: dresses_download)+

lemma dresses_routes:
  assumes "(m, p, h) \<in> set routes" "dresses env static_route"
    and "m = ''POST'' \<Longrightarrow> p \<notin> {[Lit ''login''], [Lit ''setup''], [Lit ''logout'']}"
  shows "dresses env h"
  using assms dresses_pages dresses_public dresses_forms dresses_certs
  by (auto simp: routes_def public_routes_def page_routes_def form_routes_def intro!: dresses_guards)

lemma dresses_all_routes:
  assumes "(m, p, h) \<in> set routes" "dresses env static_route" "dresses env loginAction" "dresses env setupAction" "dresses env logout"
  shows "dresses env h"
  using assms dresses_pages dresses_public dresses_forms dresses_certs
  by (auto simp: routes_def public_routes_def page_routes_def form_routes_def intro!: dresses_guards)

end

section \<open>Properties\<close>

text \<open>C6. Every change of the store through the admin interface is a POST. Either it is a form route's path,
  the request has a live session of an existing user, and the form carries the anti-forgery token
  that belongs to the request's csrf cookie (the HMAC of the cookie's secret under the server's key;
  nothing ties that cookie to the session); or it is the setup form while the user count reads as
  zero.\<close>

theorem admin_mutations_protected:
  assumes "admin_handler env sv r w s = (w', s')" and "tables (wb_db s') \<noteq> tables (wb_db s)"
  shows "rq_Method r = ''POST'' \<and> cleanPath (rq_Path r) = rq_Path r \<and>
    ((\<exists>ps k vs. (''POST'', ps, requireAuth (requireCSRF k)) \<in> set form_routes \<and> match_segs ps (path_segs (rq_Path r)) = Some vs \<and>
       (\<exists>secret. Cookie r ''csrf'' = Some secret \<and> secret \<noteq> '''' \<and> FormValue r ''_csrf'' = CSRF_Token (signing_key sv) secret) \<and>
       (\<exists>token uid u. Cookie r ''session'' = Some token \<and>
          fst (Verify (ws_session sv) (we_now env) token (wb_db s)) = Some (uid, u) \<and> uid \<in> ur_id ` set (t_users (wb_db s))))
     \<or> rq_Path r = ''/setup'' \<and> count_or_zero (fst (UserCount (wb_db s))) \<le> 0)"
proof (cases rule: admin_handler_cases [OF assms(1)])
  case 1 then show ?thesis using assms(2) by simp
next
  case (2 pm ps h vs)
  have changed: "\<not> same_tables.keeps h" using same_tables.keepsD [of h, OF _ 2(2)] assms(2) by blast
  from 2(1) consider "(pm, ps, h) \<in> set public_routes" | "(pm, ps, h) \<in> set page_routes" | "(pm, ps, h) \<in> set form_routes"
    by (auto simp: routes_def)
  then show ?thesis
  proof cases
    case 1
    with public_routes_read changed have e: "pm = ''POST''" "ps = [Lit ''setup'']" "h = setupAction" by auto
    then have m: "rq_Method r = ''POST''" using 2(3) by (simp add: method_matches_def)
    have "rq_Path r = ''/setup''" using path_of_segs [OF 2(5) match_single] 2(4) m e by simp
    with setup_change [OF 2(2) [unfolded e] assms(2)] m 2(5) show ?thesis by simp
  next
    case 2
    with read_routes changed show ?thesis by blast
  next
    case 3
    with form_route_shape obtain k where k: "pm = ''POST''" "h = requireAuth (requireCSRF k)" by blast
    from guarded_change [OF 2(2) [unfolded k(2)] assms(2), unfolded guards_path] obtain token uid u where
      g: "csrf_ok sv r" "Cookie r ''session'' = Some token"
        "fst (Verify (ws_session sv) (we_now env) token (wb_db s)) = Some (uid, u)" by (elim conjE exE)
    have m: "rq_Method r = ''POST''" using 2(3) k(1) by (simp add: method_matches_def)
    then have "cleanPath (rq_Path r) = rq_Path r" using 2(5) by simp
    with m g(2,3) Verify_live [OF g(3)] csrf_ok_iff [THEN iffD1, OF g(1)] 2(4) 3 [unfolded k] show ?thesis by blast
  qed
qed

text \<open>A request with a session that the demonstration store accepts, and the form it fills in.\<close>

definition demo_env :: web_env where
  "demo_env = \<lparr>we_template = (\<lambda>name v. name), we_error_page = (\<lambda>c t dt v. t), we_static = (\<lambda>r w. Write ''asset'' w),
     we_location = (\<lambda>r p. p), we_CompareHashAndPassword = (\<lambda>h p. h = p), we_GenerateFromPassword = Inr, we_pki = demo_pki,
     we_post = (\<lambda>url body. Inl Timeout), we_GenerateKey = Inr [1], we_CreateCSR = (\<lambda>cn key. Inr key),
     we_bundle = (\<lambda>files. Inr ''zip''), we_installSh = '''', we_encode_usage = (\<lambda>u. ''''),
     we_now = 0, we_rnd_key = replicate 24 0, we_rnd_secret = [1], we_rnd_token = [2], we_rnd_jti = [3], we_addr = 7\<rparr>"

definition demo_server :: web_server where
  "demo_server = \<lparr>ws_session = NewSessionManager [1, 2, 3] True, ws_caClient = None, ws_downloads = False, ws_caExternalHost = '''',
     ws_caSyslogPort = 6514, ws_certLifetime = hour, ws_trustProxyHeaders = False\<rparr>"

definition demo_state :: "db \<Rightarrow> web_state" where
  "demo_state d = \<lparr>wb_db = d, wb_login = NewLoginLimiter, wb_dm = NewDownloadManager (\<lambda>_. []), wb_quotaFailures = None\<rparr>"

definition demo_request :: "string \<Rightarrow> string \<Rightarrow> (string \<times> string) list \<Rightarrow> request" where
  "demo_request m p form = \<lparr>rq_Method = m, rq_Path = p, rq_Header = [], rq_Form = form, rq_Query = [], rq_PathValue = [],
     rq_Cookies = [(''session'', Sign (ws_session demo_server) 0 1 ''root''), (''csrf'', ''s'')], rq_RemoteAddr = ''10.0.0.1:5000''\<rparr>"

lemma demo_csrf: "csrf_ok demo_server (demo_request m p ((''_csrf'', CSRF_Token [1, 2, 3] ''s'') # form))"
  by (simp add: csrf_ok_iff demo_request_def Cookie_def FormValue_def demo_server_def NewSessionManager_def)

theorem admin_mutations_protected_witness:
  "let r = demo_request ''POST'' ''/users/1/delete'' [(''_csrf'', CSRF_Token [1, 2, 3] ''s'')];
       s' = snd (admin_handler demo_env demo_server r new_response (demo_state demo_users))
   in t_users (wb_db s') = [] \<and> (\<exists>ps k. (''POST'', ps, requireAuth (requireCSRF k)) \<in> set form_routes \<and> match_segs ps (path_segs (rq_Path r)) \<noteq> None)"
proof -
  let ?r = "demo_request ''POST'' ''/users/1/delete'' [(''_csrf'', CSRF_Token [1, 2, 3] ''s'')]"
  let ?s = "demo_state demo_users"
  obtain w' s' where run: "admin_handler demo_env demo_server ?r new_response ?s = (w', s')" by fastforce
  have route: "(''POST'', [Lit ''users'', Wild ''id'', Lit ''delete''], requireAuth (requireCSRF userDelete)) \<in> set routes"
    by (simp add: routes_def form_routes_def)
  have "admin_handler demo_env demo_server ?r new_response ?s =
     requireAuth (requireCSRF userDelete) demo_env demo_server (?r\<lparr>rq_PathValue := [(''id'', ''1'')]\<rparr>) (secured_response new_response) ?s"
  proof (rule route_dispatch [OF route])
    have segs: "path_segs ''/users/1/delete'' = [''users'', ''1'', ''delete'']" by code_simp
    show "match_segs [Lit ''users'', Wild ''id'', Lit ''delete''] (path_segs (rq_Path ?r)) = Some [(''id'', ''1'')]"
      by (simp add: demo_request_def segs)
    have "cleanPath ''/users/1/delete'' = ''/users/1/delete''" by code_simp
    then show "cleanPath (rq_Path ?r) = rq_Path ?r" by (simp add: demo_request_def)
  qed (simp add: demo_request_def method_matches_def)
  moreover have "parse_int ''1'' = Some 1" by code_simp
  then have "path_id (?r\<lparr>rq_PathValue := [(''id'', ''1'')]\<rparr>) ''id'' = 1" by (simp add: path_id_def PathValue_def parse_int_value_def)
  moreover have "Cookie ?r ''session'' = Some (Sign (ws_session demo_server) 0 1 ''root'')" by (simp add: Cookie_def demo_request_def)
  ultimately have d: "t_users (wb_db s') = []" using run demo_csrf
    by (simp add: requireAuth_def requireCSRF_def demo_session demo_env_def demo_state_def)
       (auto simp: userDelete_def DeleteUser_def sql_exec_healthy healthy_def demo_users_def empty_db_def delete_user_def)
  have "tables (wb_db s') \<noteq> tables (wb_db ?s)"
  proof
    assume "tables (wb_db s') = tables (wb_db ?s)"
    then have "t_users (wb_db s') = t_users (wb_db ?s)" by (metis tables_users)
    with d show False by (simp add: demo_state_def demo_users_def)
  qed
  moreover have "rq_Path ?r \<noteq> ''/setup''" by (simp add: demo_request_def)
  ultimately have "\<exists>ps k. (''POST'', ps, requireAuth (requireCSRF k)) \<in> set form_routes \<and> match_segs ps (path_segs (rq_Path ?r)) \<noteq> None"
    using admin_mutations_protected [OF run] by blast
  with d run show ?thesis by simp
qed

lemma secured_response_simps [simp]:
  "rs_status (secured_response w) = rs_status w"
  by (simp add: secured_response_def security_headers_def)

definition signed_in :: "web_env \<Rightarrow> web_server \<Rightarrow> request \<Rightarrow> web_state \<Rightarrow> bool" where
  "signed_in env sv r s \<longleftrightarrow>
     (case Cookie r ''session'' of None \<Rightarrow> False | Some token \<Rightarrow> fst (Verify (ws_session sv) (we_now env) token (wb_db s)) \<noteq> None)"

definition untouched :: "web_state \<Rightarrow> web_state \<Rightarrow> bool" where
  "untouched s s' \<longleftrightarrow> tables (wb_db s') = tables (wb_db s) \<and> wb_dm s' = wb_dm s \<and> wb_login s' = wb_login s"

text \<open>C10. The guards answer for their routes: without a live session a page or a form redirects to the login
  page, and a form with a session but without the matching anti-forgery token is refused with 403;
  in both cases nothing is stored, issued or counted.\<close>

theorem protected_routes_guarded:
  assumes route: "(pm, ps, h) \<in> set (page_routes @ form_routes)" "method_matches pm (rq_Method r)"
      "match_segs ps (path_segs (rq_Path r)) = Some vs" "cleanPath (rq_Path r) = rq_Path r"
    and fresh: "rs_status w = 0" and run: "admin_handler env sv r w s = (w', s')"
  shows "(\<not> signed_in env sv r s \<longrightarrow> rs_status w' = 303 \<and> header_get (rs_header w') ''Location'' = ''/login'' \<and>
      rs_cookies w' = rs_cookies w \<and> untouched s s') \<and>
    (signed_in env sv r s \<and> (pm, ps, h) \<in> set form_routes \<and> \<not> csrf_ok sv r \<longrightarrow> rs_status w' = 403 \<and> untouched s s')"
proof -
  have mem: "(pm, ps, h) \<in> set routes" using route(1) by (auto simp: routes_def)
  have run': "h env sv (r\<lparr>rq_PathValue := vs\<rparr>) (secured_response w) s = (w', s')"
    using route_dispatch [OF mem route(2-4)] run by simp
  have v: "Verify (ws_session sv) (we_now env) token (wb_db s) = (a, d) \<Longrightarrow> tables d = tables (wb_db s)" for token a d
    by (rule same_tables.read_session)
  obtain k where k: "h = requireAuth k" using route(1) page_route_shape [of pm ps h] form_route_shape [of pm ps h] by auto
  have "rs_status w' = 303 \<and> header_get (rs_header w') ''Location'' = ''/login'' \<and> rs_cookies w' = rs_cookies w \<and> untouched s s'"
    if "\<not> signed_in env sv r s"
    using that run' fresh v unfolding k requireAuth_def signed_in_def untouched_def
    by (auto split: option.splits prod.splits)
  moreover have "rs_status w' = 403 \<and> untouched s s'"
    if "signed_in env sv r s" and form: "(pm, ps, h) \<in> set form_routes" and "\<not> csrf_ok sv r"
  proof -
    obtain k' where k': "h = requireAuth (requireCSRF k')" using form_route_shape [OF form] by blast
    show ?thesis
      using that(1,3) run' fresh v unfolding k' requireAuth_def requireCSRF_def signed_in_def untouched_def
      by (auto split: option.splits prod.splits)
  qed
  ultimately show ?thesis by blast
qed

theorem protected_routes_guarded_witness:
  "rs_status (fst (admin_handler demo_env demo_server (demo_request ''POST'' ''/logout'' []) new_response (demo_state demo_users))) = 403"
proof -
  let ?r = "demo_request ''POST'' ''/logout'' []" and ?s = "demo_state demo_users"
  obtain w' s' where run: "admin_handler demo_env demo_server ?r new_response ?s = (w', s')" by fastforce
  have form: "(''POST'', [Lit ''logout''], requireAuth (requireCSRF logout)) \<in> set form_routes" by (simp add: form_routes_def)
  then have route: "(''POST'', [Lit ''logout''], requireAuth (requireCSRF logout)) \<in> set (page_routes @ form_routes)"
    by (simp only: set_append Un_iff simp_thms)
  have "path_segs ''/logout'' = [''logout'']" "cleanPath ''/logout'' = ''/logout''" by code_simp+
  then have p: "match_segs [Lit ''logout''] (path_segs (rq_Path ?r)) = Some []" "cleanPath (rq_Path ?r) = rq_Path ?r"
    by (simp_all add: demo_request_def)
  have m: "method_matches ''POST'' (rq_Method ?r)" by (simp add: method_matches_def demo_request_def)
  have "signed_in demo_env demo_server ?r ?s"
    by (simp add: signed_in_def demo_session demo_env_def demo_state_def demo_request_def Cookie_def)
  moreover have "\<not> csrf_ok demo_server ?r" by (simp add: csrf_ok_def FormValue_def demo_request_def Let_def)
  ultimately show ?thesis
    using protected_routes_guarded [OF route m p new_response_status run] form run by simp
qed

lemma login_cookie:
  assumes inv: "db_inv (wb_db s)" and run: "loginAction env sv r w s = (w', s')"
    and c: "c \<in> set (rs_cookies w')" "c \<notin> set (rs_cookies w)" "ck_Name c = ''session''"
    and name: "valid_utf8 (FormValue r ''username'')" and clock: "in_int64 (unix (we_now env + sessionTTL))"
  shows "\<exists>row \<in> set (t_users (wb_db s)). ur_username row = FormValue r ''username'' \<and>
    we_CompareHashAndPassword env (ur_password row) (FormValue r ''password'') \<and>
    fst (login_allowed (we_now env) (''ip:'' @ clientIP sv r) (''user:'' @ FormValue r ''username'') (wb_login s)) \<and>
    (\<forall>now' d'. ur_id row \<in> ur_id ` set (t_users d') \<and> \<not> next_fault d' \<and> unix now' \<le> unix (we_now env + sessionTTL) \<longrightarrow>
       fst (Verify (ws_session sv) now' (ck_Value c) d') = Some (ur_id row, ur_username row))"
proof -
  from run c(1,2) obtain uid hash d l where u: "GetUserByUsername (FormValue r ''username'') (wb_db s) = (Inr (uid, hash), d)"
    and ok: "uid \<noteq> 0" "we_CompareHashAndPassword env hash (FormValue r ''password'')"
    and l: "login_allowed (we_now env) (''ip:'' @ clientIP sv r) (''user:'' @ FormValue r ''username'') (wb_login s) = (True, l)"
    and w': "w' = Redirect r ''/'' 303 (establishSession env sv uid (FormValue r ''username'') w)"
    by (auto simp: loginAction_def Let_def writeJSONError_def split: prod.splits bool.splits sum.splits if_splits)
  from u ok(1) obtain row where row: "find (\<lambda>r'. ur_username r' = FormValue r ''username'') (t_users (wb_db s)) = Some row"
    "uid = ur_id row" "hash = ur_password row"
    by (auto simp: GetUserByUsername_def sql_query_Inr split: option.splits)
  then have mem: "row \<in> set (t_users (wb_db s))" "ur_username row = FormValue r ''username''"
    by (auto simp: find_Some_iff)
  have "in_int64 (ur_id row)" using inv mem(1) by (force simp: db_inv_def ids_ok_def in_int64_def)
  then have claims: "claims_ok \<lparr>sc_ID = ur_id row, sc_U = ur_username row, sc_Exp = unix (we_now env + sessionTTL)\<rparr>"
    using name clock mem(2) by (simp add: claims_ok_def)
  have "ck_Value c = Sign (ws_session sv) (we_now env) (ur_id row) (ur_username row)"
    using c w' row(2) mem(2)
    by (auto simp: establishSession_def SetCSRFCookie_def SetSessionCookie_def csrf_cookie_def session_cookie_def)
  then show ?thesis using mem ok row l Verify_Sign [OF _ _ claims] by (intro bexI [of _ row]) auto
qed

text \<open>Setting up signs the new account in.\<close>

lemma setup_cookie:
  assumes run: "setupAction env sv r w s = (w', s')" and c: "c \<in> set (rs_cookies w')" "c \<notin> set (rs_cookies w)"
  shows "count_or_zero (fst (UserCount (wb_db s))) \<le> 0 \<and>
    FormValue r ''username'' \<notin> ur_username ` set (t_users (wb_db s)) \<and> FormValue r ''username'' \<in> ur_username ` set (t_users (wb_db s'))"
proof -
  obtain n d where n: "UserCount (wb_db s) = (n, d)" "t_users d = t_users (wb_db s)"
    by (cases "UserCount (wb_db s)") (simp add: UserCount_def sql_query_def split: if_splits; metis pop_fault_tables(1))
  from run c obtain hash d1 res d2 where u: "count_or_zero n \<le> 0" "CreateUser (we_now env) (FormValue r ''username'') hash d = (Inr (), d1)"
    "GetUserByUsername (FormValue r ''username'') d1 = (res, d2)" "wb_db s' = d2"
    by (auto simp: setupAction_def n(1) Let_def split: prod.splits sum.splits if_splits)
  have "FormValue r ''username'' \<notin> ur_username ` set (t_users d)" "FormValue r ''username'' \<in> ur_username ` set (t_users d1)"
    using u(2) by (auto simp: CreateUser_def sql_exec_Inr insert_user_def split: if_splits option.splits)
  moreover have "t_users d2 = t_users d1" using u(3) by (auto simp: GetUserByUsername_def sql_query_def split: if_splits option.splits)
  ultimately show ?thesis using u n by simp
qed

lemma clientIP_path [simp]: "clientIP sv (r\<lparr>rq_PathValue := vs\<rparr>) = clientIP sv r"
  by (simp add: clientIP_def Let_def)

lemma sign_routes:
  "(''POST'', [Lit ''login''], h) \<in> set routes \<longleftrightarrow> h = loginAction" "(''POST'', [Lit ''setup''], h) \<in> set routes \<longleftrightarrow> h = setupAction"
  "(''POST'', [Lit ''logout''], h) \<in> set routes \<longleftrightarrow> h = requireAuth (requireCSRF logout)"
  by (simp_all add: routes_def public_routes_def page_routes_def form_routes_def)

text \<open>No other handler sets a session cookie, apart from the empty one of \<open>logout\<close>.\<close>

definition sessions_among :: "cookie set \<Rightarrow> response \<Rightarrow> bool" where
  "sessions_among C w \<longleftrightarrow> (\<forall>c \<in> set (rs_cookies w). ck_Name c = ''session'' \<longrightarrow> c \<in> C)"

interpretation no_session_cookie: response_service "sessions_among C" for C
  by unfold_locales (auto simp: sessions_among_def Flash_Set_def Flash_Clear_def flash_cookie_def)

text \<open>C13. Whoever gets a session cookie from the admin server, whatever the request: it is either a POST to the
  login page that the login limiter admitted, with a password that matches the stored hash of the
  account of that name, and then the cookie proves that account for 24 hours, as long as the account
  exists and the database answers; or it is a POST to the setup page while the user count reads as
  zero, which has just created the account of the form. (User names that are valid UTF-8. The file
  server of the static assets sets no cookies.)\<close>

theorem login_sound:
  assumes inv: "db_inv (wb_db s)" and static: "\<And>r w. rs_cookies (we_static env r w) = rs_cookies w"
    and run: "admin_handler env sv r w s = (w', s')"
    and c: "c \<in> set (rs_cookies w')" "c \<notin> set (rs_cookies w)" "ck_Name c = ''session''" "ck_Value c \<noteq> ''''"
    and name: "valid_utf8 (FormValue r ''username'')" and clock: "in_int64 (unix (we_now env + sessionTTL))"
  shows "rq_Method r = ''POST'' \<and>
    (rq_Path r = ''/login'' \<and> (\<exists>row \<in> set (t_users (wb_db s)). ur_username row = FormValue r ''username'' \<and>
      we_CompareHashAndPassword env (ur_password row) (FormValue r ''password'') \<and>
      fst (login_allowed (we_now env) (''ip:'' @ clientIP sv r) (''user:'' @ FormValue r ''username'') (wb_login s)) \<and>
      (\<forall>now' d'. ur_id row \<in> ur_id ` set (t_users d') \<and> \<not> next_fault d' \<and> unix now' \<le> unix (we_now env + sessionTTL) \<longrightarrow>
         fst (Verify (ws_session sv) now' (ck_Value c) d') = Some (ur_id row, ur_username row))) \<or>
     rq_Path r = ''/setup'' \<and> count_or_zero (fst (UserCount (wb_db s))) \<le> 0 \<and>
      FormValue r ''username'' \<notin> ur_username ` set (t_users (wb_db s)) \<and> FormValue r ''username'' \<in> ur_username ` set (t_users (wb_db s')))"
proof -
  have fresh: "c \<notin> set (rs_cookies (secured_response w))" using c(2) by simp
  let ?C = "set (rs_cookies w)"
  obtain pm ps h vs where d: "(pm, ps, h) \<in> set routes"
    "h env sv (r\<lparr>rq_PathValue := vs\<rparr>) (secured_response w) s = (w', s')" "method_matches pm (rq_Method r)"
    "match_segs ps (path_segs (rq_Path r)) = Some vs" "rq_Method r \<noteq> ''CONNECT'' \<Longrightarrow> cleanPath (rq_Path r) = rq_Path r"
  proof (cases rule: admin_handler_cases [OF run])
    case 1 then show thesis using c(1,2) by simp
  next
    case 2 from that [OF this] show thesis .
  qed
  have st: "no_session_cookie.dresses ?C env static_route"
    by (rule no_session_cookie.dressesI) (auto simp: sessions_among_def static_route_def static)
  have "\<not> no_session_cookie.dresses ?C env h"
  proof
    assume "no_session_cookie.dresses ?C env h"
    moreover have "sessions_among ?C (secured_response w)" by (simp add: sessions_among_def)
    ultimately have "sessions_among ?C w'" using d(2) by (rule no_session_cookie.dressesD)
    then show False using c by (simp add: sessions_among_def)
  qed
  then have "pm = ''POST'' \<and> ps \<in> {[Lit ''login''], [Lit ''setup''], [Lit ''logout'']}"
    using no_session_cookie.dresses_routes [OF d(1) st] by blast
  then have pm: "pm = ''POST''" and ps: "ps = [Lit ''login''] \<or> ps = [Lit ''setup''] \<or> ps = [Lit ''logout'']" by simp_all
  then have m: "rq_Method r = ''POST''" using d(3) by (simp add: method_matches_def)
  then have path: "rq_Path r = CHR ''/'' # l" if "ps = [Lit l]" for l
    using path_of_segs [OF d(5) match_single] d(4) that by simp
  from ps consider "h = loginAction" "rq_Path r = ''/login''" | "h = setupAction" "rq_Path r = ''/setup''" | "h = requireAuth (requireCSRF logout)"
    using sign_routes [of h] d(1) path unfolding pm by blast
  then show ?thesis
  proof cases
    case 1
    from login_cookie [OF inv d(2) [unfolded 1(1)] c(1) fresh c(3), unfolded guards_path] name clock
    show ?thesis using 1(2) m by (simp only: clientIP_path) blast
  next
    case 2
    from setup_cookie [OF d(2) [unfolded 2(1)] c(1) fresh, unfolded guards_path] show ?thesis using 2(2) m by blast
  next
    case 3
    then show ?thesis using d(2) c fresh
      by (auto simp: requireAuth_def requireCSRF_def logout_def Flash_Clear_def ClearCSRFCookie_def ClearSessionCookie_def
          session_cookie_def csrf_cookie_def flash_cookie_def split: option.splits prod.splits if_splits)
  qed
qed

theorem login_sound_witness:
  "\<exists>c \<in> set (rs_cookies (fst (admin_handler demo_env demo_server (demo_request ''POST'' ''/login''
      [(''username'', ''root''), (''password'', ''h'')]) new_response (demo_state demo_users)))).
     fst (Verify (ws_session demo_server) (23 * hour) (ck_Value c) demo_users) = Some (1, ''root'')"
proof -
  let ?r = "demo_request ''POST'' ''/login'' [(''username'', ''root''), (''password'', ''h'')]" and ?s = "demo_state demo_users"
  obtain w' s' where run: "admin_handler demo_env demo_server ?r new_response ?s = (w', s')" by fastforce
  have inv: "db_inv (wb_db ?s)"
    by (simp add: demo_state_def demo_users_def db_inv_def empty_db_def table_ok_defs)
  let ?r' = "?r\<lparr>rq_PathValue := []\<rparr>"
  have route: "(''POST'', [Lit ''login''], loginAction) \<in> set routes" by (simp add: sign_routes)
  have p: "rq_Path ?r = ''/login''" "rq_Method ?r = ''POST''" by (simp_all add: demo_request_def)
  have "match_segs [Lit ''login''] (path_segs ''/login'') = Some []" "cleanPath ''/login'' = ''/login''" by code_simp+
  then have "match_segs [Lit ''login''] (path_segs (rq_Path ?r)) = Some []" "cleanPath (rq_Path ?r) = rq_Path ?r" unfolding p by simp_all
  from route_dispatch [OF route _ this] have step: "loginAction demo_env demo_server ?r' (secured_response new_response) ?s = (w', s')"
    using run by (simp add: p method_matches_def)
  have f: "FormValue ?r' ''username'' = ''root''" "FormValue ?r' ''password'' = ''h''" by (simp_all add: FormValue_def demo_request_def)
  have u: "GetUserByUsername ''root'' demo_users = (Inr (1, ''h''), demo_users)"
    by (simp add: GetUserByUsername_def sql_query_healthy healthy_def demo_users_def empty_db_def)
  have "\<exists>l. login_allowed 0 a b NewLoginLimiter = (True, l)" for a b
    by (simp add: login_allowed_def Allow_def NewLoginLimiter_def Let_def split: option.splits)
  then obtain l where l: "login_allowed 0 (''ip:'' @ clientIP demo_server ?r') (''user:'' @ ''root'') NewLoginLimiter = (True, l)"
    by blast
  have e: "we_now demo_env = 0" "we_CompareHashAndPassword demo_env ''h'' ''h''" "wb_db ?s = demo_users" "wb_login ?s = NewLoginLimiter"
    by (simp_all add: demo_env_def demo_state_def)
  have w': "w' = Redirect ?r' ''/'' 303 (establishSession demo_env demo_server 1 ''root'' (secured_response new_response))"
    using step unfolding loginAction_def Let_def f e l by (simp add: u e)
  define c where "c = session_cookie (ws_session demo_server) (Sign (ws_session demo_server) 0 1 ''root'') (sessionTTL div second)"
  have "Sign (ws_session demo_server) 0 1 ''root'' \<noteq> ''''" by (simp add: Sign_def sign_payload_def)
  then have c: "c \<in> set (rs_cookies w')" "c \<notin> set (rs_cookies new_response)" "ck_Name c = ''session''" "ck_Value c \<noteq> ''''"
    by (simp_all add: w' establishSession_def SetCSRFCookie_def SetSessionCookie_def e c_def new_response_def) (simp_all add: session_cookie_def)
  have "valid_utf8 ''root''" by code_simp
  then have n: "valid_utf8 (FormValue ?r ''username'')" using f(1) by simp
  have t: "in_int64 (unix (we_now demo_env + sessionTTL))" by (simp add: demo_env_def in_int64_def unix_def sessionTTL_def)
  have st: "rs_cookies (we_static demo_env r w) = rs_cookies w" for r w by (simp add: demo_env_def)
  have "rq_Path ?r \<noteq> ''/setup''" by (simp add: demo_request_def)
  with login_sound [OF inv st run c n t] obtain row where row: "row \<in> set (t_users (wb_db ?s))" and ok: "\<forall>now' d'. ur_id row \<in> ur_id ` set (t_users d') \<and>
      \<not> next_fault d' \<and> unix now' \<le> unix (we_now demo_env + sessionTTL) \<longrightarrow>
      fst (Verify (ws_session demo_server) now' (ck_Value c) d') = Some (ur_id row, ur_username row)" by blast
  have "\<not> next_fault demo_users" "unix (23 * hour) \<le> unix (we_now demo_env + sessionTTL)"
    by (simp_all add: demo_users_def next_fault_def empty_db_def demo_env_def unix_def sessionTTL_def)
  with ok row have "fst (Verify (ws_session demo_server) (23 * hour) (ck_Value c) demo_users) = Some (ur_id row, ur_username row)"
    by (simp add: demo_state_def)
  moreover have "(ur_id row, ur_username row) = (1, ''root'')" using row by (simp add: demo_state_def demo_users_def)
  ultimately show ?thesis using c(1) run by auto
qed
lemma UserCount_zero: "count_or_zero (fst (UserCount d)) \<le> 0 \<longleftrightarrow> next_fault d \<or> t_users d = []"
  by (auto simp: UserCount_def sql_query_def count_or_zero_def)

lemma snd_UserCount [simp]: "snd (UserCount d) = pop_fault d"
  by (simp add: UserCount_def)

lemma CreateUser_users:
  assumes "CreateUser now u p d = (res, d')"
  shows "t_users d' \<noteq> t_users d \<longleftrightarrow> res = Inr ()"
    "res = Inr () \<longleftrightarrow> \<not> next_fault d \<and> u \<notin> ur_username ` set (t_users d) \<and> seq_users d < 2 ^ 63 - 1"
  using assms by (auto simp: CreateUser_def sql_exec_def insert_user_def next_id_def split: if_splits option.splits)

text \<open>C31. The setup form with an acceptable name and password creates an account exactly when the count
  of users is zero or cannot be read, and the insert goes through. So one failed count is enough for
  anybody to become an administrator of a system that is already set up.\<close>

theorem setup_creates_account_iff:
  assumes run: "setupAction env sv r w s = (w', s')"
    and form: "new_account env (FormValue r ''username'') (FormValue r ''password'') = Inr hash"
  shows "t_users (wb_db s') \<noteq> t_users (wb_db s) \<longleftrightarrow>
    (next_fault (wb_db s) \<or> t_users (wb_db s) = []) \<and> \<not> next_fault (pop_fault (wb_db s)) \<and>
    FormValue r ''username'' \<notin> ur_username ` set (t_users (wb_db s)) \<and> seq_users (wb_db s) < 2 ^ 63 - 1"
proof (cases "count_or_zero (fst (UserCount (wb_db s))) \<le> 0")
  case False
  then have "s' = s\<lparr>wb_db := pop_fault (wb_db s)\<rparr>"
    using run by (auto simp: setupAction_def case_prod_unfold Let_def)
  then show ?thesis using False UserCount_zero [of "wb_db s"] by simp
next
  case True
  let ?d = "pop_fault (wb_db s)"
  obtain res d1 where c: "CreateUser (we_now env) (FormValue r ''username'') hash ?d = (res, d1)" by fastforce
  have "t_users (wb_db s') = t_users d1"
    using run True form c
    by (auto simp: setupAction_def case_prod_unfold Let_def GetUserByUsername_def split: sum.splits)
  then show ?thesis using CreateUser_users [OF c] True UserCount_zero [of "wb_db s"] by simp
qed

theorem setup_creates_account_iff_witness:
  "let s' = snd (setupAction demo_env demo_server (demo_request ''POST'' ''/setup'' [(''username'', ''eve''), (''password'', ''0123456789ab'')])
       new_response (demo_state (demo_users\<lparr>db_faults := [True]\<rparr>)))
   in t_users (wb_db s') \<noteq> t_users demo_users"
proof -
  let ?r = "demo_request ''POST'' ''/setup'' [(''username'', ''eve''), (''password'', ''0123456789ab'')]"
  let ?s = "demo_state (demo_users\<lparr>db_faults := [True]\<rparr>)"
  obtain w' s' where run: "setupAction demo_env demo_server ?r new_response ?s = (w', s')" by fastforce
  have form: "new_account demo_env (FormValue ?r ''username'') (FormValue ?r ''password'') = Inr ''0123456789ab''"
    by (simp add: new_account_def FormValue_def demo_request_def demo_env_def)
  from setup_creates_account_iff [OF run form] run show ?thesis
    by (simp add: demo_state_def demo_users_def empty_db_def next_fault_def pop_fault_def FormValue_def demo_request_def)
qed

text \<open>The daily quota of a form is given in megabytes and stored in bytes: exact below \<open>2 ^ 43\<close> megabytes,
  but the product wraps above, and an amount whose wrapped product is not positive switches the quota
  off altogether.\<close>

lemma quota_field_wraps:
  assumes "positive_field r ''daily_byte_quota'' = Some v"
  shows "(v < 2 ^ 43 \<longrightarrow> lim_DailyByteQuota (parseRateLimits r) = Some (v * 2 ^ 20) \<and> 0 < v * 2 ^ 20) \<and>
    (2 ^ 43 \<le> v mod 2 ^ 44 \<longrightarrow> \<not> positive (lim_DailyByteQuota (parseRateLimits r)))"
proof -
  have pos: "0 < v" using assms by (auto simp: positive_field_def Let_def split: if_splits option.splits)
  have q: "lim_DailyByteQuota (parseRateLimits r) = Some (wrap64 (v * 2 ^ 20))" using assms by (simp add: parseRateLimits_def)
  have "in_int64 (v * 2 ^ 20)" if "v < 2 ^ 43" using that pos by (simp add: in_int64_def)
  moreover have "wrap64 (v * 2 ^ 20) < 0" if "2 ^ 43 \<le> v mod 2 ^ 44"
  proof -
    have "(v * 2 ^ 20) mod (2 ^ 44 * 2 ^ 20) = (v mod 2 ^ 44) * 2 ^ 20" by (rule mod_mult_mult2)
    then have m: "(v * 2 ^ 20) mod 2 ^ 64 = (v mod 2 ^ 44) * 2 ^ 20" by simp
    have r: "v mod 2 ^ 44 < 2 ^ 44" by simp
    have "(v * 2 ^ 20 + 2 ^ 63) mod 2 ^ 64 = ((v mod 2 ^ 44) * 2 ^ 20 + 2 ^ 63) mod 2 ^ 64" by (metis m mod_add_left_eq)
    also have "\<dots> = ((v mod 2 ^ 44) * 2 ^ 20 + 2 ^ 63 - 2 ^ 64) mod 2 ^ 64" by (rule minus_mod_self2 [symmetric])
    also have "\<dots> = (v mod 2 ^ 44) * 2 ^ 20 + 2 ^ 63 - 2 ^ 64" using that r by (intro mod_pos_pos_trivial) simp_all
    finally show ?thesis using r by (simp add: wrap64_def)
  qed
  ultimately show ?thesis using pos q by (auto simp: positive_def)
qed

section \<open>Security headers\<close>

definition secured :: "response \<Rightarrow> bool" where
  "secured w \<longleftrightarrow> (\<forall>(k, v) \<in> set security_headers. header_get (rs_header w) k = v)"

lemma secured_cong: "(\<And>k. k \<in> fst ` set security_headers \<Longrightarrow> header_get (rs_header w') k = header_get (rs_header w) k) \<Longrightarrow>
    secured w \<Longrightarrow> secured w'"
  by (force simp: secured_def)

lemma secured_ops [simp]:
  "secured w \<Longrightarrow> secured (Write x w)" "secured w \<Longrightarrow> secured (WriteHeader c w)" "secured w \<Longrightarrow> secured (SetCookie ck w)"
  by (erule secured_cong [rotated]; simp add: Write_def WriteHeader_def SetCookie_def)+

lemma secured_set_header [simp]: "k \<notin> fst ` set security_headers \<Longrightarrow> secured w \<Longrightarrow> secured (set_header k v w)"
  by (erule secured_cong [rotated]) (auto simp: set_header_def)

lemma secured_keys [simp]:
  "''Content-Type'' \<notin> fst ` set security_headers" "''Location'' \<notin> fst ` set security_headers" "''Allow'' \<notin> fst ` set security_headers"
  "''Content-Disposition'' \<notin> fst ` set security_headers"
  by (simp_all add: security_headers_def)

lemma secured_Error [simp]: "secured w \<Longrightarrow> secured (http_Error m c w)"
  by (auto simp: secured_def security_headers_def http_Error_def Write_def WriteHeader_def set_header_def)

lemma secured_Redirect [simp]: "secured w \<Longrightarrow> secured (Redirect r url c w)"
  by (simp add: Redirect_def Let_def)

lemma secured_secured_response: "secured (secured_response w)"
  by (simp add: secured_def secured_response_def security_headers_def set_header_def)

lemma secured_cookies [simp]:
  "secured w \<Longrightarrow> secured (Flash_Set k b f w)" "secured w \<Longrightarrow> secured (Flash_Clear b w)"
  "secured w \<Longrightarrow> secured (SetSessionCookie m t w)" "secured w \<Longrightarrow> secured (ClearSessionCookie m w)"
  "secured w \<Longrightarrow> secured (SetCSRFCookie x b w)" "secured w \<Longrightarrow> secured (ClearCSRFCookie b w)"
  by (simp_all add: Flash_Set_def Flash_Clear_def SetSessionCookie_def ClearSessionCookie_def SetCSRFCookie_def ClearCSRFCookie_def)

interpretation secured_responses: response_service secured
  by unfold_locales simp_all

lemma secured_signing: "secured_responses.dresses env loginAction" "secured_responses.dresses env setupAction" "secured_responses.dresses env logout"
  by (rule secured_responses.dressesI;
      auto simp: loginAction_def setupAction_def logout_def page_defs split: page_splits)+

text \<open>Every response of the admin server carries the four security headers with their fixed values, whatever
  the request, the errors included. The file server of the static assets is assumed to leave those
  headers alone.\<close>

lemma security_headers_everywhere:
  assumes static: "\<And>r w k. k \<in> fst ` set security_headers \<Longrightarrow>
      header_get (rs_header (we_static env r w)) k = header_get (rs_header w) k"
    and run: "admin_handler env sv r w s = (w', s')"
  shows "header_get (rs_header w') ''X-Frame-Options'' = ''DENY'' \<and> header_get (rs_header w') ''X-Content-Type-Options'' = ''nosniff'' \<and>
    (\<forall>(k, v) \<in> set security_headers. header_get (rs_header w') k = v)"
proof -
  have st: "secured_responses.dresses env static_route"
    by (rule secured_responses.dressesI) (auto simp: static_route_def intro: secured_cong [OF static])
  have all: "secured_responses.dresses env h" if "(m, p, h) \<in> set routes" for m p h
    using secured_responses.dresses_all_routes [OF that st secured_signing] .
  have found: "secured w1" if "mux routes m p = Dispatch h vs" "h env sv r1 (secured_response w) s = (w1, s1)" for m p h vs r1 w1 s1
    using mux_Dispatch(1) [OF that(1)] secured_responses.dressesD [of env h, OF all secured_secured_response that(2)] by blast
  have "secured w'"
    using run secured_secured_response [of w]
    unfolding admin_handler_def securityHeaders_def loggingMiddleware_def admin_mux_def Let_def secured_response_def [symmetric]
    by (auto split: mux_answer.splits if_splits prod.splits dest: found)
  then show ?thesis by (auto simp: secured_def security_headers_def)
qed

end
