(* ===== verification/Proxy_Main.thy ===== *)
theory Proxy_Main
  imports App_Config Migrate Ingest_Handler Syslog_Server Pki_Renewal Web_Security
begin

text \<open>
  \<open>cmd/proxy/main.go\<close>: the startup sequence from the environment to the listeners. Files, the URL parser
  and the certificate stack are arguments. The listeners themselves are the theories above; what
  \<open>run\<close> decides is which of them start, with which settings, and what has already started when it
  fails.
\<close>

section \<open>The startup sequence\<close>

record run_env =
  re_getenv :: getenv
  re_stat :: "string \<Rightarrow> unit result"
  re_frac :: "int \<Rightarrow> int \<Rightarrow> int \<Rightarrow> int"
  re_db :: sqlite                                           \<comment> \<open>the database file\<close>
  re_ParseURL :: "string \<Rightarrow> (string \<times> string) result"
  re_ReadFile :: "string \<Rightarrow> string result"
  re_pki :: pki_ops
  re_LoadX509KeyPair :: "string \<Rightarrow> string \<Rightarrow> unit result"
  re_AppendCertsFromPEM :: "string \<Rightarrow> bool"
  re_mem :: "nat \<Rightarrow> u8 list"
  re_now :: time

definition readProvisionerKey :: "run_env \<Rightarrow> app_config \<Rightarrow> string result" where
  "readProvisionerKey env cfg =
     (if CAProvisionerKey cfg \<noteq> '''' then Inr (CAProvisionerKey cfg) else re_ReadFile env (CAProvisionerKeyFile cfg))"

text \<open>The certificate authority's client and the lifetime of its certificates.\<close>

definition ca_startup :: "run_env \<Rightarrow> app_config \<Rightarrow> (Client option \<times> time) result" where
  "ca_startup env cfg =
     (if \<not> CAEnabled cfg then Inr (None, 2160 * hour)
      else case readProvisionerKey env cfg of
        Inl e \<Rightarrow> Inl e
      | Inr provKey \<Rightarrow>
          (case re_ReadFile env (CARootCertFile cfg) of
             Inl e \<Rightarrow> Inl e
           | Inr rootCert \<Rightarrow>
               (case ParseDuration (re_frac env) (CACertLifetime cfg) of
                  None \<Rightarrow> Inl (Msg ''time: invalid duration'')
                | Some certLifetime \<Rightarrow>
                    (case NewClient (re_pki env) (CAEndpoint cfg) (CAProvisionerName cfg) provKey rootCert certLifetime of
                       Inl e \<Rightarrow> Inl e
                     | Inr c \<Rightarrow> Inr (Some c, certLifetime)))))"

definition web_startup :: "run_env \<Rightarrow> app_config \<Rightarrow> Client option \<Rightarrow> time \<Rightarrow> db \<Rightarrow> web_server \<times> web_state" where
  "web_startup env cfg caClient certLifetime d =
     New_web \<lparr>wc_Addr = AdminListenAddr cfg, wc_SigningKey = SessionSigningKey cfg, wc_CookieSecure = AdminCookieSecure cfg,
       wc_TrustProxyHeaders = TrustProxyHeaders cfg, wc_CAClient = caClient,
       wc_DownloadManager = (if CAEnabled cfg then Some (NewDownloadManager (re_mem env)) else None),
       wc_CAExternalHost = CAExternalHostname cfg, wc_CASyslogPort = CASyslogRelayPort cfg, wc_CertLifetime = certLifetime\<rparr>
       d (Some 0) (NewDownloadManager (re_mem env))"

datatype task = CleanupLoop int64 | ProxyListener string | AdminListener string | SyslogListener string | RenewalListener string

record app =
  app_config :: app_config
  app_store :: store
  app_handler :: Handler
  app_web :: "web_server \<times> web_state"
  app_syslog :: "(Config \<times> CollectorPool \<times> tls_settings) option"
  app_renewal :: "string option"

text \<open>
  \<open>run\<close> waits for a signal, returns an error (with the goroutines that are running by then; the deferred
  calls close the store), or never gets past the migration.
\<close>

datatype run_outcome = Serving app "task list" | Failed go_error "task list" | Hung

definition syslog_startup :: "run_env \<Rightarrow> app_config \<Rightarrow> (Config \<times> CollectorPool \<times> tls_settings) option result" where
  "syslog_startup env cfg =
     (if \<not> SyslogEnabled cfg then Inr None
      else map_sum id Some
        (NewServer (re_LoadX509KeyPair env (SyslogServerCertFile cfg) (SyslogServerKeyFile cfg)) (re_ReadFile env (SyslogClientCAFile cfg))
           (re_AppendCertsFromPEM env)
           \<lparr>cfg_MaxFrameBytes = SyslogMaxFrameBytes cfg, cfg_MaxConnections = SyslogMaxConnections cfg,
            cfg_MaxConnsPerTenant = SyslogMaxConnsPerTenant cfg, cfg_CollectorAddr = SyslogCollectorAddr cfg\<rparr>))"

definition renewal_startup :: "run_env \<Rightarrow> app_config \<Rightarrow> string option result" where
  "renewal_startup env cfg =
     (if \<not> CAEnabled cfg then Inr None
      else map_sum id Some
        (NewRenewalServer (re_LoadX509KeyPair env (SyslogServerCertFile cfg) (SyslogServerKeyFile cfg)) (re_ReadFile env (SyslogClientCAFile cfg))
           (re_AppendCertsFromPEM env) (CARenewalListenAddr cfg)))"

definition base_tasks :: "app_config \<Rightarrow> task list" where
  "base_tasks cfg = [CleanupLoop (UsageRetentionDays cfg), ProxyListener ('':'' @ ProxyPort cfg), AdminListener (AdminListenAddr cfg)]"

definition syslog_tasks :: "app_config \<Rightarrow> task list" where
  "syslog_tasks cfg = (if SyslogEnabled cfg then [SyslogListener (SyslogListenAddr cfg)] else [])"

text \<open>From the point where the dependencies are built: retention once (its error is only logged), then the listeners.\<close>

definition run_listeners :: "run_env \<Rightarrow> app_config \<Rightarrow> store \<Rightarrow> Handler \<Rightarrow> Client option \<times> time \<Rightarrow> run_outcome" where
  "run_listeners env cfg st h ca =
     (let d1 = snd (CleanupOldCounters (re_now env) (UsageRetentionDays cfg) (st_db st)); st1 = st\<lparr>st_db := d1\<rparr>;
          web = web_startup env cfg (fst ca) (snd ca) d1
      in case syslog_startup env cfg of
           Inl e \<Rightarrow> Failed e (base_tasks cfg)
         | Inr sys \<Rightarrow>
             (case renewal_startup env cfg of
                Inl e \<Rightarrow> Failed e (base_tasks cfg @ syslog_tasks cfg)
              | Inr ren \<Rightarrow>
                  Serving \<lparr>app_config = cfg, app_store = st1, app_handler = h, app_web = web, app_syslog = sys, app_renewal = ren\<rparr>
                    (base_tasks cfg @ syslog_tasks cfg @ (case ren of None \<Rightarrow> [] | Some a \<Rightarrow> [RenewalListener a]))))"

definition run :: "run_env \<Rightarrow> run_outcome" where
  "run env =
     (case Load (re_frac env) (re_getenv env) (re_stat env) of
        Inl e \<Rightarrow> Failed e []
      | Inr cfg \<Rightarrow>
          (case Open (re_now env) (re_db env) of
             None \<Rightarrow> Hung
           | Some (Inl e, _) \<Rightarrow> Failed e []
           | Some (Inr st, _) \<Rightarrow>
               (case NewHandler (re_ParseURL env (SigNozEndpoint cfg)) (SigNozIngestKey cfg) (MaxBodyBytes cfg) of
                  Inl e \<Rightarrow> Failed e []
                | Inr h \<Rightarrow>
                    (case ca_startup env cfg of
                       Inl e \<Rightarrow> Failed e []
                     | Inr ca \<Rightarrow> run_listeners env cfg st h ca))))"

section \<open>Properties\<close>

lemma Open_ok: "Open now q = Some (Inr st, q') \<Longrightarrow> db_inv (sq_data q) \<Longrightarrow> store_inv st"
  using safe_migrate [of q now]
  by (auto simp: Open_def Let_def safe_outcome_def safe_def sq_pop_def store_inv_def writer_bounded_def NewUsageWriter_def
      split: migration_outcome.splits sum.splits)

lemma ca_startup_ok: "ca_startup env cfg = Inr (c, t) \<Longrightarrow> c \<noteq> None \<longleftrightarrow> CAEnabled cfg"
  by (auto simp: ca_startup_def split: if_splits sum.splits option.splits)

lemma syslog_startup_ok:
  "syslog_startup env cfg = Inr x \<Longrightarrow> (x \<noteq> None \<longleftrightarrow> SyslogEnabled cfg) \<and>
     (\<forall>c p t. x = Some (c, p, t) \<longrightarrow> tls_ClientAuth t = RequireAndVerifyClientCert \<and> 0 < cfg_MaxConnections c \<and> 0 < cfg_MaxConnsPerTenant c)"
  by (auto simp: syslog_startup_def NewServer_def server_config_def split: if_splits sum.splits)

lemma renewal_startup_ok: "renewal_startup env cfg = Inr x \<Longrightarrow> x \<noteq> None \<longleftrightarrow> CAEnabled cfg"
  by (auto simp: renewal_startup_def NewRenewalServer_def split: if_splits sum.splits)

lemma web_startup_ok:
  "signing_key (fst (web_startup env cfg c t d)) = SessionSigningKey cfg" "ws_caClient (fst (web_startup env cfg c t d)) = c"
  by (simp_all add: web_startup_def New_web_def NewSessionManager_def)

text \<open>The ways the startup can end: before any server is started, or in one of the three ends of \<open>run_listeners\<close>.\<close>

lemma run_cases:
  obtains (hung) "run env = Hung" "Open (re_now env) (re_db env) = None"
  | (early) e where "run env = Failed e []"
  | (listeners) cfg st q h c t where "Load (re_frac env) (re_getenv env) (re_stat env) = Inr cfg"
      "Open (re_now env) (re_db env) = Some (Inr st, q)" "ca_startup env cfg = Inr (c, t)" "run env = run_listeners env cfg st h (c, t)"
 proof -
  let ?load = "Load (re_frac env) (re_getenv env) (re_stat env)" and ?opened = "Open (re_now env) (re_db env)"
  consider e where "?load = Inl e" | cfg where "?load = Inr cfg" "?opened = None" | cfg e q where "?load = Inr cfg" "?opened = Some (Inl e, q)"
    | cfg st q where "?load = Inr cfg" "?opened = Some (Inr st, q)"
    by (cases ?load; cases ?opened) (auto, metis sum.exhaust)
  then show thesis
  proof cases
    case (4 cfg st q)
    then show thesis
      using early listeners [OF 4]
      by (cases "NewHandler (re_ParseURL env (SigNozEndpoint cfg)) (SigNozIngestKey cfg) (MaxBodyBytes cfg)"; cases "ca_startup env cfg")
         (auto simp: run_def)
  qed (use hung early in \<open>simp_all add: run_def\<close>)
qed

definition after_cleanup :: "run_env \<Rightarrow> app_config \<Rightarrow> store \<Rightarrow> store" where
  "after_cleanup env cfg st = st\<lparr>st_db := snd (CleanupOldCounters (re_now env) (UsageRetentionDays cfg) (st_db st))\<rparr>"

lemma after_cleanup_inv: "store_inv st \<Longrightarrow> store_inv (after_cleanup env cfg st)"
  by (simp add: after_cleanup_def store_inv_def writer_bounded_def op_inv)

lemma run_listeners_cases:
  obtains (syslog) e where "run_listeners env cfg st h ca = Failed e (base_tasks cfg)" "SyslogEnabled cfg"
  | (renewal) e where "run_listeners env cfg st h ca = Failed e (base_tasks cfg @ syslog_tasks cfg)" "CAEnabled cfg"
  | (serving) sys ren ts where "syslog_startup env cfg = Inr sys" "renewal_startup env cfg = Inr ren"
      "run_listeners env cfg st h ca = Serving \<lparr>app_config = cfg, app_store = after_cleanup env cfg st, app_handler = h,
         app_web = web_startup env cfg (fst ca) (snd ca) (st_db (after_cleanup env cfg st)), app_syslog = sys, app_renewal = ren\<rparr> ts"
proof (cases "syslog_startup env cfg")
  case (Inl e)
  then show thesis using syslog [of e] by (auto simp: run_listeners_def Let_def syslog_startup_def split: if_splits)
next
  case sys: (Inr sys)
  show thesis
  proof (cases "renewal_startup env cfg")
    case (Inl e)
    then show thesis using renewal [of e] sys by (auto simp: run_listeners_def Let_def renewal_startup_def split: if_splits)
  next
    case (Inr ren)
    then show thesis using serving [OF sys Inr] sys by (simp add: run_listeners_def Let_def after_cleanup_def)
  qed
qed

lemma run_Serving:
  assumes "run env = Serving a ts"
  obtains cfg st q h c t sys ren where "Load (re_frac env) (re_getenv env) (re_stat env) = Inr cfg"
    "Open (re_now env) (re_db env) = Some (Inr st, q)" "ca_startup env cfg = Inr (c, t)"
    "syslog_startup env cfg = Inr sys" "renewal_startup env cfg = Inr ren"
    "a = \<lparr>app_config = cfg, app_store = after_cleanup env cfg st, app_handler = h,
       app_web = web_startup env cfg c t (st_db (after_cleanup env cfg st)), app_syslog = sys, app_renewal = ren\<rparr>"
proof (cases rule: run_cases [of env])
  case (listeners cfg st q h c t)
  then show thesis using assms that [OF listeners(1-3)]
    by (cases rule: run_listeners_cases [of env cfg st h "(c, t)"]) auto
qed (use assms in simp_all)

text \<open>C34. The startup is complete or fails: a running system has a validated configuration, a store that keeps
  the schema invariant, exactly the optional servers that are enabled, and syslog clients must present
  a verified certificate. A failure before the servers are started starts nothing; only a syslog or
  renewal server that cannot be built fails after the proxy and the admin server are already serving.\<close>

theorem startup_sound:
  assumes "db_inv (sq_data (re_db env))"
  shows "case run env of
      Hung \<Rightarrow> Open (re_now env) (re_db env) = None
    | Failed e ts \<Rightarrow> ts = [] \<or> (\<exists>cfg. Load (re_frac env) (re_getenv env) (re_stat env) = Inr cfg \<and>
        (SyslogEnabled cfg \<or> CAEnabled cfg) \<and> {ProxyListener ('':'' @ ProxyPort cfg), AdminListener (AdminListenAddr cfg)} \<subseteq> set ts)
    | Serving a ts \<Rightarrow> config_ok (re_stat env) (app_config a) \<and> store_inv (app_store a) \<and>
        32 \<le> length (signing_key (fst (app_web a))) \<and>
        (ws_caClient (fst (app_web a)) \<noteq> None \<longleftrightarrow> CAEnabled (app_config a)) \<and>
        (app_syslog a \<noteq> None \<longleftrightarrow> SyslogEnabled (app_config a)) \<and> (app_renewal a \<noteq> None \<longleftrightarrow> CAEnabled (app_config a)) \<and>
        (\<forall>c p t. app_syslog a = Some (c, p, t) \<longrightarrow> tls_ClientAuth t = RequireAndVerifyClientCert)"
proof (cases "run env")
  case (Serving a ts)
  then obtain cfg st q h c t sys ren where load: "Load (re_frac env) (re_getenv env) (re_stat env) = Inr cfg"
    and st: "Open (re_now env) (re_db env) = Some (Inr st, q)" and ca: "ca_startup env cfg = Inr (c, t)"
    and sys: "syslog_startup env cfg = Inr sys" and ren: "renewal_startup env cfg = Inr ren"
    and a: "a = \<lparr>app_config = cfg, app_store = after_cleanup env cfg st, app_handler = h,
       app_web = web_startup env cfg c t (st_db (after_cleanup env cfg st)), app_syslog = sys, app_renewal = ren\<rparr>"
    by (rule run_Serving)
  have cfg: "config_ok (re_stat env) cfg" using loaded_config [OF load] by blast
  then have "32 \<le> length (SessionSigningKey cfg)" by (simp add: config_ok_def)
  then show ?thesis
    using Serving cfg after_cleanup_inv [OF Open_ok [OF st assms]] ca_startup_ok [OF ca] syslog_startup_ok [OF sys] renewal_startup_ok [OF ren]
    by (simp add: a web_startup_ok)
next
  case (Failed e ts)
  then show ?thesis
  proof (cases rule: run_cases [of env])
    case (listeners cfg st q h c t)
    then show ?thesis using Failed
      by (cases rule: run_listeners_cases [of env cfg st h "(c, t)"]) (auto simp: base_tasks_def)
  qed simp_all
next
  case Hung
  then show ?thesis
  proof (cases rule: run_cases [of env])
    case (listeners cfg st q h c t)
    then show ?thesis using Hung by (cases rule: run_listeners_cases [of env cfg st h "(c, t)"]) simp_all
  qed simp_all
qed
definition demo_run :: run_env where
  "demo_run = \<lparr>re_getenv = demo_getenv, re_stat = (\<lambda>_. Inr ()), re_frac = (\<lambda>_ _ _. 0), re_db = demo_legacy,
     re_ParseURL = (\<lambda>u. Inr (''http'', ''signoz:4318'')), re_ReadFile = (\<lambda>_. Inr ''pem''), re_pki = demo_pki,
     re_LoadX509KeyPair = (\<lambda>_ _. Inr ()), re_AppendCertsFromPEM = (\<lambda>_. True), re_mem = (\<lambda>_. []), re_now = 5\<rparr>"

lemma demo_serving: obtains a ts where "run demo_run = Serving a ts" "SyslogEnabled (app_config a)" "app_renewal a = None"
proof -
  from demo_config obtain cfg where load: "Load (\<lambda>_ _ _. 0) demo_getenv (\<lambda>_. Inr ()) = Inr cfg"
    and cfg: "SyslogEnabled cfg" "\<not> CAEnabled cfg" by blast
  from migrate_legacy [OF demo_legacy_ok, of 5] obtain q' where "migrate 5 demo_legacy = Fin (Inr ()) q'" by blast
  then obtain st q2 where opened: "Open 5 demo_legacy = Some (Inr st, q2)" by (simp add: Open_def Let_def)
  show thesis
    using load opened cfg that
    by (simp add: run_def demo_run_def NewHandler_def ca_startup_def run_listeners_def syslog_startup_def NewServer_def
        renewal_startup_def Let_def)
qed

theorem startup_sound_witness:
  "\<exists>a ts. run demo_run = Serving a ts \<and> store_inv (app_store a) \<and> app_syslog a \<noteq> None \<and> app_renewal a = None"
proof -
  obtain a ts where run: "run demo_run = Serving a ts" "SyslogEnabled (app_config a)" "app_renewal a = None" by (rule demo_serving)
  have "db_inv (sq_data (re_db demo_run))" using demo_legacy_ok(1) by (simp add: demo_run_def)
  from startup_sound [OF this] run show ?thesis by auto
qed

end
