(* ===== verification/Syslog_Listener.thy ===== *)
theory Syslog_Listener
  imports Syslog_Server
begin

text \<open>
  The life of the syslog server (\<open>ListenAndServe\<close> in \<open>internal/syslog/server.go\<close>): the accept loop, the
  goroutines of the connections, the goroutine that closes the listener when the context is
  cancelled, and the shutdown, as a step relation. A goroutine does the work of its connection in
  one step; what a connection does meanwhile to the shared pool is the subject of \<^theory_text>\<open>Syslog_Pool\<close>.
\<close>

section \<open>A stream of frames\<close>

text \<open>What every frame does to the state, a whole stream of frames does.\<close>

lemma serve_frames_relation:
  assumes "serve_frames ops m t clk k stream s = (err, dn, s')"
    and refl: "\<And>s. Q s s" and trans: "\<And>a b c. Q a b \<Longrightarrow> Q b c \<Longrightarrow> Q a c"
    and frame: "\<And>t1 t2 t3 frame s st s'. handle_frame ops t t1 t2 t3 frame s = (st, s') \<Longrightarrow> Q s s'"
  shows "Q s s'"
  using assms(1)
proof (induction "length stream" arbitrary: stream k s err dn s' rule: less_induct)
  case less
  obtain x rest where rd: "read_frame m stream = (x, rest)" by fastforce
  show ?case
  proof (cases x)
    case (Inl e)
    then show ?thesis using less.prems rd refl by (simp add: serve_frames.simps [of ops m t clk k])
  next
    case (Inr frame)
    obtain st s1 where h: "handle_frame ops t (clk k) (clk (k + 1)) (clk (k + 2)) frame s = (st, s1)" by fastforce
    have "length rest < length stream" using read_frame_progress rd Inr by fastforce
    then show ?thesis
      using less.prems rd Inr h frame [OF h] less.hyps [of rest "k + 3" s1] trans
      by (auto simp: serve_frames.simps [of ops m t clk k] split: if_splits prod.splits)
  qed
qed

section \<open>A syslog connection keeps the pool, the queue and the slots in order\<close>

definition forwarding_ok :: "'l syslog_state \<Rightarrow> bool" where
  "forwarding_ok s \<longleftrightarrow> pool_inv (sy_pool s, {}) \<and> length (w_ch (sy_writer s)) \<le> usageWriterBufferSize"

lemma handle_frame_forwarding: "handle_frame ops t t1 t2 t3 frame s = (st, s') \<Longrightarrow> forwarding_ok s \<longrightarrow> forwarding_ok s'"
proof -
  assume run: "handle_frame ops t t1 t2 t3 frame s = (st, s')"
  have fw: "Forward f p = (x, a, b) \<Longrightarrow> pool_inv (p, {}) \<longrightarrow> pool_inv ((a, b), {})" for f p x a b
    using Forward_inv [of p "{}" f] by simp
  have "pool_inv (sy_pool s, {}) \<longrightarrow> pool_inv (sy_pool s', {})"
    using run by (auto simp: handle_frame_def split: prod.splits sum.splits bool.splits dest!: syslog_check_frame fw)
  then show ?thesis
    using handle_frame_effect(2) [OF run] by (auto simp: forwarding_ok_def RecordUsage_def record_sample_def)
qed

lemma connection_forwarding:
  assumes "forwarding_ok s" and "sy_counts s = Map.empty"
  shows "forwarding_ok (snd (handleConnection ops cfg clk conn s)) \<and> sy_counts (snd (handleConnection ops cfg clk conn s)) = Map.empty"
proof (cases rule: handleConnection_cases [of ops cfg clk conn s])
  case (refused e d)
  then show ?thesis using assms by (simp add: forwarding_ok_def)
next
  case (slot leaf rest t d counts)
  let ?s2 = "s\<lparr>sy_db := d, sy_counts := counts\<rparr>"
  have ok: "forwarding_ok ?s2" using assms(1) by (simp add: forwarding_ok_def)
  have r: "release_slot (ID t) counts = Map.empty"
    using slot(3) assms(2) by (auto simp: acquireConnSlot_def release_slot_def slot_count_def wrap64_def split: if_splits)
  have served: "forwarding_ok s3 \<and> sy_counts s3 = counts"
    if "serve_frames ops (cfg_MaxFrameBytes cfg) t clk 2 (tc_stream conn) ?s2 = (err, dn, s3)" for err dn s3
  proof -
    have "(forwarding_ok ?s2 \<longrightarrow> forwarding_ok s3) \<and> sy_counts s3 = sy_counts ?s2"
      using that by (rule serve_frames_relation [where Q = "\<lambda>s s'. (forwarding_ok s \<longrightarrow> forwarding_ok s') \<and> sy_counts s' = sy_counts s"])
        (simp_all add: handle_frame_forwarding handle_frame_effect(3))
    then show ?thesis using ok by simp
  qed
  have keep: "forwarding_ok (s3\<lparr>sy_counts := c\<rparr>) = forwarding_ok s3" for s3 :: "'a syslog_state" and c
    by (simp add: forwarding_ok_def)
  obtain err dn s3 where sf: "serve_frames ops (cfg_MaxFrameBytes cfg) t clk 2 (tc_stream conn) ?s2 = (err, dn, s3)" by (metis prod_cases3)
  show ?thesis
  proof (cases "Healthy (fst (sy_pool s))")
    case True
    then show ?thesis using served [OF sf] r by (simp add: slot(4) Let_def sf keep)
  next
    case False
    then show ?thesis using ok r by (simp add: slot(4) Let_def keep)
  qed
qed

section \<open>The server as a step relation\<close>

text \<open>
  \<open>Joining\<close> is the wait for the connections. \<open>ln_running\<close> are the goroutines inside
  \<open>handleConnection\<close> (the wait group counts them), \<open>ln_leaving\<close> those that have left the wait group
  but not yet given back their place in the semaphore: the deferred calls run in that order.
\<close>

datatype listen_phase = Accepting | Joining | Returned

record 'l listener =
  ln_phase :: listen_phase
  ln_cancelled :: bool
  ln_open :: bool
  ln_sem :: int64
  ln_running :: "tls_conn list"
  ln_leaving :: nat
  ln_state :: "'l syslog_state"

definition listening :: "'l syslog_state \<Rightarrow> 'l listener" where
  "listening y = \<lparr>ln_phase = Accepting, ln_cancelled = False, ln_open = True, ln_sem = 0, ln_running = [], ln_leaving = 0, ln_state = y\<rparr>"

inductive listen_step :: "'l rate_ops \<Rightarrow> Config \<Rightarrow> 'l listener \<Rightarrow> 'l listener \<Rightarrow> bool" for ops cfg where
  cancel: "listen_step ops cfg s (s\<lparr>ln_cancelled := True\<rparr>)"
| close_listener: "listen_step ops cfg s (s\<lparr>ln_open := False\<rparr>)" if "ln_cancelled s"
| accept: "listen_step ops cfg s (s\<lparr>ln_sem := ln_sem s + 1, ln_running := conn # ln_running s\<rparr>)"
    if "ln_phase s = Accepting" and "ln_open s" and "ln_sem s < cfg_MaxConnections cfg"
| reject: "listen_step ops cfg s s" if "ln_phase s = Accepting" and "ln_open s" and "\<not> ln_sem s < cfg_MaxConnections cfg"
| accept_error: "listen_step ops cfg s s" if "ln_phase s = Accepting" and "\<not> ln_cancelled s"
| stop_accepting: "listen_step ops cfg s (s\<lparr>ln_phase := Joining\<rparr>)" if "ln_phase s = Accepting" and "ln_cancelled s"
| finish: "listen_step ops cfg s (s\<lparr>ln_running := remove1 conn (ln_running s), ln_leaving := Suc (ln_leaving s),
      ln_state := snd (handleConnection ops cfg clk conn (ln_state s))\<rparr>)" if "conn \<in> set (ln_running s)"
| leave: "listen_step ops cfg s (s\<lparr>ln_leaving := n, ln_sem := ln_sem s - 1\<rparr>)" if "ln_leaving s = Suc n"
| joined: "listen_step ops cfg s (s\<lparr>ln_phase := Returned, ln_state := (ln_state s)\<lparr>sy_pool := Close_pool (sy_pool (ln_state s))\<rparr>\<rparr>)"
    if "ln_phase s = Joining" and "ln_running s = []"

inductive_cases listen_stepE: "listen_step ops cfg s s'"

abbreviation listen_run :: "'l rate_ops \<Rightarrow> Config \<Rightarrow> 'l listener \<Rightarrow> 'l listener \<Rightarrow> bool" where
  "listen_run ops cfg \<equiv> (listen_step ops cfg)\<^sup>*\<^sup>*"

section \<open>Invariant\<close>

lemma Close_pool_closed: "pool_inv (pn, {}) \<Longrightarrow> nt_open (snd (Close_pool pn)) = {} \<and> pool_inv (Close_pool pn, {})"
proof -
  assume inv: "pool_inv (pn, {})"
  obtain p n where pn: "pn = (p, n)" by fastforce
  have close: "fold conn_Close cs m = m\<lparr>nt_open := nt_open m - set cs\<rparr>" for cs m
    by (induction cs arbitrary: m) (simp_all add: conn_Close_def Diff_insert2 [symmetric] Diff_insert [symmetric])
  have "filter (\<lambda>pc. \<not> pc_dead pc) (cp_conns p) = cp_conns p" "nt_open n = set (map pc_conn (cp_conns p))"
    using inv by (auto simp: pool_inv_def pn pooled_def list_all_iff)
  then show ?thesis using inv by (auto simp: pn Close_pool_def close pool_inv_def pooled_def list_all_iff)
qed

definition listener_inv :: "Config \<Rightarrow> 'l listener \<Rightarrow> bool" where
  "listener_inv cfg s \<longleftrightarrow> ln_sem s = int (length (ln_running s)) + int (ln_leaving s) \<and> ln_sem s \<le> cfg_MaxConnections cfg \<and>
     (ln_phase s = Accepting \<and> ln_open s \<or> ln_cancelled s) \<and> forwarding_ok (ln_state s) \<and>
     sy_counts (ln_state s) = Map.empty \<and> (ln_phase s = Returned \<longrightarrow> ln_running s = [] \<and> nt_open (snd (sy_pool (ln_state s))) = {})"

lemma listen_step_inv: "listen_step ops cfg s s' \<Longrightarrow> listener_inv cfg s \<Longrightarrow> listener_inv cfg s'"
proof (induction rule: listen_step.induct)
  case (finish conn s clk)
  have "length (ln_running s) = Suc (length (remove1 conn (ln_running s)))"
    using finish.hyps by (simp add: length_remove1) (metis Suc_pred length_pos_if_in_set)
  then show ?case using finish connection_forwarding [of "ln_state s" ops cfg clk conn] by (auto simp: listener_inv_def)
next
  case (joined s)
  then show ?case using Close_pool_closed [of "sy_pool (ln_state s)"] by (auto simp: listener_inv_def forwarding_ok_def)
qed (auto simp: listener_inv_def)

interpretation listener: transitions "listen_step ops cfg" "listener_inv cfg" for ops cfg
  by unfold_locales (rule listen_step_inv)

lemma listening_inv:
  "forwarding_ok y \<Longrightarrow> sy_counts y = Map.empty \<Longrightarrow> 0 \<le> cfg_MaxConnections cfg \<Longrightarrow> listener_inv cfg (listening y)"
  by (simp add: listener_inv_def listening_def)

section \<open>The shutdown completes\<close>

text \<open>Once every connection returns, the semaphore drains and the wait ends.\<close>

lemma connections_finish:
  obtains s' where "listen_run ops cfg s s'" "ln_running s' = []" "ln_phase s' = ln_phase s" "ln_cancelled s' = ln_cancelled s"
proof (induction "ln_running s" arbitrary: s thesis)
  case Nil
  then show ?case by (metis rtranclp.rtrancl_refl)
next
  case (Cons conn cs)
  let ?s1 = "s\<lparr>ln_running := remove1 conn (ln_running s), ln_leaving := Suc (ln_leaving s),
    ln_state := snd (handleConnection ops cfg (\<lambda>_. 0) conn (ln_state s))\<rparr>"
  have step: "listen_step ops cfg s ?s1" using Cons.hyps(2) by (metis finish list.set_intros(1))
  have "cs = ln_running ?s1" using Cons.hyps(2) [symmetric] by simp
  from Cons.hyps(1) [OF this] obtain s' where "listen_run ops cfg ?s1 s'" "ln_running s' = []"
    "ln_phase s' = ln_phase ?s1" "ln_cancelled s' = ln_cancelled ?s1" by blast
  with step show ?case by (intro Cons.prems [of s']) auto
qed

lemma semaphore_drains:
  obtains s' where "listen_run ops cfg s s'" "ln_leaving s' = 0" "ln_running s' = ln_running s" "ln_phase s' = ln_phase s"
proof (induction "ln_leaving s" arbitrary: s thesis)
  case 0
  then show ?case by (metis rtranclp.rtrancl_refl)
next
  case (Suc n)
  let ?s1 = "s\<lparr>ln_leaving := n, ln_sem := ln_sem s - 1\<rparr>"
  have step: "listen_step ops cfg s ?s1" by (rule leave) (simp add: Suc.hyps(2) [symmetric])
  have "n = ln_leaving ?s1" by simp
  from Suc.hyps(1) [OF this] obtain s' where "listen_run ops cfg ?s1 s'" "ln_leaving s' = 0"
    "ln_running s' = ln_running ?s1" "ln_phase s' = ln_phase ?s1" by blast
  with step show ?case by (intro Suc.prems [of s']) auto
qed

lemma shutdown_completes:
  obtains s' where "listen_run ops cfg s s'" "ln_phase s' = Returned" "ln_running s' = []" "ln_leaving s' = 0"
proof -
  let ?s1 = "s\<lparr>ln_cancelled := True\<rparr>"
  let ?s2 = "?s1\<lparr>ln_phase := if ln_phase s = Accepting then Joining else ln_phase s\<rparr>"
  have c: "listen_run ops cfg s ?s1" by (rule r_into_rtranclp) (rule cancel)
  have "listen_run ops cfg ?s1 ?s2"
    using stop_accepting [of ?s1 ops cfg] by (cases "ln_phase s = Accepting") auto
  moreover obtain s3 where "listen_run ops cfg ?s2 s3" and s3: "ln_running s3 = []" "ln_phase s3 = ln_phase ?s2"
    by (rule connections_finish)
  moreover obtain s4 where "listen_run ops cfg s3 s4" and s4: "ln_leaving s4 = 0" "ln_running s4 = ln_running s3" "ln_phase s4 = ln_phase s3"
    by (rule semaphore_drains)
  ultimately have run: "listen_run ops cfg s s4" using c by (meson rtranclp_trans)
  show thesis
  proof (cases "ln_phase s4 = Returned")
    case True
    then show thesis using that run s3 s4 by simp
  next
    case False
    then have "ln_phase s4 = Joining" using s3 s4 by (cases "ln_phase s") auto
    then have "listen_step ops cfg s4 (s4\<lparr>ln_phase := Returned, ln_state := (ln_state s4)\<lparr>sy_pool := Close_pool (sy_pool (ln_state s4))\<rparr>\<rparr>)"
      using s3 s4 by (intro joined) auto
    with run have "listen_run ops cfg s (s4\<lparr>ln_phase := Returned, ln_state := (ln_state s4)\<lparr>sy_pool := Close_pool (sy_pool (ln_state s4))\<rparr>\<rparr>)"
      by (rule rtranclp.rtrancl_into_rtrancl)
    then show thesis by (rule that) (use s3 s4 in simp_all)
  qed
qed

text \<open>
  C32. The listener admits at most the configured number of connections. It returns only after its
  context was cancelled and every connection goroutine has ended, and leaves no collector connection
  open. While it waits, a connection that is still running keeps it waiting: nothing closes that
  connection. From every state that can be reached a shutdown can complete.
\<close>

theorem listener_shutdown:
  fixes s :: "'l listener"
  assumes start: "forwarding_ok y" "sy_counts y = Map.empty" and cfg: "cfg = server_config c"
    and run: "listen_run ops cfg (listening y) s"
  shows "ln_sem s = int (length (ln_running s)) + int (ln_leaving s) \<and> ln_sem s \<le> cfg_MaxConnections cfg \<and>
    (ln_phase s = Returned \<longrightarrow> ln_cancelled s \<and> ln_running s = [] \<and> nt_open (snd (sy_pool (ln_state s))) = {}) \<and>
    (\<forall>s'. ln_phase s = Joining \<and> ln_running s \<noteq> [] \<and> listen_step ops cfg s s' \<longrightarrow> ln_phase s' = Joining) \<and>
    (\<exists>s'. listen_run ops cfg s s' \<and> ln_phase s' = Returned \<and> ln_sem s' = 0)"
proof -
  have inv: "listener_inv cfg s"
    using listener.run_keeps [OF run] listening_inv [OF start] by (simp add: cfg server_config_def)
  have wait: "ln_phase s' = Joining" if "ln_phase s = Joining" "ln_running s \<noteq> []" "listen_step ops cfg s s'" for s'
    using that(3,1,2) by (auto elim!: listen_stepE)
  obtain s' where run': "listen_run ops cfg s s'" and s': "ln_phase s' = Returned" "ln_running s' = []" "ln_leaving s' = 0"
    by (rule shutdown_completes)
  have "ln_sem s' = 0" using listener.run_keeps [OF run' inv] s' by (simp add: listener_inv_def)
  then show ?thesis using inv wait run' s' by (auto simp: listener_inv_def)
qed

theorem listener_shutdown_witness:
  "\<exists>cfg s s'. listen_run int_bucket cfg (listening demo_syslog) s \<and> ln_running s = [demo_conn] \<and> ln_phase s = Joining \<and>
    listen_run int_bucket cfg s s' \<and> ln_phase s' = Returned \<and> ln_sem s' = 0"
proof -
  define cfg where "cfg = server_config syslog_cfg"
  define s1 where "s1 = (listening demo_syslog)\<lparr>ln_sem := 1, ln_running := [demo_conn]\<rparr>"
  let ?s2 = "s1\<lparr>ln_cancelled := True\<rparr>" and ?s3 = "s1\<lparr>ln_cancelled := True, ln_phase := Joining\<rparr>"
  have "listen_step int_bucket cfg (listening demo_syslog) s1"
    using accept [of "listening demo_syslog" cfg int_bucket demo_conn]
    by (simp add: s1_def listening_def cfg_def server_config_def syslog_cfg_def)
  moreover have "listen_step int_bucket cfg s1 ?s2" by (rule cancel)
  moreover have "listen_step int_bucket cfg ?s2 ?s3"
    using stop_accepting [of ?s2 int_bucket cfg] by (simp add: s1_def listening_def)
  ultimately have run: "listen_run int_bucket cfg (listening demo_syslog) ?s3"
    by (meson r_into_rtranclp rtranclp.rtrancl_into_rtrancl)
  have "forwarding_ok demo_syslog" "sy_counts demo_syslog = Map.empty"
    by (simp_all add: forwarding_ok_def demo_syslog_def syslog_cfg_def pool_inv_def pooled_def server_pool_def NewCollectorPool_def
        new_net_def NewUsageWriter_def)
  from listener_shutdown [OF this cfg_def run] obtain s' where "listen_run int_bucket cfg ?s3 s'" "ln_phase s' = Returned" "ln_sem s' = 0"
    by blast
  moreover have "ln_running ?s3 = [demo_conn]" "ln_phase ?s3 = Joining" by (simp_all add: s1_def)
  ultimately show ?thesis using run by blast
qed

end
