(* ===== verification/Gateway_System.thy ===== *)
theory Gateway_System
  imports Proxy_Main Syslog_Listener
begin

text \<open>
  The running gateway: one store, one rate limiter, one collector pool, one login limiter and one table
  of download links, shared by the four servers that \<open>run\<close> starts (\<open>cmd/proxy/main.go\<close>) and by the
  background loops. A step is a whole request, a whole connection or one turn of a loop; what can
  happen in the middle of a request is the subject of the component theories. The failures of the
  engine and of the network to the collector are events too, so that every statement of every
  request and every write can fail.
\<close>

section \<open>State and events\<close>

record ('l, 'x) gateway =
  gw_ingest :: "('l, 'x) ingest_env"
  gw_handler :: Handler
  gw_web :: web_server
  gw_syslog :: "Config option"         \<comment> \<open>None when the syslog server is disabled\<close>
  gw_retention :: int64

record 'l gateway_state =
  gs_store :: store
  gs_limiter :: "'l limiter"
  gs_pool :: "CollectorPool \<times> net"
  gs_counts :: conn_counts
  gs_login :: login_limiter
  gs_dm :: DownloadManager

datatype gateway_event =
    OtlpRequest clock ingest_request "proxy_request \<Rightarrow> reply"
  | AdminRequest web_env request
  | SyslogConnection "nat \<Rightarrow> time" tls_conn
  | RenewRequest pki_ops ca_post "u8 list" time "string \<Rightarrow> string" request renew_request
  | WriterTurn writer_event
  | RetentionTurn time
  | LimiterTurn time
  | DownloadTurn time
  | EngineFaults "bool list"
  | NetworkFaults "bool list" "bool list"

abbreviation gs_db :: "'l gateway_state \<Rightarrow> db" where
  "gs_db s \<equiv> st_db (gs_store s)"

definition put_db :: "db \<Rightarrow> 'l gateway_state \<Rightarrow> 'l gateway_state" where
  "put_db d s = s\<lparr>gs_store := (gs_store s)\<lparr>st_db := d\<rparr>\<rparr>"

text \<open>What each server sees of the shared state, and how its changes come back.\<close>

definition ingest_of :: "'l gateway_state \<Rightarrow> 'l ingest_state" where
  "ingest_of s = \<lparr>ig_db = gs_db s, ig_writer = st_writer (gs_store s), ig_limiter = gs_limiter s\<rparr>"

definition put_ingest :: "'l ingest_state \<Rightarrow> 'l gateway_state \<Rightarrow> 'l gateway_state" where
  "put_ingest i s = s\<lparr>gs_store := \<lparr>st_db = ig_db i, st_writer = ig_writer i\<rparr>, gs_limiter := ig_limiter i\<rparr>"

definition syslog_of :: "'l gateway_state \<Rightarrow> 'l syslog_state" where
  "syslog_of s = \<lparr>sy_db = gs_db s, sy_writer = st_writer (gs_store s), sy_limiter = gs_limiter s, sy_pool = gs_pool s, sy_counts = gs_counts s\<rparr>"

definition put_syslog :: "'l syslog_state \<Rightarrow> 'l gateway_state \<Rightarrow> 'l gateway_state" where
  "put_syslog y s = s\<lparr>gs_store := \<lparr>st_db = sy_db y, st_writer = sy_writer y\<rparr>, gs_limiter := sy_limiter y, gs_pool := sy_pool y,
     gs_counts := sy_counts y\<rparr>"

definition web_of :: "'l gateway_state \<Rightarrow> web_state" where
  "web_of s = \<lparr>wb_db = gs_db s, wb_login = gs_login s, wb_dm = gs_dm s, wb_quotaFailures = Some (QuotaFailures (gs_limiter s))\<rparr>"

definition put_web :: "web_state \<Rightarrow> 'l gateway_state \<Rightarrow> 'l gateway_state" where
  "put_web v s = put_db (wb_db v) (s\<lparr>gs_login := wb_login v, gs_dm := wb_dm v\<rparr>)"

section \<open>Steps\<close>

definition otlp :: "('l, 'x) gateway \<Rightarrow> clock \<Rightarrow> ingest_request \<Rightarrow> (proxy_request \<Rightarrow> reply) \<Rightarrow> 'l gateway_state
    \<Rightarrow> outcome \<times> proxy_request option \<times> 'l ingest_state" where
  "otlp g clk r upstream s = ServeHTTP (gw_ingest g) (gw_handler g) clk r upstream id (ingest_of s)"

definition admin :: "('l, 'x) gateway \<Rightarrow> web_env \<Rightarrow> request \<Rightarrow> 'l gateway_state \<Rightarrow> response \<times> web_state" where
  "admin g env r s = admin_handler env (gw_web g) r new_response (web_of s)"

definition syslog :: "('l, 'x) gateway \<Rightarrow> Config \<Rightarrow> (nat \<Rightarrow> time) \<Rightarrow> tls_conn \<Rightarrow> 'l gateway_state \<Rightarrow> conn_end \<times> 'l syslog_state" where
  "syslog g cfg clk conn s = handleConnection (ie_rate (gw_ingest g)) cfg clk conn (syslog_of s)"

definition gateway_step :: "('l, 'x) gateway \<Rightarrow> gateway_event \<Rightarrow> 'l gateway_state \<Rightarrow> 'l gateway_state" where
  "gateway_step g e s =
     (case e of
        OtlpRequest clk r upstream \<Rightarrow> put_ingest (snd (snd (otlp g clk r upstream s))) s
      | AdminRequest env r \<Rightarrow> put_web (snd (admin g env r s)) s
      | SyslogConnection clk conn \<Rightarrow>
          (case gw_syslog g of None \<Rightarrow> s | Some cfg \<Rightarrow> put_syslog (snd (syslog g cfg clk conn s)) s)
      | RenewRequest ops post rnd now location r req \<Rightarrow>
          (case ws_caClient (gw_web g) of
             None \<Rightarrow> s
           | Some ca \<Rightarrow> put_db (snd (snd (renewal_serve ops post rnd now ca location r req (gs_db s)))) s)
      | WriterTurn we \<Rightarrow> s\<lparr>gs_store := store_step (OpWriter we) (gs_store s)\<rparr>
      | RetentionTurn now \<Rightarrow> put_db (snd (CleanupOldCounters now (gw_retention g) (gs_db s))) s
      | LimiterTurn now \<Rightarrow> s\<lparr>gs_limiter := background_tick now (gs_limiter s)\<rparr>
      | DownloadTurn now \<Rightarrow> s\<lparr>gs_dm := cleanup now (gs_dm s)\<rparr>
      | EngineFaults fs \<Rightarrow> put_db ((gs_db s)\<lparr>db_faults := fs\<rparr>) s
      | NetworkFaults dials writes \<Rightarrow>
          s\<lparr>gs_pool := (fst (gs_pool s), (snd (gs_pool s))\<lparr>nt_dial_faults := dials, nt_write_faults := writes\<rparr>)\<rparr>)"

text \<open>The gateway that \<open>run\<close> has started, before the first event; the usage writer is the store's.\<close>

definition started :: "app \<Rightarrow> 'l gateway_state" where
  "started a = \<lparr>gs_store = app_store a, gs_limiter = NewLimiter,
     gs_pool = ((case app_syslog a of None \<Rightarrow> NewCollectorPool '''' 10 0 | Some (_, p, _) \<Rightarrow> p), new_net), gs_counts = Map.empty,
     gs_login = wb_login (snd (app_web a)), gs_dm = wb_dm (snd (app_web a))\<rparr>"

definition gateway_of :: "('l, 'x) ingest_env \<Rightarrow> app \<Rightarrow> ('l, 'x) gateway" where
  "gateway_of env a = \<lparr>gw_ingest = env, gw_handler = app_handler a, gw_web = fst (app_web a),
     gw_syslog = map_option fst (app_syslog a), gw_retention = UsageRetentionDays (app_config a)\<rparr>"

section \<open>What an event can do to the store\<close>

text \<open>The statements beyond the admin forms that the servers and the loops execute.\<close>

locale store_service = store_change +
  assumes credential_changes: "P d (snd (LookupTenantByKey now k d))" "P d (snd (UpdateLastSeen now fp d))"
    and loop_changes: "P d (snd (CleanupOldCounters now days d))" "P d (snd (writer_step we (uw, d)))"
begin

lemma resolve: "ResolveTenant now c d = (a, d') \<Longrightarrow> P d d'"
  using credential_changes(1) [of d now "cred_Value c"]
  by (auto simp: ResolveTenant_def LookupTenantByFingerprint_def split: CredentialType.splits dest: query)

lemma certificate_row: "LookupCertificateByFingerprint fp d = (a, d') \<Longrightarrow> P d d'"
  by (auto simp: LookupCertificateByFingerprint_def dest: query)

lemma quota_keeps: "P d (snd (snd (check_quota now t tid n l d)))"
  using reads(11) [of now tid d] same
  by (auto simp: check_quota_def getDailyUsage_def fetch_usage_def split: option.splits prod.splits sum.splits)

lemma limited: "P d (snd (snd (AllowRPS ops now tid l d)))" "P d (snd (snd (AllowBytes ops now tid n l d)))"
proof -
  show "P d (snd (snd (AllowRPS ops now tid l d)))"
    by (rule LookupTenantByID_cases [of tid d]) (auto simp: AllowRPS_def Let_def pop split: prod.splits)
  have c: "P d (snd (snd (check_quota now t tid n l (pop_fault d))))" for t l
    by (rule trans [OF pop quota_keeps])
  show "P d (snd (snd (AllowBytes ops now tid n l d)))"
    by (rule LookupTenantByID_cases [of tid d]) (simp_all add: AllowBytes_def Let_def case_prod_unfold pop c)
qed
lemma rate_checked:
  "limiter_check (AllowRPS ops now tid) u = (y, v) \<Longrightarrow> P (ig_db u) (ig_db v)"
  "limiter_check (AllowBytes ops now tid n) u = (y, v) \<Longrightarrow> P (ig_db u) (ig_db v)"
  using limited(1) [of "ig_db u" ops now tid "ig_limiter u"] limited(2) [of "ig_db u" ops now tid n "ig_limiter u"]
  by (auto simp: limiter_check_def split: prod.splits)

lemma authenticate_keeps: "authenticate now r s = (y, u) \<Longrightarrow> P (ig_db s) (ig_db u)"
  by (auto simp: authenticate_def Let_def split: if_splits prod.splits sum.splits option.splits dest: resolve intro: same)

lemma admit_keeps: "admit env h clk r sig s = (x, s') \<Longrightarrow> P (ig_db s) (ig_db s')"
  by (auto simp: admit_def split: prod.splits sum.splits dest!: authenticate_keeps rate_checked intro: trans)
lemma otlp_keeps: "P (ig_db s) (ig_db (snd (snd (ServeHTTP env h clk r upstream id s))))"
proof (cases "rq_Method r = ''GET'' \<and> rq_Path r = ''/healthz''")
  case True
  then show ?thesis
    by (auto simp: ServeHTTP_def healthz_def Let_def split: prod.splits dest: reads)
next
  case False
  then show ?thesis
    by (auto simp: ServeHTTP_def Let_def split: option.splits prod.splits sum.splits outcome.splits dest: admit_keeps intro: same)
qed

lemma checked:
  "syslog_check (AllowRPS ops now tid) u = (y, v) \<Longrightarrow> P (sy_db u) (sy_db v)"
  "syslog_check (AllowBytes ops now tid n) u = (y, v) \<Longrightarrow> P (sy_db u) (sy_db v)"
  using limited(1) [of "sy_db u" ops now tid "sy_limiter u"] limited(2) [of "sy_db u" ops now tid n "sy_limiter u"]
  by (auto simp: syslog_check_def split: prod.splits)

lemma frame_keeps: "handle_frame ops t t1 t2 t3 frame s = (st, s') \<Longrightarrow> P (sy_db s) (sy_db s')"
  by (auto simp: handle_frame_def split: prod.splits sum.splits bool.splits dest!: checked intro: trans)

lemma frames_keep: "serve_frames ops m t clk k stream s = (err, dn, s') \<Longrightarrow> P (sy_db s) (sy_db s')"
  by (rule serve_frames_relation [where Q = "\<lambda>s s'. P (sy_db s) (sy_db s')"]) (auto intro: same trans frame_keeps)
lemma served_keeps: "serve_frames ops m t clk k stream (s\<lparr>sy_db := d, sy_counts := c\<rparr>) = (err, dn, s') \<Longrightarrow> P d (sy_db s')"
  using frames_keep by fastforce

lemma connection_keeps: "P (sy_db s) (sy_db (snd (handleConnection ops cfg clk conn s)))"
proof -
  have seen: "ResolveTenant now c d = (a, d') \<Longrightarrow> P d (snd (UpdateLastSeen now' fp d'))" for now c d a d' now' fp
    using resolve credential_changes(2) trans by blast
  then show ?thesis
    by (auto simp: handleConnection_def Let_def split: sum.splits list.splits prod.splits option.splits
        dest!: served_keeps dest: resolve certificate_row intro: same trans) (rule trans [OF seen])
qed
lemma renew_keeps: "P d (snd (snd (handleRenew ops post rnd now ca req d)))"
  by (auto simp: handleRenew_def Let_def split: list.splits prod.splits sum.splits option.splits
      dest!: resolve certificate_row changes intro: same trans)

lemma renewal_keeps: "P d (snd (snd (renewal_serve ops post rnd now ca location r req d)))"
  by (cases rule: renewal_serve_cases [of ops post rnd now ca location r req d]) (use renew_keeps same in simp_all)

lemma step_keeps:
  assumes "\<And>fs. e \<noteq> EngineFaults fs"
  shows "P (gs_db s) (gs_db (gateway_step g e s))"
proof (cases e)
  case (AdminRequest env r)
  have "P (wb_db (web_of s)) (wb_db (snd (admin_handler env (gw_web g) r new_response (web_of s))))"
    using keeps_admin by (simp add: keeps_def)
  then show ?thesis using AdminRequest by (simp add: gateway_step_def admin_def put_web_def put_db_def web_of_def)
next
  case (OtlpRequest clk r upstream)
  then show ?thesis using otlp_keeps [of "ingest_of s"] by (simp add: gateway_step_def otlp_def put_ingest_def ingest_of_def)
next
  case (SyslogConnection clk conn)
  then show ?thesis using connection_keeps [of "syslog_of s"] same
    by (simp add: gateway_step_def syslog_def put_syslog_def syslog_of_def split: option.splits)
next
  case (WriterTurn we)
  then show ?thesis using loop_changes(2) by (simp add: gateway_step_def store_step_def case_prod_unfold)
qed (use assms renewal_keeps loop_changes(1) same in \<open>auto simp: gateway_step_def put_db_def split: option.splits\<close>)

end

text \<open>A relation that does not look at the script of failures is kept by the environment's steps too.\<close>

locale store_environment = store_service +
  assumes faults: "P d (d\<lparr>db_faults := fs\<rparr>)"
begin

lemma every_step_keeps: "P (gs_db s) (gs_db (gateway_step g e s))"
proof (cases "\<exists>fs. e = EngineFaults fs")
  case True
  then show ?thesis by (auto simp: gateway_step_def put_db_def faults)
qed (rule step_keeps, simp)

end

interpretation gateway_store: store_environment "\<lambda>d d'. db_inv d \<longrightarrow> db_inv d'"
  by unfold_locales (simp_all add: op_inv writer_step_inv)

interpretation gateway_ids: store_environment ids_grow
  by unfold_locales
     (auto simp: op_grow UpdateLastSeen_def intro: sql_exec_grow grow writer_step_grow [of "(_, _)", simplified] ids_grow_same)

section \<open>The invariant of the running gateway\<close>

text \<open>
  The constraints of the store and the bound on the usage queue, exclusive use of the collector
  connections, no slot held between connections, at most five attempts per login window, and no
  download link that was used.
\<close>

definition gateway_inv :: "'l gateway_state \<Rightarrow> bool" where
  "gateway_inv s \<longleftrightarrow> store_inv (gs_store s) \<and> pool_inv (gs_pool s, {}) \<and> gs_counts s = Map.empty \<and>
     limiter_inv (gs_login s) \<and> unused (gs_dm s)"

subsection \<open>The admin requests keep the login windows and the links in order\<close>

definition tidy :: "web_state \<Rightarrow> bool" where
  "tidy s \<longleftrightarrow> limiter_inv (wb_login s) \<and> unused (wb_dm s)"

lemma tidy_db [simp]: "tidy (s\<lparr>wb_db := d\<rparr>) = tidy s"
  by (simp add: tidy_def)

definition tidies :: "handler \<Rightarrow> bool" where
  "tidies h \<longleftrightarrow> (\<forall>env sv r w s. tidy s \<longrightarrow> tidy (snd (h env sv r w s)))"

lemma tidiesI: "(\<And>env sv r w s w' s'. tidy s \<Longrightarrow> h env sv r w s = (w', s') \<Longrightarrow> tidy s') \<Longrightarrow> tidies h"
  unfolding tidies_def by (metis prod.collapse)

lemma tidiesD: "tidies h \<Longrightarrow> h env sv r w s = (w', s') \<Longrightarrow> tidy s \<longrightarrow> tidy s'"
  unfolding tidies_def by (metis snd_conv)

lemma tidy_view: "baseView env sv r title s = (v, s') \<Longrightarrow> tidy s' = tidy s"
  by (auto simp: baseView_def split: prod.splits)

lemma tidy_error_page: "renderError c t dt env sv r w s = (w', s') \<Longrightarrow> tidy s' = tidy s"
  by (auto simp: renderError_def Let_def split: prod.splits dest: tidy_view)

lemma unused_mem [simp]: "unused (m\<lparr>dm_mem := f\<rparr>) = unused m"
  by (simp add: unused_def)

lemma tidy_links:
  "Create rnd now c k m = (x, m') \<Longrightarrow> unused m \<longrightarrow> unused m'" "Consume now t m = (y, m') \<Longrightarrow> unused m \<longrightarrow> unused m'"
  using unused_step [of m "DCreate rnd now c k"] unused_step [of m "DConsume now t"] by auto

lemma tidy_login:
  assumes "login_allowed now a b (wb_login s) = (x, l)" shows "tidy s \<longrightarrow> tidy (s\<lparr>wb_login := l\<rparr>)"
proof -
  obtain ok l1 where "Allow now a (wb_login s) = (ok, l1)" by fastforce
  then show ?thesis
    using assms Allow_inv [of "wb_login s" now a] Allow_inv [of l1 now b] by (cases ok) (auto simp: tidy_def login_allowed_def)
qed

lemma tidy_download: "issueDownload c k t env sv r w s = (w', s') \<Longrightarrow> tidy s \<longrightarrow> tidy s'"
  by (auto simp: tidy_def issueDownload_def Let_def split: prod.splits dest!: tidy_links)
lemma tidies_guards: "tidies h \<Longrightarrow> tidies (requireAuth h)" "tidies h \<Longrightarrow> tidies (requireCSRF h)"
  by (rule tidiesI; auto simp: requireAuth_def requireCSRF_def split: option.splits prod.splits if_splits dest!: tidiesD)+

lemma tidies_with_tenant: "(\<And>t. tidies (k t)) \<Longrightarrow> tidies (with_tenant k)"
  by (rule tidiesI) (auto simp: with_tenant_def split: prod.splits sum.splits option.splits dest: tidiesD [rotated] tidy_error_page)
lemma tidies_pages: "tidies index" "tidies tenantNew" "tidies tenantEdit" "tidies usagePage" "tidies usageData" "tidies certsPage"
  "tidies certIssueForm" "tidies usersPage" "tidies static_route"
proof -
  show "tidies tenantEdit" "tidies usagePage" "tidies certsPage" "tidies certIssueForm"
    unfolding tenantEdit_def usagePage_def certsPage_def certIssueForm_def
    by (intro tidies_with_tenant tidiesI; auto simp: Let_def split: page_splits dest: tidy_view tidy_error_page)+
qed (rule tidiesI; auto simp: index_def tenantNew_def usageData_def usersPage_def static_route_def Let_def split: page_splits
    dest: tidy_view tidy_error_page)+

lemma tidies_public: "tidies healthz_web" "tidies loginPage" "tidies loginAction" "tidies setupPage" "tidies setupAction"
  "tidies downloadByToken" "tidies logout"
proof -
  show "tidies loginAction"
    by (rule tidiesI) (auto simp: loginAction_def Let_def split: page_splits dest!: tidy_login)
  show "tidies downloadByToken"
    by (rule tidiesI) (auto simp: downloadByToken_def tidy_def Let_def split: page_splits dest!: tidy_links)
qed (rule tidiesI; auto simp: healthz_web_def loginPage_def setupPage_def setupAction_def logout_def Let_def split: page_splits
    dest: tidy_view)+

lemma tidies_forms: "tidies tenantCreate" "tidies tenantUpdate" "tidies tenantDelete" "tidies tenantRegenerate" "tidies userCreate"
  "tidies userDelete"
  by (rule tidiesI; auto simp: tenantCreate_def tenantUpdate_def tenantDelete_def tenantRegenerate_def userCreate_def userDelete_def
      Let_def split: page_splits)+

lemma tidies_certs: "tidies certIssue" "tidies certIssueKeygen" "tidies certRenew" "tidies certRevoke"
  by (rule tidiesI; auto simp: certIssue_def certIssueKeygen_def certRenew_def certRevoke_def Let_def split: page_splits
      dest!: tidy_download)+

lemma tidies_admin: "tidies admin_handler"
proof (rule tidiesI)
  fix env sv r w s w' s' assume t: "tidy s" and run: "admin_handler env sv r w s = (w', s')"
  have all: "tidies h" if "(m, p, h) \<in> set routes" for m p h
    using that tidies_pages tidies_public tidies_forms tidies_certs
    by (auto simp: routes_def public_routes_def page_routes_def form_routes_def intro!: tidies_guards)
  from run t show "tidy s'" by (cases rule: admin_handler_cases) (auto dest!: tidiesD [OF all])
qed

section \<open>Every step keeps the invariant\<close>

lemma gateway_step_inv:
  assumes "gateway_inv s" shows "gateway_inv (gateway_step g e s)"
proof -
  have db: "db_inv (gs_db (gateway_step g e s))"
    using assms gateway_store.every_step_keeps [of s g e] by (auto simp: gateway_inv_def store_inv_def)
  show ?thesis
  proof (cases e)
    case (OtlpRequest clk r upstream)
    have "ingest_inv (ingest_of s)"
      using assms by (simp add: gateway_inv_def ingest_inv_def ingest_of_def store_inv_def writer_bounded_def)
    then have "ingest_inv (snd (snd (otlp g clk r upstream s)))" unfolding otlp_def by (rule ServeHTTP_inv) simp
    then show ?thesis using assms OtlpRequest by (simp add: gateway_inv_def ingest_inv_def gateway_step_def put_ingest_def)
  next
    case (AdminRequest env r)
    have "tidy (web_of s)" using assms by (simp add: gateway_inv_def tidy_def web_of_def)
    then have "tidy (snd (admin g env r s))" using tidies_admin by (simp add: admin_def tidies_def)
    then show ?thesis using assms db AdminRequest
      by (simp add: gateway_inv_def gateway_step_def put_web_def put_db_def tidy_def store_inv_def writer_bounded_def)
  next
    case (SyslogConnection clk conn)
    have "forwarding_ok (syslog_of s)" "sy_counts (syslog_of s) = Map.empty"
      using assms by (simp_all add: gateway_inv_def forwarding_ok_def syslog_of_def store_inv_def writer_bounded_def)
    from connection_forwarding [OF this] show ?thesis using assms db SyslogConnection
      by (simp add: gateway_inv_def gateway_step_def put_syslog_def syslog_def forwarding_ok_def store_inv_def writer_bounded_def
          split: option.splits)
  next
    case (WriterTurn we)
    then show ?thesis using assms store_step_inv [of "gs_store s" "OpWriter we"] by (simp add: gateway_inv_def gateway_step_def)
  next
    case (DownloadTurn now)
    then show ?thesis using assms unused_step [of "gs_dm s" "DCleanup now"] by (simp add: gateway_inv_def gateway_step_def)
  next
    case (NetworkFaults dials writes)
    then show ?thesis using assms by (simp add: gateway_inv_def gateway_step_def pool_inv_def split: prod.splits)
  qed (use assms db in \<open>auto simp: gateway_inv_def gateway_step_def put_db_def store_inv_def writer_bounded_def split: option.splits\<close>)
qed

interpretation gateway_run: step_machine "gateway_step g" gateway_inv for g
  by unfold_locales (rule gateway_step_inv)

lemma gateway_ids_run: "ids_grow (gs_db s) (gs_db (fold (gateway_step g) es s))"
  by (induction es arbitrary: s) (auto intro: ids_grow_trans gateway_ids.every_step_keeps)

lemma started_inv:
  assumes "db_inv (sq_data (re_db env))" and "run env = Serving a ts"
  shows "gateway_inv (started a)"
proof -
  from assms(2) obtain cfg st q h c t sys ren where st: "Open (re_now env) (re_db env) = Some (Inr st, q)"
    and sys: "syslog_startup env cfg = Inr sys"
    and a: "a = \<lparr>app_config = cfg, app_store = after_cleanup env cfg st, app_handler = h,
       app_web = web_startup env cfg c t (st_db (after_cleanup env cfg st)), app_syslog = sys, app_renewal = ren\<rparr>"
    by (rule run_Serving)
  have empty: "pool_inv ((NewCollectorPool x 10 y, new_net), {})" for x y
    by (simp add: pool_inv_def NewCollectorPool_def new_net_def pooled_def)
  then have "pool_inv (gs_pool (started a), {})"
    using sys by (auto simp: started_def a syslog_startup_def NewServer_def server_pool_def split: if_splits sum.splits)
  moreover have "store_inv (app_store a)" using after_cleanup_inv [OF Open_ok [OF st assms(1)]] by (simp add: a)
  ultimately show ?thesis
    by (auto simp: gateway_inv_def started_def a web_startup_def New_web_def limiter_inv_def NewLoginLimiter_def unused_def NewDownloadManager_def
        split: option.splits)
qed

section \<open>Forms of a signed-in administrator\<close>

definition form_post :: "web_server \<Rightarrow> web_env \<Rightarrow> request \<Rightarrow> web_state \<Rightarrow> seg list \<Rightarrow> (string \<times> string) list \<Rightarrow> bool" where
  "form_post sv env r s ps vs \<longleftrightarrow> rq_Method r = ''POST'' \<and> match_segs ps (path_segs (rq_Path r)) = Some vs \<and>
     cleanPath (rq_Path r) = rq_Path r \<and> signed_in env sv r s \<and> csrf_ok sv r"

lemma form_dispatch:
  assumes form: "form_post sv env r s ps vs" and route: "(''POST'', ps, requireAuth (requireCSRF k)) \<in> set form_routes"
    and h: "healthy (wb_db s)"
  shows "admin_handler env sv r w s = k env sv (r\<lparr>rq_PathValue := vs\<rparr>) (secured_response w) s"
proof -
  have "admin_handler env sv r w s = requireAuth (requireCSRF k) env sv (r\<lparr>rq_PathValue := vs\<rparr>) (secured_response w) s"
    by (rule route_dispatch) (use form route in \<open>auto simp: form_post_def routes_def method_matches_def\<close>)
  moreover obtain token where c: "Cookie r ''session'' = Some token" "fst (Verify (ws_session sv) (we_now env) token (wb_db s)) \<noteq> None"
    using form by (auto simp: form_post_def signed_in_def split: option.splits)
  moreover have "snd (Verify (ws_session sv) (we_now env) token (wb_db s)) = wb_db s"
    using Verify_frame [of "ws_session sv" "we_now env" token "wb_db s"] h by simp
  ultimately show ?thesis
    using form by (cases "Verify (ws_session sv) (we_now env) token (wb_db s)") (auto simp: requireAuth_def requireCSRF_def form_post_def)
qed

lemma path_id_format:
  assumes "rq_PathValue r = vs" "map_of vs name = Some (format_int i)" "in_int64 i"
  shows "path_id r name = i"
  using assms by (simp add: path_id_def PathValue_def parse_int_value_def parse_format_int)

section \<open>For whom the entrances act\<close>

lemma otlp_tenant:
  assumes "db_inv (gs_db s)" and "otlp g clk q upstream s = (out, Some p, i)"
  obtains row sig b where "row \<in> set (t_tenants (gs_db s))" "key_holds (gs_db s) (header_get (rq_Header q) ''X-Tenant-Key'') row"
    "rq_Body q = Some b"
    "stampTenantIdentity (ie_codec (gw_ingest g)) (ie_gzip (gw_ingest g)) (rb_bytes b) (header_get (rq_Header q) ''Content-Type'')
       (header_get (rq_Header q) ''Content-Encoding'') sig (format_int (tr_id row)) (tr_name row) = Inr (pr_Body p)"
proof -
  have i: "db_inv (ig_db (ingest_of s))" using assms(1) by (simp add: ingest_of_def)
  show thesis
    by (rule forwarded_row [OF i assms(2) [unfolded otlp_def]])
       (use that api_keys.holds_active in \<open>auto simp: ingest_of_def\<close>)
qed

lemma syslog_tenant:
  assumes inv: "db_inv (gs_db s)" and run: "syslog g cfg clk conn s = (Served t err fs, y)"
  shows "\<exists>row \<in> set (t_tenants (gs_db s)). tr_id row = ID t"
proof (cases rule: handleConnection_cases [of "ie_rate (gw_ingest g)" cfg clk conn "syslog_of s"])
  case (refused e d)
  then show ?thesis using run by (auto simp: syslog_def)
next
  case (slot leaf rest t' d counts)
  have "t' = t" using run unfolding syslog_def slot(4) by (auto simp: Let_def split: prod.splits if_splits)
  then obtain d' where "ResolveTenant (clk 0) (NewCertCredential (fingerprint_of leaf)) (gs_db s) = (Inr (Some t), d')"
    using slot(2) by (cases "ResolveTenant (clk 0) (NewCertCredential (fingerprint_of leaf)) (gs_db s)") (auto simp: syslog_of_def)
  from ResolveTenant_active [OF inv this] show ?thesis by blast
qed

lemma renew_tenant:
  assumes inv: "db_inv d" and run: "handleRenew ops post rnd now ca req d = (w, reqs, d')" and ok: "rs_status w = 200"
  shows "\<exists>row \<in> set (t_tenants d). fp_holds d (fingerprint_of (hd (rr_peers req))) row"
proof -
  from handleRenew_ok [OF run ok] obtain leaf rest t d1 where p: "rr_peers req = leaf # rest"
    and r: "ResolveTenant now (NewCertCredential (hex_encode (sha256 leaf))) d = (Inr (Some t), d1)" by metis
  have "LookupTenantByFingerprint (hex_encode (sha256 leaf)) d = (Inr (Some t), d1)"
    using r by (simp add: ResolveTenant_def NewCertCredential_def)
  from cert_fps.resolve_sound [OF inv this] show ?thesis
    using p cert_fps.holds_active by (fastforce simp: fingerprint_of_def)
qed

section \<open>Issued keys travel in the flash cookie\<close>

lemma valid_utf8_ascii: "\<forall>c \<in> set s. code c < 128 \<Longrightarrow> valid_utf8 s"
proof (induction s)
  case Nil
  then show ?case by (simp add: valid_utf8.simps)
next
  case (Cons c cs)
  then show ?case by (subst valid_utf8.simps) simp
qed

lemma key_ascii: "valid_utf8 (GenerateAPIKeyV2 rnd tid)"
proof (rule valid_utf8_ascii)
  have "code c < 128" if "is_digit c \<or> c = CHR ''-''" for c using that by (auto simp: is_digit_def)
  note sign_or_digit = this [OF format_int_chars]
  have i: "\<forall>c \<in> set (format_int tid). code c < 128" by (rule ballI) (rule sign_or_digit)
  have "code c < 128" if "let n = code c in (48 \<le> n \<and> n \<le> 57) \<or> (97 \<le> n \<and> n \<le> 102)" for c
    using that unfolding Let_def by linarith
  then have h: "\<forall>c \<in> set (hex_encode rnd). code c < 128"
    using isHex_hex_encode [of rnd] unfolding isHex_def list_all_iff by blast
  show "\<forall>c \<in> set (GenerateAPIKeyV2 rnd tid). code c < 128"
    unfolding GenerateAPIKeyV2_def set_append ball_Un using i h by simp
qed

lemma Flash_Get_Set:
  assumes "flash_ok f" and "Cookie r ''flash'' = Some (sign_payload key (bytes_of (marshal_flash f)))"
  shows "Flash_Get key r = Some f"
  using flash_tokens.accept_mint [OF assms(1), of key] assms(2)
  by (simp add: Flash_Get_def flash_tokens.accept_def flash_tokens.mint_def)

lemma CreateTenant_healthy: "healthy d \<Longrightarrow> healthy (snd (CreateTenant rnd now n ds l d))"
  by (auto simp: CreateTenant_def sql_exec_healthy insert_tenant_def insert_api_key_def healthy_def Let_def sql_exec_def next_fault_def
      pop_fault_def split: option.splits if_splits prod.splits sum.splits)

lemma authenticate_key:
  assumes "header_get (rq_Header q) ''X-Tenant-Key'' = k" "k \<noteq> ''''" "fst (LookupTenantByKey now k (ig_db s)) = Inr (Some t)"
  shows "fst (authenticate now q s) = Inr t"
  using assms by (cases "LookupTenantByKey now k (ig_db s)") (simp add: authenticate_def Let_def ResolveTenant_def NewAPIKeyCredential_def)

section \<open>Revocation\<close>

lemma own_cert_found:
  assumes "db_inv d" "healthy d" "c \<in> set (t_certificates d)" "path_id r ''certId'' = ct_id c" "path_id r ''id'' = ct_tenant_id c"
  shows "lookup_own_cert r d = (Some (scanCertificate c), d)"
proof -
  have "distinct (map ct_id (t_certificates d))" using assms(1) by (simp add: db_inv_def ids_ok_def)
  then have "find (\<lambda>x. ct_id x = ct_id c) (t_certificates d) = Some c" using assms(3) by (rule find_distinct_key) simp
  then show ?thesis
    using assms by (simp add: lookup_own_cert_def LookupCertificateByID_def sql_query_healthy scanCertificate_def)
qed

lemma revoked_row:
  assumes "RevokeCertificate now fp d = (Inr (), d')" "healthy d" "c \<in> set (t_certificates d)" "ct_fingerprint c = fp"
  shows "healthy d'" and "\<exists>cert. LookupCertificateByFingerprint fp d' = (Inr (Some cert), d') \<and> cert_RevokedAt cert \<noteq> None"
proof -
  let ?f = "\<lambda>c. if ct_fingerprint c = fp then c\<lparr>ct_revoked_at := Some (current_timestamp now)\<rparr> else c"
  have d': "d' = d\<lparr>t_certificates := map ?f (t_certificates d)\<rparr>"
    using assms(1,2) by (simp add: RevokeCertificate_def sql_exec_healthy revoke_certificate_def)
  then show h: "healthy d'" using assms(2) by (simp add: healthy_def)
  have "?f c \<in> set (t_certificates d')" "ct_fingerprint (?f c) = fp" using assms(3,4) by (simp_all add: d')
  then have "\<exists>z. z \<in> set (t_certificates d') \<and> ct_fingerprint z = fp" by (intro exI [of _ "?f c"] conjI)
  then have "find (\<lambda>c. ct_fingerprint c = fp) (t_certificates d') \<noteq> None" by (simp only: find_None_iff not_not)
  then obtain x where x: "find (\<lambda>c. ct_fingerprint c = fp) (t_certificates d') = Some x" by blast
  have certs: "t_certificates d' = map ?f (t_certificates d)" by (simp add: d')
  have "list_all (\<lambda>c. ct_fingerprint c = fp \<longrightarrow> ct_revoked_at c \<noteq> None) (map ?f cs)" for cs by (induction cs) simp_all
  then have "\<forall>z \<in> set (t_certificates d'). ct_fingerprint z = fp \<longrightarrow> ct_revoked_at z \<noteq> None" by (simp only: certs list_all_iff)
  then have "ct_revoked_at x \<noteq> None" using find_Some_mem [OF x] by (simp only: simp_thms)
  then show "\<exists>cert. LookupCertificateByFingerprint fp d' = (Inr (Some cert), d') \<and> cert_RevokedAt cert \<noteq> None"
    using x h by (simp add: LookupCertificateByFingerprint_def sql_query_healthy scanCertificate_def)
qed

section \<open>A demonstration gateway\<close>

text \<open>One administrator who is signed in, one tenant with one certificate, no certificate authority.\<close>

definition demo_gateway :: "(int \<times> int \<times> int \<times> int, unit) gateway" where
  "demo_gateway = \<lparr>gw_ingest = Ingest_Handler.demo_env, gw_handler = demo_handler, gw_web = demo_server, gw_syslog = None, gw_retention = 90\<rparr>"

definition demo_gateway_db :: db where
  "demo_gateway_db = renew_db\<lparr>t_users := t_users demo_users, seq_users := 1\<rparr>"

definition demo_gateway_state :: "(int \<times> int \<times> int \<times> int) gateway_state" where
  "demo_gateway_state = \<lparr>gs_store = \<lparr>st_db = demo_gateway_db, st_writer = NewUsageWriter\<rparr>, gs_limiter = NewLimiter,
     gs_pool = (NewCollectorPool '''' 10 0, new_net), gs_counts = Map.empty, gs_login = NewLoginLimiter,
     gs_dm = NewDownloadManager (\<lambda>_. [])\<rparr>"

lemma demo_gateway_ok: "gateway_inv demo_gateway_state" "healthy (gs_db demo_gateway_state)"
proof -
  have "db_inv demo_gateway_db"
    using renew_db_eq(2) by (simp add: demo_gateway_db_def db_inv_def demo_users_def ids_ok_def tenant_ids_def)
  then show "gateway_inv demo_gateway_state"
    by (simp add: gateway_inv_def demo_gateway_state_def store_inv_def writer_bounded_def NewUsageWriter_def pool_inv_def
        NewCollectorPool_def new_net_def pooled_def limiter_inv_def NewLoginLimiter_def unused_def NewDownloadManager_def)
  show "healthy (gs_db demo_gateway_state)"
    using renew_db_eq(1) by (simp add: demo_gateway_state_def demo_gateway_db_def healthy_def)
qed

definition demo_form :: "string \<Rightarrow> (string \<times> string) list \<Rightarrow> request" where
  "demo_form path form = Web_Security.demo_request ''POST'' path ((''_csrf'', CSRF_Token [1, 2, 3] ''s'') # form)"

lemma demo_form_post:
  assumes "match_segs ps (path_segs path) = Some vs" and "cleanPath path = path"
  shows "form_post (gw_web demo_gateway) Web_Security.demo_env (demo_form path form) (web_of demo_gateway_state) ps vs"
proof -
  have "valid_utf8 ''root''" by code_simp
  then have "claims_ok \<lparr>sc_ID = 1, sc_U = ''root'', sc_Exp = unix (0 + sessionTTL)\<rparr>"
    by (simp add: claims_ok_def in_int64_def unix_def sessionTTL_def)
  then have "fst (Verify (ws_session demo_server) 0 (Sign (ws_session demo_server) 0 1 ''root'') demo_gateway_db) = Some (1, ''root'')"
    using Verify_Sign [of 1 demo_gateway_db "''root''" 0 "ws_session demo_server" 0] demo_gateway_ok(2)
    by (simp add: demo_gateway_db_def demo_users_def demo_gateway_state_def unix_def sessionTTL_def)
  then have "signed_in Web_Security.demo_env demo_server (demo_form path form) (web_of demo_gateway_state)"
    by (simp add: signed_in_def demo_form_def demo_request_def Cookie_def web_of_def demo_gateway_state_def demo_env_def)
  then show ?thesis
    using assms demo_csrf by (simp add: form_post_def demo_gateway_def demo_form_def) (simp add: demo_request_def)
qed

end
