(* ===== verification/Gateway_Closed.thy ===== *)
theory Gateway_Closed
  imports Gateway_System
begin

text \<open>
  What is left of the store once \<open>Close\<close> (\<open>internal/store/store.go\<close>) has closed the database: a call on
  a closed \<open>sql.DB\<close> returns an error and changes nothing. A handler that runs on after that sees every
  statement fail; the theory shows that it leaves every table as it was.
\<close>

section \<open>Everything the program executes\<close>

text \<open>The writing statements of the program; \<open>Some\<close> stands for \<open>Begin\<close>, \<open>Prepare\<close> and \<open>Commit\<close>.\<close>

inductive program_statement :: "(db \<Rightarrow> db option) \<Rightarrow> bool" where
  "program_statement Some"
| "program_statement (insert_tenant n ds l now)"
| "program_statement (update_tenant t n ds a l now)"
| "program_statement (delete_tenant t)"
| "program_statement (insert_api_key t h p now)"
| "program_statement (revoke_all_keys t now)"
| "program_statement (touch_key h now)"
| "program_statement (insert_certificate t s fp cn nb na now)"
| "program_statement (revoke_certificate fp now)"
| "program_statement (update_last_seen fp now)"
| "program_statement (insert_user u p now)"
| "program_statement (delete_user uid)"
| "program_statement (upsert_counter k v)"
| "program_statement (delete_old_counters th)"
| "program_statement (delete_old_logs tm)"

text \<open>
  A relation that every execution of a statement and every rollback keeps is kept by all the
  operations of the store, and so by all that the servers do.
\<close>

locale store_execution = store_relation +
  assumes exec: "program_statement f \<Longrightarrow> P d (snd (sql_exec f d))"
    and undo: "P d d' \<Longrightarrow> P d (rollback d d')"
begin

lemma exec_eq: "sql_exec f d = (x, d') \<Longrightarrow> program_statement f \<Longrightarrow> P d d'"
  using exec by (metis snd_conv)

lemma control_eq: "sql_control d = (x, d') \<Longrightarrow> P d d'"
  unfolding sql_control_def by (rule exec_eq) (auto intro: program_statement.intros)

lemma tenants_keep: "P d (snd (CreateTenant rnd now n ds l d))" "P d (snd (UpdateTenant now t n ds a l d))"
    "P d (snd (DeleteTenant t d))" "P d (snd (RegenerateKey rnd now t d))"
  by (auto simp: CreateTenant_def UpdateTenant_def DeleteTenant_def RegenerateKey_def RevokeAllKeysForTenant_def Let_def
      split: prod.splits sum.splits dest!: exec_eq intro: exec trans program_statement.intros)

lemma accounts_keep: "P d (snd (AddCertificate now t s fp cn nb na d))" "P d (snd (RevokeCertificate now fp d))"
    "P d (snd (CreateUser now u pw d))" "P d (snd (DeleteUser t d))"
  by (auto simp: AddCertificate_def RevokeCertificate_def CreateUser_def DeleteUser_def
      split: prod.splits sum.splits dest!: exec_eq intro: exec trans program_statement.intros)

lemma credentials_keep: "P d (snd (LookupTenantByKey now k d))" "P d (snd (UpdateLastSeen now fp d))"
proof -
  have "P d (snd (matchCandidates now cs h d))" for cs h d
    by (auto simp: matchCandidates_def split: option.splits intro: same exec program_statement.intros)
  then show "P d (snd (LookupTenantByKey now k d))"
    by (auto simp: LookupTenantByKey_scope query_candidates_def sql_query_def split: option.splits intro: same pop trans)
  show "P d (snd (UpdateLastSeen now fp d))" by (auto simp: UpdateLastSeen_def intro: exec program_statement.intros)
qed

lemma cleanup_keeps: "P d (snd (CleanupOldCounters now days d))"
  by (auto simp: CleanupOldCounters_def Let_def split: prod.splits sum.splits dest!: exec_eq intro: trans program_statement.intros)

lemma snapshot_keeps: "exec_snapshot snap d = (x, d') \<Longrightarrow> P d d'"
proof (induction snap d rule: exec_snapshot.induct)
  case (2 k v xs d)
  then show ?case
    by (auto split: prod.splits sum.splits dest!: exec_eq intro: trans program_statement.intros)
qed (simp add: same)

lemma flush_keeps: "P d (snd (flush (w, d)))"
  by (auto simp: flush_def Let_def split: prod.splits sum.splits dest!: control_eq snapshot_keeps intro: same undo trans)

lemma writer_keeps: "P d (snd (writer_step we (uw, d)))"
  by (cases we) (auto simp: case_prod_unfold flush_keeps same split: list.splits)

end

sublocale store_execution \<subseteq> store_service
  by unfold_locales (rule tenants_keep accounts_keep credentials_keep cleanup_keeps writer_keeps)+

section \<open>A closed database\<close>

text \<open>
  A run of failing statements is a script of failures that is long enough. \<open>shut\<close> compares a database
  that refuses everything with what it becomes: either the script is used up, or nothing has changed.
\<close>

definition refusing :: "nat \<Rightarrow> db \<Rightarrow> db" where
  "refusing n d = d\<lparr>db_faults := replicate n True\<rparr>"

definition shut :: "db \<Rightarrow> db \<Rightarrow> bool" where
  "shut d d' \<longleftrightarrow> (list_all id (db_faults d) \<longrightarrow>
     db_faults d' = [] \<or> tables d' = tables d \<and> (\<exists>k. db_faults d' = drop k (db_faults d)))"

lemma statement_faults: "program_statement f \<Longrightarrow> f d = Some d' \<Longrightarrow> db_faults d' = db_faults d"
  by (induction rule: program_statement.induct)
     (auto simp: insert_tenant_def update_tenant_def delete_tenant_def insert_api_key_def revoke_all_keys_def touch_key_def
       insert_certificate_def revoke_certificate_def update_last_seen_def insert_user_def delete_user_def upsert_counter_def
       delete_old_counters_def delete_old_logs_def split: option.splits if_splits)

lemma list_all_drop: "list_all p xs \<Longrightarrow> list_all p (drop k xs)"
  by (metis append_take_drop_id list_all_append)

lemma shut_trans: "shut a b \<Longrightarrow> shut b c \<Longrightarrow> shut a c"
  by (auto simp: shut_def list_all_drop)

lemma shut_pop: "shut d (pop_fault d)"
proof -
  have "db_faults (pop_fault d) = drop 1 (db_faults d)" by (simp add: pop_fault_def drop_Suc)
  then show ?thesis unfolding shut_def using tables_pop by blast
qed

lemma shut_exec:
  assumes "program_statement f"
  shows "shut d (snd (sql_exec f d))"
proof (cases "db_faults d")
  case Nil
  then have "db_faults (pop_fault d) = []" by (simp add: pop_fault_def)
  then show ?thesis using statement_faults [OF assms, of "pop_fault d"] by (auto simp: shut_def sql_exec_def split: option.splits)
next
  case (Cons b bs)
  then show ?thesis using shut_pop [of d] by (auto simp: sql_exec_def next_fault_def shut_def split: option.splits)
qed

lemma shut_rollback: "shut d d' \<Longrightarrow> shut d (rollback d d')"
  by (auto simp: shut_def rollback_def tables_def)

interpretation closed_store: store_execution shut
proof
  show "shut d d" for d by (simp add: shut_def) (metis drop0)
qed (use shut_trans shut_pop shut_exec shut_rollback in blast)+

text \<open>A step on a database that refuses every statement, the failing ones being enough, changes no table.\<close>

lemma refused_step:
  assumes "\<And>fs. e \<noteq> EngineFaults fs" and "db_faults (gs_db (gateway_step g e (put_db (refusing n d) s))) \<noteq> []"
  shows "tables (gs_db (gateway_step g e (put_db (refusing n d) s))) = tables d"
  using closed_store.step_keeps [OF assms(1), of "put_db (refusing n d) s" g] assms(2)
  by (simp add: shut_def put_db_def refusing_def list_all_iff tables_def)

end
