(* ===== verification/Usage_Lifecycle.thy ===== *)
theory Usage_Lifecycle
  imports Usage_Writer
begin

text \<open>
  How callers, the writer goroutine and the shutdown of the usage writer meet
  (\<open>Start\<close>, \<open>Stop\<close> and \<open>FlushCounters\<close> in \<open>internal/store/usage.go\<close>). \<open>FlushCounters\<close> looks at the \<open>done\<close>
  channel and then sends a request on an unbuffered channel: two steps, between which \<open>Stop\<close> can
  close \<open>done\<close> and the goroutine can exit. The relation below has one step for each.
\<close>

section \<open>The protocol as a step relation\<close>

text \<open>
  \<open>Sending\<close> is a caller that found \<open>done\<close> open and blocks on \<open>flushReq\<close>; \<open>Answered\<close> one whose call
  returned. \<open>wl_done\<close> says that \<open>Stop\<close> closed \<open>done\<close>; the goroutine has exited (\<open>flushed\<close> is closed and
  \<open>Stop\<close> returns) when \<open>w_stopped\<close> holds of the writer.
\<close>

datatype flush_caller = Sending | Answered

record writer_life =
  wl_done :: bool
  wl_callers :: "nat \<rightharpoonup> flush_caller"
  wl_writer :: "usage_writer \<times> db"

definition started_writer :: "usage_writer \<times> db \<Rightarrow> writer_life" where
  "started_writer wd = \<lparr>wl_done = False, wl_callers = Map.empty, wl_writer = wd\<rparr>"

abbreviation exited :: "writer_life \<Rightarrow> bool" where
  "exited s \<equiv> w_stopped (fst (wl_writer s))"

inductive life_step :: "writer_life \<Rightarrow> writer_life \<Rightarrow> bool" where
  work: "life_step s (s\<lparr>wl_writer := writer_step e (wl_writer s)\<rparr>)" if "e \<in> {Recv, Tick} \<union> range Record"
| call: "life_step s (s\<lparr>wl_callers := (wl_callers s)(i \<mapsto> if wl_done s then Answered else Sending)\<rparr>)" if "wl_callers s i = None"
| serve: "life_step s (s\<lparr>wl_writer := writer_step FlushReq (wl_writer s), wl_callers := (wl_callers s)(i \<mapsto> Answered)\<rparr>)"
    if "wl_callers s i = Some Sending" and "\<not> exited s"
| Stop: "life_step s (s\<lparr>wl_done := True\<rparr>)"
| exit: "life_step s (s\<lparr>wl_writer := writer_step StopWriter (wl_writer s)\<rparr>)" if "wl_done s" and "\<not> exited s"

inductive_cases life_stepE: "life_step s s'"

abbreviation life_run :: "writer_life \<Rightarrow> writer_life \<Rightarrow> bool" where
  "life_run \<equiv> life_step\<^sup>*\<^sup>*"

section \<open>What every run keeps\<close>

text \<open>A run of the protocol is a run of the writer, so conservation and the queue bound hold along it.\<close>

lemma life_step_writer: "life_step s s' \<Longrightarrow> \<exists>es. wl_writer s' = fold writer_step es (wl_writer s)"
  by (erule life_stepE)
    (auto intro: exI [of _ "[]"] exI [of _ "[FlushReq]"] exI [of _ "[StopWriter]"] exI [of _ "[e]" for e])

lemma life_run_writer: "life_run s s' \<Longrightarrow> \<exists>es. wl_writer s' = fold writer_step es (wl_writer s)"
proof (induction rule: rtranclp_induct)
  case base
  show ?case by (rule exI [of _ "[]"]) simp
next
  case (step s1 s2)
  then show ?case using life_step_writer [OF step.hyps(2)] by (metis fold_append comp_apply)
qed

lemma writer_step_exited: "w_stopped (fst wd) \<Longrightarrow> w_stopped (fst (writer_step e wd))"
  by (cases wd; cases e) (auto simp: case_prod_unfold)

lemma writer_step_running: "e \<noteq> StopWriter \<Longrightarrow> w_stopped (fst (writer_step e wd)) = w_stopped (fst wd)"
  by (cases wd; cases e) (auto simp: accumulate_def split: list.splits)

lemma life_step_exit_done: "life_step s s' \<Longrightarrow> exited s \<longrightarrow> wl_done s \<Longrightarrow> exited s' \<longrightarrow> wl_done s'"
  by (induction rule: life_step.induct) (auto simp: writer_step_running)

interpretation exit_after_done: transitions life_step "\<lambda>s. exited s \<longrightarrow> wl_done s"
  by unfold_locales (rule life_step_exit_done)

text \<open>A caller that is still sending when the goroutine is gone has lost its receiver for good.\<close>

lemma life_step_stuck: "life_step s s' \<Longrightarrow> exited s \<and> wl_callers s i = Some Sending \<Longrightarrow> exited s' \<and> wl_callers s' i = Some Sending"
  by (induction rule: life_step.induct) (auto simp: writer_step_exited)

interpretation stuck_caller: transitions life_step "\<lambda>s. exited s \<and> wl_callers s i = Some Sending" for i
  by unfold_locales (rule life_step_stuck)

section \<open>The contract of FlushCounters and Stop\<close>

text \<open>
  If the tenant of every waiting sample is on file, one drain and flush of a working engine brings them
  all into the table. If one of them is not, the flush commits nothing, whatever the engine does.
\<close>

definition accountable :: "usage_writer \<times> db \<Rightarrow> bool" where
  "accountable wd \<longleftrightarrow> key_tenants (w_accum (fst wd)) \<union> s_tenantID ` set (w_ch (fst wd)) \<subseteq> tenant_ids (snd wd)"

definition committed :: "usage_writer \<times> db \<Rightarrow> usage_writer \<times> db \<Rightarrow> bool" where
  "committed wd wd' \<longleftrightarrow> w_ch (fst wd') = [] \<and> w_accum (fst wd') = [] \<and>
     (\<forall>f k. wrap64 (row_sum f k (t_usage_counters (snd wd'))) = wrap64 (ledger f k wd))"

lemma flush_commits:
  "healthy (snd wd) \<Longrightarrow> accountable wd \<Longrightarrow> \<not> w_stopped (fst wd) \<Longrightarrow> e \<in> {FlushReq, StopWriter} \<Longrightarrow> committed wd (writer_step e wd)"
  using wrap64_row_sum_flush [of "snd wd" "fst wd"]
  by (cases wd) (auto simp: accountable_def committed_def case_prod_unfold)

lemma flush_refused:
  assumes "\<not> accountable wd" "e \<in> {FlushReq, StopWriter}"
  shows "t_usage_counters (snd (writer_step e wd)) = t_usage_counters (snd wd)"
proof (cases wd)
  case (Pair w d)
  then have "poisoned (drain w, d)" using assms(1) by (auto simp: accountable_def poisoned_def drain_def accumulate_keys)
  then show ?thesis using poisoned_flush assms(2) Pair by (auto simp: case_prod_unfold)
qed

definition flushed :: "usage_writer \<times> db \<Rightarrow> usage_writer \<times> db \<Rightarrow> bool" where
  "flushed wd wd' \<longleftrightarrow> (healthy (snd wd) \<and> accountable wd \<longrightarrow> committed wd wd') \<and>
     (\<not> accountable wd \<longrightarrow> t_usage_counters (snd wd') = t_usage_counters (snd wd))"

lemma flush_outcome: "\<not> w_stopped (fst wd) \<Longrightarrow> e \<in> {FlushReq, StopWriter} \<Longrightarrow> flushed wd (writer_step e wd)"
  unfolding flushed_def using flush_commits flush_refused by blast

text \<open>
  C36. \<open>FlushCounters\<close> and \<open>Stop\<close> under every interleaving. The protocol only ever does steps of the
  writer, so the ledger is conserved along it. A blocked \<open>FlushCounters\<close> is served by the goroutine
  as long as that has not exited, and \<open>Stop\<close> can complete from every state. On a database without failures
  both commit the whole ledger if the tenant of every waiting sample is on file; if one of these tenants
  is not, they leave the counters as they were. But a call that
  passed its check before \<open>Stop\<close> and is not yet served when the goroutine exits never returns, and from every state before
  the shutdown in which a caller blocks the run can go there.
\<close>

theorem flush_stop_protocol:
  assumes run: "life_run (started_writer (NewUsageWriter, d)) s"
  shows "(\<exists>es. wl_writer s = fold writer_step es (NewUsageWriter, d)) \<and> (exited s \<longrightarrow> wl_done s) \<and>
    (wl_callers s i = Some Sending \<and> \<not> exited s \<longrightarrow> (\<exists>s'. life_step s s' \<and> wl_callers s' i = Some Answered \<and> flushed (wl_writer s) (wl_writer s'))) \<and>
    (\<not> exited s \<longrightarrow> (\<exists>s'. life_run s s' \<and> exited s' \<and> wl_callers s' = wl_callers s \<and> flushed (wl_writer s) (wl_writer s'))) \<and>
    (wl_callers s i = Some Sending \<and> exited s \<longrightarrow> (\<forall>s'. life_run s s' \<longrightarrow> wl_callers s' i = Some Sending))"
proof (intro conjI impI)
  show "\<exists>es. wl_writer s = fold writer_step es (NewUsageWriter, d)"
    using life_run_writer [OF run] by (simp add: started_writer_def)
  show "wl_done s" if "exited s"
    using exit_after_done.run_keeps [OF run] that by (simp add: started_writer_def NewUsageWriter_def)
  show "\<exists>s'. life_step s s' \<and> wl_callers s' i = Some Answered \<and> flushed (wl_writer s) (wl_writer s')"
    if "wl_callers s i = Some Sending \<and> \<not> exited s"
    using serve [of s i] flush_outcome [of "wl_writer s" FlushReq] that by fastforce
  show "\<exists>s'. life_run s s' \<and> exited s' \<and> wl_callers s' = wl_callers s \<and> flushed (wl_writer s) (wl_writer s')"
    if "\<not> exited s"
  proof -
    let ?s1 = "s\<lparr>wl_done := True\<rparr>"
    let ?s2 = "?s1\<lparr>wl_writer := writer_step StopWriter (wl_writer s)\<rparr>"
    have "life_step s ?s1" by (rule Stop)
    moreover have "life_step ?s1 ?s2" using exit [of ?s1] that by simp
    ultimately have "life_run s ?s2" by (meson r_into_rtranclp rtranclp.rtrancl_into_rtrancl)
    moreover have "exited ?s2" using that by (cases "wl_writer s") (simp add: case_prod_unfold)
    ultimately show ?thesis using flush_outcome [of "wl_writer s" StopWriter] that by (intro exI [of _ ?s2]) simp
  qed
  show "\<forall>s'. life_run s s' \<longrightarrow> wl_callers s' i = Some Sending" if "wl_callers s i = Some Sending \<and> exited s"
    using stuck_caller.run_keeps that by blast
qed

theorem flush_stop_protocol_witness:
  "\<exists>s. life_run (started_writer (NewUsageWriter, demo_db)) s \<and> exited s \<and> (\<forall>s'. life_run s s' \<longrightarrow> wl_callers s' 0 = Some Sending)"
proof -
  let ?s0 = "started_writer (NewUsageWriter, demo_db)"
  let ?s1 = "?s0\<lparr>wl_callers := [0 \<mapsto> Sending]\<rparr>"
  have "life_step ?s0 ?s1" using call [of ?s0 0] by (simp add: started_writer_def)
  then have run1: "life_run ?s0 ?s1" by blast
  have "\<not> exited ?s1" by (simp add: started_writer_def NewUsageWriter_def)
  with flush_stop_protocol [OF run1] obtain s2 where s2: "life_run ?s1 s2" "exited s2" "wl_callers s2 = wl_callers ?s1" by blast
  have run2: "life_run ?s0 s2" using run1 s2(1) by (rule rtranclp_trans)
  then show ?thesis using flush_stop_protocol [OF run2, of 0] s2 by fastforce
qed

end
