(* ===== verification/Proxy_Shutdown.thy ===== *)
theory Proxy_Shutdown
  imports Gateway_Closed Usage_Lifecycle
begin

text \<open>
  The end of \<open>run\<close> (\<open>cmd/proxy/main.go\<close>) with everything that runs beside it: the three HTTP servers and
  the requests in flight, the syslog listener (the relation of \<^theory_text>\<open>Syslog_Listener\<close> on the shared state),
  the background loops, and the main goroutine from the signal through the draining of the servers,
  the wait group and the deferred calls to the closed database. The relation has one step for each
  thing that can happen next, so every interleaving of the shutdown with the traffic is a run.
\<close>

section \<open>A proxied request in two pieces\<close>

text \<open>
  A request can be cut off between its work on the store and the accounting at its end. The first
  piece yields the samples that the second will enqueue (at most one).
\<close>

definition account :: "counter_sample list \<Rightarrow> 'l gateway_state \<Rightarrow> 'l gateway_state" where
  "account ss s = s\<lparr>gs_store := (gs_store s)\<lparr>st_writer := fold record_sample ss (st_writer (gs_store s))\<rparr>\<rparr>"

definition otlp_work ::
  "('l, 'x) gateway \<Rightarrow> clock \<Rightarrow> ingest_request \<Rightarrow> (proxy_request \<Rightarrow> reply) \<Rightarrow> 'l gateway_state \<Rightarrow> counter_sample list \<times> 'l gateway_state" where
  "otlp_work g clk r upstream s =
     (case ServeHTTP (gw_ingest g) (gw_handler g) clk r upstream id ((ingest_of s)\<lparr>ig_writer := NewUsageWriter\<rparr>) of
        (_, _, i) \<Rightarrow> (w_ch (ig_writer i), put_ingest (i\<lparr>ig_writer := st_writer (gs_store s)\<rparr>) s))"

lemma limiter_check_writer:
  "limiter_check check (i\<lparr>ig_writer := w\<rparr>) = map_prod id (\<lambda>j. j\<lparr>ig_writer := w\<rparr>) (limiter_check check i)"
  by (simp add: limiter_check_def split: prod.splits)

lemma authenticate_writer:
  "authenticate now r (i\<lparr>ig_writer := w\<rparr>) = map_prod id (\<lambda>j. j\<lparr>ig_writer := w\<rparr>) (authenticate now r i)"
  by (simp add: authenticate_def Let_def split: prod.splits sum.splits option.splits)

lemma admit_writer:
  "admit env h clk r sig (i\<lparr>ig_writer := w\<rparr>) = map_prod id (\<lambda>j. j\<lparr>ig_writer := w\<rparr>) (admit env h clk r sig i)"
  by (simp add: admit_def authenticate_writer limiter_check_writer split: prod.splits sum.splits)

text \<open>A request treats the usage writer as a sink: it enqueues the same samples whatever the writer holds.\<close>

lemma ServeHTTP_samples:
  obtains i' ss where "length ss \<le> 1"
    "\<And>w. snd (snd (ServeHTTP env h clk r upstream id (i\<lparr>ig_writer := w\<rparr>))) = i'\<lparr>ig_writer := fold record_sample ss w\<rparr>"
proof (cases "(rq_Method r = ''GET'' \<and> rq_Path r = ''/healthz'') \<or> signal_of_path (rq_Path r) = None")
  case True
  then show thesis using that [of "[]" "if rq_Method r = ''GET'' \<and> rq_Path r = ''/healthz'' then snd (healthz i) else i"]
    by (auto simp: ServeHTTP_def healthz_def Let_def split: prod.splits)
next
  case False
  then obtain sig where sig: "signal_of_path (rq_Path r) = Some sig" by auto
  from False have other: "\<not> (rq_Method r = ''GET'' \<and> rq_Path r = ''/healthz'')" by blast
  note serve = ServeHTTP_def if_not_P [OF other] sig admit_writer
  obtain x i1 where adm: "admit env h clk r sig i = (x, i1)" by fastforce
  show thesis
  proof (cases x)
    case (Inl out)
    then show thesis using adm that [of "[]" i1] by (simp add: serve)
  next
    case (Inr y)
    then obtain t bs body where y: "x = Inr (t, bs, body)" by (cases y) auto
    obtain out sent code where p: "proxy_serve (Director h) ErrorHandler (rq_RemoteAddr r) (forward_request r body) upstream new_response
      = (out, sent, code)" by (metis prod_cases3)
    show thesis
    proof (cases out)
      case (Responded w)
      then show thesis
        using adm y p that [of "[usage_sample (at_usage clk) (ID t) sig (case code of None \<Rightarrow> 502 | Some c \<Rightarrow> c) (int (length bs))]" i1]
        by (simp add: serve RecordUsage_def)
    qed (use adm y p that [of "[]" i1] in \<open>simp_all add: serve\<close>)
  qed
qed

text \<open>The two pieces without anything between them are the request.\<close>

lemma otlp_pieces:
  assumes "otlp_work g clk r upstream s = (ss, s1)"
  shows "gateway_step g (OtlpRequest clk r upstream) s = account ss s1" "length ss \<le> 1"
    "st_writer (gs_store s1) = st_writer (gs_store s)" "gs_db s1 = gs_db (gateway_step g (OtlpRequest clk r upstream) s)"
    "gs_pool s1 = gs_pool s" "gs_counts s1 = gs_counts s" "gs_login s1 = gs_login s" "gs_dm s1 = gs_dm s"
proof -
  obtain i' ts where len: "length ts \<le> 1" and serve: "\<And>w. snd (snd (ServeHTTP (gw_ingest g) (gw_handler g) clk r upstream id ((ingest_of s)\<lparr>ig_writer := w\<rparr>)))
      = i'\<lparr>ig_writer := fold record_sample ts w\<rparr>"
    using ServeHTTP_samples [of "gw_ingest g" "gw_handler g" clk r upstream "ingest_of s"] by metis
  have own: "(ingest_of s)\<lparr>ig_writer := st_writer (gs_store s)\<rparr> = ingest_of s" by (simp add: ingest_of_def)
  have "w_ch (fold record_sample ts NewUsageWriter) = ts"
    using len by (cases ts) (auto simp: record_sample_def NewUsageWriter_def usageWriterBufferSize_def)
  then have ss: "ss = ts" and s1: "s1 = put_ingest (i'\<lparr>ig_writer := st_writer (gs_store s)\<rparr>) s"
    using assms serve [of NewUsageWriter] by (auto simp: otlp_work_def case_prod_unfold)
  have step: "gateway_step g (OtlpRequest clk r upstream) s = put_ingest (i'\<lparr>ig_writer := fold record_sample ts (st_writer (gs_store s))\<rparr>) s"
    using serve [of "st_writer (gs_store s)"] by (simp add: own gateway_step_def otlp_def)
  show "gateway_step g (OtlpRequest clk r upstream) s = account ss s1" "length ss \<le> 1"
    "st_writer (gs_store s1) = st_writer (gs_store s)" "gs_db s1 = gs_db (gateway_step g (OtlpRequest clk r upstream) s)"
    "gs_pool s1 = gs_pool s" "gs_counts s1 = gs_counts s" "gs_login s1 = gs_login s" "gs_dm s1 = gs_dm s"
    using len by (simp_all add: step ss s1 account_def put_ingest_def)
qed

section \<open>The process\<close>

text \<open>
  Where the main goroutine is: waiting for the signal; in the two calls of \<open>Shutdown\<close>; at \<open>wg.Wait\<close>; in
  \<open>dl.Stop\<close>; in the deferred \<open>lim.Stop\<close> and \<open>st.Close\<close> (which stops the usage writer, then closes the
  database); or done.
\<close>

datatype main_phase = Up | DrainProxy | DrainAdmin | JoinAll | StopDownloads | StopLimiter | CloseStore | CloseDatabase | Closed

primrec main_rank :: "main_phase \<Rightarrow> nat" where
  "main_rank Up = 0"
| "main_rank DrainProxy = 1"
| "main_rank DrainAdmin = 2"
| "main_rank JoinAll = 3"
| "main_rank StopDownloads = 4"
| "main_rank StopLimiter = 5"
| "main_rank CloseStore = 6"
| "main_rank CloseDatabase = 7"
| "main_rank Closed = 8"

instantiation main_phase :: linorder
begin

definition less_eq_main_phase :: "main_phase \<Rightarrow> main_phase \<Rightarrow> bool" where
  "less_eq_main_phase a b \<longleftrightarrow> main_rank a \<le> main_rank b"

definition less_main_phase :: "main_phase \<Rightarrow> main_phase \<Rightarrow> bool" where
  "less_main_phase a b \<longleftrightarrow> main_rank a < main_rank b"

instance
proof
  show "a = b" if "a \<le> b" "b \<le> a" for a b :: main_phase
    using that by (cases a; cases b) (simp_all add: less_eq_main_phase_def)
qed (auto simp: less_eq_main_phase_def less_main_phase_def)

end

datatype server = ProxyServer | AdminServer | RenewalServer

datatype loop = RetentionLoop | LimiterLoop | DownloadLoop | WriterLoop

text \<open>
  \<open>pr_listening\<close>: the HTTP servers that accept requests; the goroutine of a server ends when it stops.
  \<open>pr_active\<close>: requests whose handler runs; \<open>pr_pending\<close>: proxied requests that only have to account
  their usage. \<open>pr_expired\<close>: the ten seconds that the two calls of \<open>Shutdown\<close> share are over.
\<close>

record 'l process =
  pr_phase :: main_phase
  pr_expired :: bool
  pr_loops :: "loop set"
  pr_listening :: "server set"
  pr_active :: "(server \<times> gateway_event) list"
  pr_pending :: "counter_sample list list"
  pr_syslog :: "'l listener option"
  pr_state :: "'l gateway_state"

fun serves :: "server \<Rightarrow> gateway_event \<Rightarrow> bool" where
  "serves ProxyServer (OtlpRequest _ _ _) = True"
| "serves AdminServer (AdminRequest _ _) = True"
| "serves RenewalServer (RenewRequest _ _ _ _ _ _ _) = True"
| "serves _ _ = False"

fun turn_of :: "loop \<Rightarrow> gateway_event \<Rightarrow> bool" where
  "turn_of RetentionLoop (RetentionTurn _) = True"
| "turn_of LimiterLoop (LimiterTurn _) = True"
| "turn_of DownloadLoop (DownloadTurn _) = True"
| "turn_of WriterLoop (WriterTurn e) = (e \<in> {Recv, FlushReq, Tick})"
| "turn_of _ _ = False"

definition idle :: "server \<Rightarrow> 'l process \<Rightarrow> bool" where
  "idle srv p \<longleftrightarrow> srv \<notin> fst ` set (pr_active p) \<and> (srv = ProxyServer \<longrightarrow> pr_pending p = [])"

definition syslog_joined :: "'l process \<Rightarrow> bool" where
  "syslog_joined p \<longleftrightarrow> (case pr_syslog p of None \<Rightarrow> True | Some l \<Rightarrow> ln_phase l = listen_phase.Returned)"

text \<open>What a handler sees of the store: after the database is closed every statement fails.\<close>

definition seen :: "nat \<Rightarrow> 'l process \<Rightarrow> 'l gateway_state" where
  "seen n p = (if pr_phase p = Closed then put_db (refusing n (gs_db (pr_state p))) (pr_state p) else pr_state p)"

definition refused :: "'l process \<Rightarrow> 'l gateway_state \<Rightarrow> bool" where
  "refused p s \<longleftrightarrow> (pr_phase p = Closed \<longrightarrow> db_faults (gs_db s) \<noteq> [])"

text \<open>
  Traffic and background work. A server can stop at any time because listening fails; the error is
  only logged. The renewal server stops in the same way when the context is cancelled: nothing waits
  for its handlers.
\<close>

inductive traffic_step :: "('l, 'x) gateway \<Rightarrow> 'l process \<Rightarrow> 'l process \<Rightarrow> bool" for g where
  arrive: "traffic_step g p (p\<lparr>pr_active := (srv, e) # pr_active p\<rparr>)" if "srv \<in> pr_listening p" and "serves srv e"
| proxied: "traffic_step g p (p\<lparr>pr_active := remove1 (ProxyServer, e) (pr_active p), pr_pending := ss # pr_pending p, pr_state := s\<rparr>)"
    if "(ProxyServer, e) \<in> set (pr_active p)" and "e = OtlpRequest clk r upstream"
    and "otlp_work g clk r upstream (seen n p) = (ss, s)" and "refused p s"
| accounted: "traffic_step g p (p\<lparr>pr_pending := remove1 ss (pr_pending p), pr_state := account ss (pr_state p)\<rparr>)"
    if "ss \<in> set (pr_pending p)"
| handled: "traffic_step g p (p\<lparr>pr_active := remove1 (srv, e) (pr_active p), pr_state := s\<rparr>)"
    if "(srv, e) \<in> set (pr_active p)" and "srv \<noteq> ProxyServer" and "serves srv e"
    and "s = gateway_step g e (seen n p)" and "refused p s"
| turn: "traffic_step g p (p\<lparr>pr_state := gateway_step g e (pr_state p)\<rparr>)" if "l \<in> pr_loops p" and "turn_of l e"
| failures: "traffic_step g p (p\<lparr>pr_state := gateway_step g e (pr_state p)\<rparr>)"
    if "pr_phase p \<noteq> Closed" and "e = EngineFaults fs \<or> e = NetworkFaults ds ws"
| syslog: "traffic_step g p (p\<lparr>pr_syslog := Some l', pr_state := put_syslog (ln_state l') (pr_state p)\<rparr>)"
    if "pr_syslog p = Some l" and "gw_syslog g = Some cfg"
    and "listen_step (ie_rate (gw_ingest g)) cfg (l\<lparr>ln_state := syslog_of (pr_state p)\<rparr>) l'"
    and "ln_cancelled l' \<longrightarrow> pr_phase p \<noteq> Up"
| stop_serving: "traffic_step g p (p\<lparr>pr_listening := pr_listening p - {srv}\<rparr>)"
| syslog_fails: "traffic_step g p (p\<lparr>pr_syslog := None\<rparr>)" if "pr_syslog p = Some l" and "l = listening (ln_state l)"

text \<open>The main goroutine, and the goroutines that end because of it.\<close>

inductive main_step :: "('l, 'x) gateway \<Rightarrow> 'l process \<Rightarrow> 'l process \<Rightarrow> bool" for g where
  signal: "main_step g p (p\<lparr>pr_phase := DrainProxy, pr_listening := pr_listening p - {ProxyServer}\<rparr>)" if "pr_phase p = Up"
| expire: "main_step g p (p\<lparr>pr_expired := True\<rparr>)" if "pr_phase p \<noteq> Up"
| proxy_drained: "main_step g p (p\<lparr>pr_phase := DrainAdmin, pr_listening := pr_listening p - {AdminServer}\<rparr>)"
    if "pr_phase p = DrainProxy" and "idle ProxyServer p \<or> pr_expired p"
| admin_drained: "main_step g p (p\<lparr>pr_phase := JoinAll\<rparr>)" if "pr_phase p = DrainAdmin" and "idle AdminServer p \<or> pr_expired p"
| retention_ends: "main_step g p (p\<lparr>pr_loops := pr_loops p - {RetentionLoop}\<rparr>)" if "pr_phase p \<noteq> Up"
| joined_all: "main_step g p (p\<lparr>pr_phase := StopDownloads\<rparr>)"
    if "pr_phase p = JoinAll" and "RetentionLoop \<notin> pr_loops p" and "pr_listening p = {}" and "syslog_joined p"
| downloads_stopped: "main_step g p (p\<lparr>pr_phase := StopLimiter, pr_loops := pr_loops p - {DownloadLoop}\<rparr>)" if "pr_phase p = StopDownloads"
| limiter_stopped: "main_step g p (p\<lparr>pr_phase := CloseStore, pr_loops := pr_loops p - {LimiterLoop}\<rparr>)" if "pr_phase p = StopLimiter"
| writer_stopped: "main_step g p (p\<lparr>pr_phase := CloseDatabase, pr_loops := pr_loops p - {WriterLoop},
      pr_state := gateway_step g (WriterTurn StopWriter) (pr_state p)\<rparr>)" if "pr_phase p = CloseStore"
| database_closed: "main_step g p (p\<lparr>pr_phase := Closed\<rparr>)" if "pr_phase p = CloseDatabase"

abbreviation process_step :: "('l, 'x) gateway \<Rightarrow> 'l process \<Rightarrow> 'l process \<Rightarrow> bool" where
  "process_step g \<equiv> \<lambda>p p'. traffic_step g p p' \<or> main_step g p p'"

abbreviation process_run :: "('l, 'x) gateway \<Rightarrow> 'l process \<Rightarrow> 'l process \<Rightarrow> bool" where
  "process_run g \<equiv> (process_step g)\<^sup>*\<^sup>*"

text \<open>The process that \<open>run\<close> has started.\<close>

definition started_process :: "app \<Rightarrow> 'l process" where
  "started_process a = \<lparr>pr_phase = Up, pr_expired = False,
     pr_loops = {RetentionLoop, LimiterLoop, WriterLoop} \<union> (if CAEnabled (app_config a) then {DownloadLoop} else {}),
     pr_listening = {ProxyServer, AdminServer} \<union> (if app_renewal a = None then {} else {RenewalServer}),
     pr_active = [], pr_pending = [], pr_syslog = map_option (\<lambda>_. listening (syslog_of (started a))) (app_syslog a),
     pr_state = started a\<rparr>"

section \<open>What the steps keep of the shared state\<close>

lemma syslog_of_put [simp]: "syslog_of (put_syslog y s) = y"
  by (simp add: syslog_of_def put_syslog_def)

lemma gateway_inv_syslog:
  assumes "gateway_inv s" "forwarding_ok y" "sy_counts y = Map.empty" "db_inv (sy_db y)"
  shows "gateway_inv (put_syslog y s)"
  using assms by (simp add: gateway_inv_def put_syslog_def forwarding_ok_def store_inv_def writer_bounded_def)

lemma gateway_inv_refusing: "gateway_inv (put_db (refusing n (gs_db s)) s) = gateway_inv s"
  by (simp add: gateway_inv_def put_db_def refusing_def store_inv_def writer_bounded_def)

lemma seen_inv: "gateway_inv (seen n p) = gateway_inv (pr_state p)"
  by (simp add: seen_def gateway_inv_refusing)

lemma seen_rest [simp]: "gs_pool (seen n p) = gs_pool (pr_state p)" "st_writer (gs_store (seen n p)) = st_writer (gs_store (pr_state p))"
  by (simp_all add: seen_def put_db_def)

lemma record_samples:
  "writer_bounded (w, d) \<Longrightarrow> w_stopped (fold record_sample ss w) = w_stopped w \<and> writer_bounded (fold record_sample ss w, d)"
proof (induction ss arbitrary: w)
  case (Cons x ss)
  have "writer_bounded (record_sample x w, d)" using Cons.prems by (auto simp: writer_bounded_def record_sample_def)
  then show ?case using Cons.IH [of "record_sample x w"] by simp
qed simp

lemma account_keeps:
  assumes "gateway_inv s"
  shows "gateway_inv (account ss s)" "gs_db (account ss s) = gs_db s" "gs_pool (account ss s) = gs_pool s"
    "w_stopped (st_writer (gs_store (account ss s))) = w_stopped (st_writer (gs_store s))"
  using assms record_samples [of "st_writer (gs_store s)" "gs_db s" ss]
  by (auto simp: account_def gateway_inv_def store_inv_def)

lemma work_keeps:
  assumes "otlp_work g clk r upstream s = (ss, s1)" and "gateway_inv s"
  shows "gateway_inv s1" "gs_pool s1 = gs_pool s" "w_stopped (st_writer (gs_store s1)) = w_stopped (st_writer (gs_store s))"
    "st_writer (gs_store s1) = st_writer (gs_store s)"
proof -
  note w = otlp_pieces [OF assms(1)]
  have "db_inv (gs_db s1)" unfolding w(4) using gateway_step_inv [OF assms(2), of g "OtlpRequest clk r upstream"] by (simp add: gateway_inv_def store_inv_def)
  then show "gateway_inv s1" using assms(2) w by (simp add: gateway_inv_def store_inv_def writer_bounded_def)
qed (use otlp_pieces [OF assms(1)] in simp_all)

text \<open>Events other than a syslog connection leave the collector connections alone, and only \<open>Stop\<close> stops the writer.\<close>

lemma step_keeps_pool:
  "\<forall>clk conn. e \<noteq> SyslogConnection clk conn \<Longrightarrow> nt_open (snd (gs_pool (gateway_step g e s))) = nt_open (snd (gs_pool s))"
  by (cases e) (auto simp: gateway_step_def put_db_def put_web_def put_ingest_def split: option.splits)

lemma step_keeps_writer:
  assumes "serves srv e \<and> srv \<noteq> ProxyServer \<or> turn_of l e \<and> l \<noteq> WriterLoop \<or> e = EngineFaults fs \<or> e = NetworkFaults ds ws"
  shows "st_writer (gs_store (gateway_step g e s)) = st_writer (gs_store s)"
  using assms by (cases e; cases srv; cases l) (auto simp: gateway_step_def put_db_def put_web_def split: option.splits)

lemma writer_turn:
  "st_writer (gs_store (gateway_step g (WriterTurn e) s)) = fst (writer_step e (st_writer (gs_store s), gs_db s))"
  "gs_db (gateway_step g (WriterTurn e) s) = snd (writer_step e (st_writer (gs_store s), gs_db s))"
  by (simp_all add: gateway_step_def store_step_def case_prod_unfold)

section \<open>What the syslog server keeps\<close>

context store_service
begin

lemma listen_keeps: "listen_step ops cfg l l' \<Longrightarrow> P (sy_db (ln_state l)) (sy_db (ln_state l'))"
  by (induction rule: listen_step.induct) (simp_all add: same connection_keeps)

end

lemma connection_stopped: "w_stopped (sy_writer (snd (handleConnection ops cfg clk conn s))) = w_stopped (sy_writer s)"
proof (cases rule: handleConnection_cases [of ops cfg clk conn s])
  case (slot leaf rest t d counts)
  have "w_stopped (sy_writer s3) = w_stopped (sy_writer s)"
    if "serve_frames ops m t clk 2 str (s\<lparr>sy_db := d, sy_counts := counts\<rparr>) = (err, dn, s3)" for m str err dn s3
  proof -
    have "w_stopped (sy_writer s3) = w_stopped (sy_writer (s\<lparr>sy_db := d, sy_counts := counts\<rparr>))"
      by (rule serve_frames_relation [OF that, where Q = "\<lambda>a b. w_stopped (sy_writer b) = w_stopped (sy_writer a)"])
        (simp_all add: handle_frame_effect(2) RecordUsage_def record_sample_def)
    then show ?thesis by simp
  qed
  then show ?thesis by (auto simp: slot(4) Let_def split: prod.splits)
qed simp

lemma listen_step_stopped: "listen_step ops cfg l l' \<Longrightarrow> w_stopped (sy_writer (ln_state l')) = w_stopped (sy_writer (ln_state l))"
  by (induction rule: listen_step.induct) (simp_all add: connection_stopped)

text \<open>After it has returned, nothing but its flags changes.\<close>

lemma listen_step_returned:
  "listen_step ops cfg l l' \<Longrightarrow> ln_phase l = listen_phase.Returned \<and> ln_running l = [] \<Longrightarrow>
     ln_state l' = ln_state l \<and> ln_phase l' = listen_phase.Returned"
  by (induction rule: listen_step.induct) auto

lemma listener_inv_state:
  assumes "listener_inv cfg (l\<lparr>ln_state := syslog_of s\<rparr>)" and "gateway_inv s'"
    and "nt_open (snd (gs_pool s')) = nt_open (snd (gs_pool s))"
  shows "listener_inv cfg (l\<lparr>ln_state := syslog_of s'\<rparr>)"
  using assms by (simp add: listener_inv_def forwarding_ok_def syslog_of_def gateway_inv_def store_inv_def writer_bounded_def)

section \<open>The order of the shutdown\<close>

text \<open>
  What each phase of the main goroutine may rely on. The listener's own invariant is taken over the
  shared state.
\<close>

definition ordered :: "'l process \<Rightarrow> bool" where
  "ordered p \<longleftrightarrow>
     (DrainProxy \<le> pr_phase p \<longrightarrow> ProxyServer \<notin> pr_listening p) \<and>
     (DrainAdmin \<le> pr_phase p \<longrightarrow> AdminServer \<notin> pr_listening p \<and> (idle ProxyServer p \<or> pr_expired p)) \<and>
     (JoinAll \<le> pr_phase p \<longrightarrow> idle AdminServer p \<or> pr_expired p) \<and>
     (StopDownloads \<le> pr_phase p \<longrightarrow> RetentionLoop \<notin> pr_loops p \<and> pr_listening p = {} \<and> syslog_joined p) \<and>
     (StopLimiter \<le> pr_phase p \<longrightarrow> DownloadLoop \<notin> pr_loops p) \<and>
     (CloseStore \<le> pr_phase p \<longrightarrow> LimiterLoop \<notin> pr_loops p) \<and>
     (CloseDatabase \<le> pr_phase p \<longrightarrow> WriterLoop \<notin> pr_loops p) \<and>
     (w_stopped (st_writer (gs_store (pr_state p))) \<longleftrightarrow> CloseDatabase \<le> pr_phase p)"

definition syslog_ok :: "('l, 'x) gateway \<Rightarrow> 'l process \<Rightarrow> bool" where
  "syslog_ok g p \<longleftrightarrow> (\<forall>l. pr_syslog p = Some l \<longrightarrow>
     (\<exists>cfg. gw_syslog g = Some cfg \<and> listener_inv cfg (l\<lparr>ln_state := syslog_of (pr_state p)\<rparr>)) \<and> (ln_cancelled l \<longrightarrow> pr_phase p \<noteq> Up))"

definition process_inv :: "('l, 'x) gateway \<Rightarrow> 'l process \<Rightarrow> bool" where
  "process_inv g p \<longleftrightarrow> gateway_inv (pr_state p) \<and> syslog_ok g p \<and> ordered p"

lemmas phase_order = less_eq_main_phase_def

lemma idle_fewer:
  "idle srv p \<Longrightarrow> idle srv (p\<lparr>pr_active := remove1 x (pr_active p)\<rparr>)"
  "idle srv p \<Longrightarrow> idle srv (p\<lparr>pr_pending := remove1 ss (pr_pending p)\<rparr>)"
  using set_remove1_subset [of x "pr_active p"] by (auto simp: idle_def)

text \<open>Steps of the traffic change the shared state and the requests in flight.\<close>

lemma process_inv_traffic:
  assumes inv: "process_inv g p" and s: "gateway_inv (pr_state p')"
      "nt_open (snd (gs_pool (pr_state p'))) = nt_open (snd (gs_pool (pr_state p)))"
      "w_stopped (st_writer (gs_store (pr_state p'))) = w_stopped (st_writer (gs_store (pr_state p)))"
    and idle: "\<And>srv. idle srv p \<Longrightarrow> srv \<notin> pr_listening p \<Longrightarrow> idle srv p'"
    and rest: "pr_phase p' = pr_phase p" "pr_expired p' = pr_expired p" "pr_loops p' = pr_loops p" "pr_listening p' = pr_listening p"
      "pr_syslog p' = pr_syslog p"
  shows "process_inv g p'"
proof -
  have "syslog_ok g p'"
    using inv listener_inv_state [OF _ s(1,2)] unfolding process_inv_def syslog_ok_def rest by blast
  moreover have "ordered p'"
  proof -
    have o: "ordered p" using inv by (simp add: process_inv_def)
    have less: "DrainAdmin \<le> pr_phase p \<longrightarrow> DrainProxy \<le> pr_phase p" "JoinAll \<le> pr_phase p \<longrightarrow> DrainAdmin \<le> pr_phase p"
      by (cases "pr_phase p"; simp add: phase_order)+
    have "idle ProxyServer p' \<or> pr_expired p" if "DrainAdmin \<le> pr_phase p" using o that less(1) idle unfolding ordered_def by blast
    moreover have "idle AdminServer p' \<or> pr_expired p" if "JoinAll \<le> pr_phase p" using o that less(2) idle unfolding ordered_def by blast
    ultimately show ?thesis using o unfolding ordered_def syslog_joined_def rest s(3) by blast
  qed
  ultimately show ?thesis using s(1) by (simp add: process_inv_def)
qed

lemma serves_other: "serves srv e \<Longrightarrow> srv \<noteq> ProxyServer \<Longrightarrow> \<forall>clk conn. e \<noteq> SyslogConnection clk conn"
  by (cases e) simp_all

lemma turn_other: "turn_of l e \<Longrightarrow> \<forall>clk conn. e \<noteq> SyslogConnection clk conn"
  by (cases l; cases e) simp_all

lemma turn_stopped:
  assumes "turn_of l e"
  shows "w_stopped (st_writer (gs_store (gateway_step g e s))) = w_stopped (st_writer (gs_store s))"
proof (cases "l = WriterLoop")
  case True
  then obtain we where "e = WriterTurn we" "we \<in> {Recv, FlushReq, Tick}" using assms by (cases e) simp_all
  then show ?thesis using writer_step_running [of we "(st_writer (gs_store s), gs_db s)"]
    by (auto simp: writer_turn simp del: writer_step.simps)
next
  case False
  then show ?thesis using assms step_keeps_writer [of _ e l] by metis
qed

lemma syslog_step_inv:
  assumes inv: "process_inv g p" and l: "pr_syslog p = Some l" "gw_syslog g = Some cfg" "ln_cancelled l' \<longrightarrow> pr_phase p \<noteq> Up"
    and step: "listen_step (ie_rate (gw_ingest g)) cfg (l\<lparr>ln_state := syslog_of (pr_state p)\<rparr>) l'"
  shows "process_inv g (p\<lparr>pr_syslog := Some l', pr_state := put_syslog (ln_state l') (pr_state p)\<rparr>)"
proof -
  have g: "gateway_inv (pr_state p)" and li: "listener_inv cfg (l\<lparr>ln_state := syslog_of (pr_state p)\<rparr>)" and o: "ordered p"
    using inv l by (auto simp: process_inv_def syslog_ok_def)
  have li': "listener_inv cfg l'" by (rule listen_step_inv [OF step li])
  have "db_inv (gs_db (pr_state p))" using g by (simp add: gateway_inv_def store_inv_def)
  then have "db_inv (sy_db (ln_state l'))" using gateway_store.listen_keeps [OF step] by (simp add: syslog_of_def)
  then have g': "gateway_inv (put_syslog (ln_state l') (pr_state p))"
    using gateway_inv_syslog [OF g] li' by (simp add: listener_inv_def)
  have w: "w_stopped (st_writer (gs_store (put_syslog (ln_state l') (pr_state p)))) = w_stopped (st_writer (gs_store (pr_state p)))"
    using listen_step_stopped [OF step] by (simp add: put_syslog_def syslog_of_def)
  have "syslog_joined (p\<lparr>pr_syslog := Some l'\<rparr>)" if "syslog_joined p"
    using listen_step_returned [OF step] that li l(1) by (simp add: syslog_joined_def listener_inv_def)
  then have "ordered (p\<lparr>pr_syslog := Some l', pr_state := put_syslog (ln_state l') (pr_state p)\<rparr>)"
    using o w by (simp add: ordered_def idle_def syslog_joined_def)
  then show ?thesis using g' li' l(2,3) by (simp add: process_inv_def syslog_ok_def)
qed

lemma traffic_step_inv: "traffic_step g p p' \<Longrightarrow> process_inv g p \<Longrightarrow> process_inv g p'"
proof (induction rule: traffic_step.induct)
  case (arrive srv p e)
  then show ?case by (intro process_inv_traffic [OF arrive.prems]) (auto simp: process_inv_def idle_def)
next
  case (proxied e p clk r upstream n ss s)
  have "gateway_inv (seen n p)" using proxied.prems by (simp add: process_inv_def seen_inv)
  from work_keeps [OF proxied.hyps(3) this] proxied.hyps(1) show ?case
    by (intro process_inv_traffic [OF proxied.prems])
       (auto simp: idle_def image_iff dest: in_set_remove1 [THEN iffD1, rotated] notin_set_remove1 set_remove1_subset [THEN subsetD])
next
  case (accounted ss p)
  have g: "gateway_inv (pr_state p)" using accounted.prems by (simp add: process_inv_def)
  show ?case using account_keeps [OF g, of ss] accounted.hyps
    by (intro process_inv_traffic [OF accounted.prems]) (auto simp: idle_def)
next
  case (handled srv e p s n)
  have "gateway_inv (seen n p)" using handled.prems by (simp add: process_inv_def seen_inv)
  then have "gateway_inv s" using gateway_step_inv handled.hyps(4) by blast
  then show ?case
    using step_keeps_pool [OF serves_other [OF handled.hyps(3,2)], of g "seen n p"] step_keeps_writer [of srv e _ _ _ _ g "seen n p"] handled.hyps
    by (intro process_inv_traffic [OF handled.prems])
       (auto simp: idle_def dest: set_remove1_subset [THEN subsetD])
next
  case (turn l p e)
  have "gateway_inv (pr_state p)" using turn.prems by (simp add: process_inv_def)
  then show ?case
    using step_keeps_pool [OF turn_other [OF turn.hyps(2)], of g "pr_state p"] turn_stopped [OF turn.hyps(2), of g "pr_state p"] gateway_step_inv
    by (intro process_inv_traffic [OF turn.prems]) (auto simp: idle_def)
next
  case (failures p e fs ds ws)
  have "gateway_inv (pr_state p)" using failures.prems by (simp add: process_inv_def)
  moreover have "\<forall>clk conn. e \<noteq> SyslogConnection clk conn" using failures.hyps(2) by auto
  ultimately show ?case
    using step_keeps_pool [of e g "pr_state p"] step_keeps_writer [of _ e _ fs ds ws g "pr_state p"] failures.hyps(2) gateway_step_inv
    by (intro process_inv_traffic [OF failures.prems]) (auto simp: idle_def)
next
  case (syslog p l cfg l')
  then show ?case using syslog_step_inv by blast
next
  case (stop_serving p srv)
  then show ?case by (auto simp: process_inv_def syslog_ok_def ordered_def idle_def syslog_joined_def)
next
  case (syslog_fails p l)
  then show ?case by (auto simp: process_inv_def syslog_ok_def ordered_def idle_def syslog_joined_def)
qed

lemma main_step_inv: "main_step g p p' \<Longrightarrow> process_inv g p \<Longrightarrow> process_inv g p'"
proof (induction rule: main_step.induct)
  case (writer_stopped p)
  have g: "gateway_inv (pr_state p)" "\<not> w_stopped (st_writer (gs_store (pr_state p)))"
    using writer_stopped by (simp_all add: process_inv_def ordered_def phase_order)
  let ?s = "gateway_step g (WriterTurn StopWriter) (pr_state p)"
  have "w_stopped (st_writer (gs_store ?s))" using g(2) by (simp add: writer_turn case_prod_unfold)
  moreover have "gateway_inv ?s" by (rule gateway_step_inv [OF g(1)])
  moreover have "nt_open (snd (gs_pool ?s)) = nt_open (snd (gs_pool (pr_state p)))" by (rule step_keeps_pool) simp
  ultimately show ?case
    using writer_stopped listener_inv_state [where s = "pr_state p" and s' = ?s]
    by (auto simp: process_inv_def syslog_ok_def ordered_def idle_def syslog_joined_def phase_order)
qed (auto simp: process_inv_def syslog_ok_def ordered_def idle_def syslog_joined_def phase_order)

interpretation process: transitions "process_step g" "process_inv g" for g
  by unfold_locales (auto intro: traffic_step_inv main_step_inv)

section \<open>The shutdown can always complete\<close>

lemma put_syslog_of [simp]: "put_syslog (syslog_of s) s = s"
  by (simp add: put_syslog_def syslog_of_def)

lemma listener_runs:
  assumes "listen_run (ie_rate (gw_ingest g)) cfg l l'" and "ln_state l = syslog_of (pr_state p)" "pr_syslog p = Some l"
    and "gw_syslog g = Some cfg" "pr_phase p \<noteq> Up"
  shows "\<exists>s. process_run g p (p\<lparr>pr_syslog := Some l', pr_state := s\<rparr>) \<and> syslog_of s = ln_state l'"
  using assms(1)
proof (induction rule: rtranclp_induct)
  case base
  have "p\<lparr>pr_syslog := Some l, pr_state := pr_state p\<rparr> = p" using assms(3) by (cases p) simp
  then show ?case using assms(2) by (intro exI [of _ "pr_state p"]) simp
next
  case (step l1 l2)
  then obtain s where s: "process_run g p (p\<lparr>pr_syslog := Some l1, pr_state := s\<rparr>)" "syslog_of s = ln_state l1" by blast
  let ?q = "p\<lparr>pr_syslog := Some l1, pr_state := s\<rparr>"
  have "traffic_step g ?q (?q\<lparr>pr_syslog := Some l2, pr_state := put_syslog (ln_state l2) (pr_state ?q)\<rparr>)"
    by (rule traffic_step.syslog [where l = l1 and cfg = cfg]) (use assms(4,5) s(2) step.hyps(2) in simp_all)
  then have "process_run g p (p\<lparr>pr_syslog := Some l2, pr_state := put_syslog (ln_state l2) s\<rparr>)"
    using s(1) by (auto intro: rtranclp.rtrancl_into_rtrancl)
  then show ?case by (intro exI [of _ "put_syslog (ln_state l2) s"]) simp
qed

text \<open>\<open>cut_off\<close>: the requests in flight are left as they are, and time runs out only if the servers are not idle.\<close>

definition cut_off :: "'l process \<Rightarrow> 'l process \<Rightarrow> bool" where
  "cut_off p p' \<longleftrightarrow> pr_active p' = pr_active p \<and> pr_pending p' = pr_pending p \<and>
     (idle ProxyServer p \<and> idle AdminServer p \<longrightarrow> pr_expired p' = pr_expired p)"

lemma syslog_ends:
  assumes "process_inv g p" and "pr_phase p \<noteq> Up"
  obtains p' where "process_run g p p'" "syslog_joined p'" "cut_off p p'" "pr_phase p' = pr_phase p" "pr_loops p' = pr_loops p"
    "pr_listening p' = pr_listening p"
proof (cases "pr_syslog p")
  case None
  then show thesis using that [of p] by (simp add: syslog_joined_def cut_off_def)
next
  case (Some l)
  then obtain cfg where cfg: "gw_syslog g = Some cfg" using assms(1) by (auto simp: process_inv_def syslog_ok_def)
  let ?l = "l\<lparr>ln_state := syslog_of (pr_state p), ln_cancelled := True\<rparr>"
  let ?p = "p\<lparr>pr_syslog := Some ?l, pr_state := put_syslog (ln_state ?l) (pr_state p)\<rparr>"
  have "traffic_step g p ?p"
    by (rule traffic_step.syslog [OF Some cfg]) (use assms(2) listen_step.cancel in simp_all)
  then have first: "process_run g p ?p" by blast
  obtain l' where l': "listen_run (ie_rate (gw_ingest g)) cfg ?l l'" "ln_phase l' = listen_phase.Returned" by (rule shutdown_completes)
  obtain s where "process_run g ?p (?p\<lparr>pr_syslog := Some l', pr_state := s\<rparr>)"
    using listener_runs [OF l'(1), of ?p] cfg assms(2) by auto
  with first have run: "process_run g p (?p\<lparr>pr_syslog := Some l', pr_state := s\<rparr>)" by (rule rtranclp_trans)
  show thesis by (rule that [OF run]) (simp_all add: syslog_joined_def cut_off_def idle_def l'(2))
qed

lemma servers_end: "process_run g p (p\<lparr>pr_listening := {}\<rparr>)"
proof -
  have stop: "process_step g (p\<lparr>pr_listening := X\<rparr>) (p\<lparr>pr_listening := X - {srv}\<rparr>)" for X srv
    using stop_serving [of g "p\<lparr>pr_listening := X\<rparr>" srv] by simp
  have all: "(((X - {ProxyServer}) - {AdminServer}) - {RenewalServer}) = {}" for X
  proof -
    have "x = ProxyServer \<or> x = AdminServer \<or> x = RenewalServer" for x by (cases x) simp_all
    then show ?thesis by blast
  qed
  let ?X = "pr_listening p"
  have "process_run g (p\<lparr>pr_listening := ?X\<rparr>) (p\<lparr>pr_listening := ?X - {ProxyServer}\<rparr>)" using stop by (rule r_into_rtranclp)
  also have "process_run g \<dots> (p\<lparr>pr_listening := ?X - {ProxyServer} - {AdminServer}\<rparr>)" using stop by (rule r_into_rtranclp)
  also have "process_run g \<dots> (p\<lparr>pr_listening := ?X - {ProxyServer} - {AdminServer} - {RenewalServer}\<rparr>)"
    using stop by (rule r_into_rtranclp)
  finally show ?thesis by (simp add: all)
qed

lemma drained:
  assumes "pr_phase p \<noteq> Up" and "srv \<noteq> RenewalServer"
  obtains p' where "process_run g p p'" "cut_off p p'" "idle srv p' \<or> pr_expired p'" "pr_phase p' = pr_phase p"
proof (cases "idle ProxyServer p \<and> idle AdminServer p \<and> idle srv p")
  case True
  then show thesis using that [of p] by (simp add: cut_off_def)
next
  case False
  have "process_run g p (p\<lparr>pr_expired := True\<rparr>)" using expire [OF assms(1)] by blast
  then show thesis using False that [of "p\<lparr>pr_expired := True\<rparr>"] assms(2) by (cases srv) (auto simp: cut_off_def)
qed

lemma cut_off_trans: "cut_off p q \<Longrightarrow> cut_off q r \<Longrightarrow> cut_off p r"
  by (auto simp: cut_off_def idle_def)

lemma main_run: "main_step g p p' \<Longrightarrow> process_run g p p'"
  by blast

lemma next_phase:
  assumes inv: "process_inv g p" and "pr_phase p \<noteq> Closed"
  obtains p' where "process_run g p p'" "cut_off p p'" "main_rank (pr_phase p') = Suc (main_rank (pr_phase p))"
proof (cases "pr_phase p")
  case Up
  show thesis by (rule that [OF main_run [OF signal [OF Up]]]) (simp_all add: cut_off_def Up)
next
  case DrainProxy
  then obtain q where q: "process_run g p q" "cut_off p q" "idle ProxyServer q \<or> pr_expired q" "pr_phase q = DrainProxy"
    using drained [of p ProxyServer g] by auto
  from proxy_drained [OF q(4,3)] have "process_run g p (q\<lparr>pr_phase := DrainAdmin, pr_listening := pr_listening q - {AdminServer}\<rparr>)"
    using q(1) by (auto intro: rtranclp.rtrancl_into_rtrancl)
  then show thesis by (rule that) (use q(2) DrainProxy in \<open>simp_all add: cut_off_def\<close>)
next
  case DrainAdmin
  then obtain q where q: "process_run g p q" "cut_off p q" "idle AdminServer q \<or> pr_expired q" "pr_phase q = DrainAdmin"
    using drained [of p AdminServer g] by auto
  from admin_drained [OF q(4,3)] have "process_run g p (q\<lparr>pr_phase := JoinAll\<rparr>)"
    using q(1) by (auto intro: rtranclp.rtrancl_into_rtrancl)
  then show thesis by (rule that) (use q(2) DrainAdmin in \<open>simp_all add: cut_off_def\<close>)
next
  case JoinAll
  let ?p1 = "p\<lparr>pr_loops := pr_loops p - {RetentionLoop}\<rparr>" and ?p2 = "p\<lparr>pr_loops := pr_loops p - {RetentionLoop}, pr_listening := {}\<rparr>"
  have "process_run g p ?p1" using retention_ends [of p g] JoinAll by auto
  also have "process_run g ?p1 ?p2" using servers_end [of g ?p1] by simp
  finally have run2: "process_run g p ?p2" .
  from process.run_keeps [OF this inv] obtain q where q: "process_run g ?p2 q" "syslog_joined q" "cut_off ?p2 q" "pr_phase q = JoinAll"
    "pr_loops q = pr_loops p - {RetentionLoop}" "pr_listening q = {}"
    by (rule syslog_ends) (use JoinAll in simp_all)
  have "process_step g q (q\<lparr>pr_phase := StopDownloads\<rparr>)" using joined_all [of q g] q by simp
  with rtranclp_trans [OF run2 q(1)] have "process_run g p (q\<lparr>pr_phase := StopDownloads\<rparr>)" by (rule rtranclp.rtrancl_into_rtrancl)
  then show thesis by (rule that) (use q(3) JoinAll in \<open>simp_all add: cut_off_def idle_def\<close>)
next
  case StopDownloads
  show thesis by (rule that [OF main_run [OF downloads_stopped [OF StopDownloads]]]) (simp_all add: cut_off_def StopDownloads)
next
  case StopLimiter
  show thesis by (rule that [OF main_run [OF limiter_stopped [OF StopLimiter]]]) (simp_all add: cut_off_def StopLimiter)
next
  case CloseStore
  show thesis by (rule that [OF main_run [OF writer_stopped [OF CloseStore]]]) (simp_all add: cut_off_def CloseStore)
next
  case CloseDatabase
  show thesis by (rule that [OF main_run [OF database_closed [OF CloseDatabase]]]) (simp_all add: cut_off_def CloseDatabase)
qed (use assms(2) in simp)

lemma shutdown_path: "process_inv g p \<Longrightarrow> \<exists>p'. process_run g p p' \<and> cut_off p p' \<and> pr_phase p' = Closed"
proof (induction "8 - main_rank (pr_phase p)" arbitrary: p rule: less_induct)
  case less
  show ?case
  proof (cases "pr_phase p = Closed")
    case True
    then show ?thesis by (intro exI [of _ p]) (simp add: cut_off_def)
  next
    case False
    obtain q where q: "process_run g p q" "cut_off p q" "main_rank (pr_phase q) = Suc (main_rank (pr_phase p))"
      by (rule next_phase [OF less.prems False])
    have "8 - main_rank (pr_phase q) < 8 - main_rank (pr_phase p)" using q(3) by (cases "pr_phase q") simp_all
    from less.hyps [OF this process.run_keeps [OF q(1) less.prems]] obtain p' where
      p': "process_run g q p'" "cut_off q p'" "pr_phase p' = Closed" by blast
    show ?thesis using rtranclp_trans [OF q(1) p'(1)] cut_off_trans [OF q(2) p'(2)] p'(3) by blast
  qed
qed

section \<open>After the database is closed\<close>

lemma seen_closed: "pr_phase p = Closed \<Longrightarrow> seen n p = put_db (refusing n (gs_db (pr_state p))) (pr_state p)"
  by (simp add: seen_def)

lemma refused_work:
  assumes "otlp_work g clk r upstream (put_db (refusing n d) s) = (ss, s1)" and "db_faults (gs_db s1) \<noteq> []"
  shows "tables (gs_db s1) = tables d"
  using refused_step [of "OtlpRequest clk r upstream" g n d s] otlp_pieces(4) [OF assms(1)] assms(2) by simp

lemma traffic_step_closed:
  assumes "traffic_step g p p'" and "process_inv g p" and "pr_phase p = Closed"
  shows "pr_phase p' = Closed" "tables (gs_db (pr_state p')) = tables (gs_db (pr_state p))"
proof -
  have "pr_phase p' = Closed \<and> tables (gs_db (pr_state p')) = tables (gs_db (pr_state p))"
    using assms
  proof (induction rule: traffic_step.induct)
    case (proxied e p clk r upstream n ss s)
    then show ?case using refused_work [of g clk r upstream n "gs_db (pr_state p)" "pr_state p" ss s]
      by (simp add: seen_closed refused_def)
  next
    case (handled srv e p s n)
    have "e \<noteq> EngineFaults fs" for fs using handled.hyps(3) by (cases srv) auto
    then show ?case using handled refused_step [of e g n "gs_db (pr_state p)" "pr_state p"]
      by (simp add: seen_closed refused_def)
  next
    case (accounted ss p)
    then show ?case by (simp add: account_def)
  next
    case (turn l p e)
    have "l \<notin> pr_loops p" using turn.prems by (cases l) (simp_all add: process_inv_def ordered_def phase_order)
    then show ?case using turn.hyps by simp
  next
    case (syslog p l cfg l')
    have "ln_phase l = listen_phase.Returned" "ln_running l = []"
      using syslog.prems syslog.hyps(1,2) by (auto simp: process_inv_def ordered_def syslog_ok_def syslog_joined_def listener_inv_def phase_order)
    then show ?case using listen_step_returned [OF syslog.hyps(3)] syslog.prems by simp
  qed simp_all
  then show "pr_phase p' = Closed" "tables (gs_db (pr_state p')) = tables (gs_db (pr_state p))" by simp_all
qed

lemma main_step_closed: "main_step g p p' \<Longrightarrow> pr_phase p = Closed \<Longrightarrow> pr_phase p' = Closed \<and> pr_state p' = pr_state p"
  by (induction rule: main_step.induct) simp_all

interpretation closed_process: transitions "process_step g" "\<lambda>p. process_inv g p \<and> pr_phase p = Closed \<and> tables (gs_db (pr_state p)) = t" for g t
proof
  fix p p'
  assume step: "process_step g p p'" and inv: "process_inv g p \<and> pr_phase p = Closed \<and> tables (gs_db (pr_state p)) = t"
  then have "process_inv g p'" using process.step_keeps by blast
  then show "process_inv g p' \<and> pr_phase p' = Closed \<and> tables (gs_db (pr_state p')) = t"
    using step inv traffic_step_closed [of g p p'] main_step_closed [of g p p'] by auto
qed

section \<open>Usage that is saved and usage that is lost\<close>

definition writer_of :: "'l process \<Rightarrow> usage_writer \<times> db" where
  "writer_of p = (st_writer (gs_store (pr_state p)), gs_db (pr_state p))"

definition settled :: "('l, 'x) gateway \<Rightarrow> 'l process \<Rightarrow> bool" where
  "settled g p \<longleftrightarrow> process_inv g p \<and> CloseDatabase \<le> pr_phase p \<and> idle ProxyServer p \<and>
     w_ch (fst (writer_of p)) = [] \<and> w_accum (fst (writer_of p)) = []"

lemma traffic_step_settled: "traffic_step g p p' \<Longrightarrow> settled g p \<Longrightarrow> settled g p'"
proof -
  assume step: "traffic_step g p p'" and s: "settled g p"
  have "CloseDatabase \<le> pr_phase p' \<and> idle ProxyServer p' \<and> st_writer (gs_store (pr_state p')) = st_writer (gs_store (pr_state p))"
    using step s
  proof (induction rule: traffic_step.induct)
    case (arrive srv p e)
    then show ?case by (auto simp: settled_def process_inv_def ordered_def phase_order)
  next
    case (proxied e p clk r upstream n ss s)
    then show ?case by (force simp: settled_def idle_def)
  next
    case (accounted ss p)
    then show ?case by (simp add: settled_def idle_def)
  next
    case (handled srv e p s n)
    have "idle ProxyServer (p\<lparr>pr_active := remove1 (srv, e) (pr_active p)\<rparr>)"
      using handled.prems by (simp add: settled_def idle_fewer)
    then show ?case using handled step_keeps_writer [of srv e _ _ _ _ g "seen n p"] by (simp add: settled_def idle_def)
  next
    case (turn l p e)
    have "l \<notin> pr_loops p"
      using turn.prems by (cases l; cases "pr_phase p") (simp_all add: settled_def process_inv_def ordered_def phase_order)
    then show ?case using turn.hyps by simp
  next
    case (failures p e fs ds ws)
    then show ?case using step_keeps_writer [of _ e _ fs ds ws g "pr_state p"] by (simp add: settled_def idle_def)
  next
    case (syslog p l cfg l')
    have "syslog_joined p" using syslog.prems by (cases "pr_phase p") (simp_all add: settled_def process_inv_def ordered_def phase_order)
    then have "ln_phase l = listen_phase.Returned" "ln_running l = []"
      using syslog.prems syslog.hyps(1,2) by (auto simp: settled_def process_inv_def syslog_ok_def syslog_joined_def listener_inv_def)
    then show ?case using listen_step_returned [OF syslog.hyps(3)] syslog.prems by (simp add: settled_def idle_def)
  qed (simp_all add: settled_def idle_def)
  then show "settled g p'" using s traffic_step_inv [OF step] by (simp add: settled_def writer_of_def)
qed

lemma main_step_settled: "main_step g p p' \<Longrightarrow> settled g p \<Longrightarrow> settled g p'"
proof -
  assume step: "main_step g p p'" and s: "settled g p"
  have "CloseDatabase \<le> pr_phase p' \<and> idle ProxyServer p' \<and> pr_state p' = pr_state p"
    using step s by (induction rule: main_step.induct) (simp_all add: settled_def idle_def phase_order)
  then show "settled g p'" using s main_step_inv [OF step] by (simp add: settled_def writer_of_def)
qed

interpretation settled_process: transitions "process_step g" "settled g" for g
  by unfold_locales (auto intro: traffic_step_settled main_step_settled)

section \<open>The started process\<close>

lemma started_writer_new: "run env = Serving a ts \<Longrightarrow> st_writer (app_store a) = NewUsageWriter"
  by (erule run_Serving) (auto simp: after_cleanup_def Open_def Let_def split: migration_outcome.splits sum.splits)

lemma started_process_inv:
  fixes ienv :: "('l, 'x) ingest_env"
  assumes "db_inv (sq_data (re_db env))" and "run env = Serving a ts"
  shows "process_inv (gateway_of ienv a) (started_process a)"
proof -
  from assms(2) obtain cfg st q h c t sys ren where st: "Open (re_now env) (re_db env) = Some (Inr st, q)"
    and sys: "syslog_startup env cfg = Inr sys"
    and a: "a = \<lparr>app_config = cfg, app_store = after_cleanup env cfg st, app_handler = h,
       app_web = web_startup env cfg c t (st_db (after_cleanup env cfg st)), app_syslog = sys, app_renewal = ren\<rparr>"
    by (rule run_Serving)
  let ?s = "started a :: 'l gateway_state"
  have g: "gateway_inv ?s" by (rule started_inv [OF assms])
  have w: "\<not> w_stopped (st_writer (gs_store ?s))" using started_writer_new [OF assms(2)] by (simp add: started_def NewUsageWriter_def)
  have f: "forwarding_ok (syslog_of ?s)" "sy_counts (syslog_of ?s) = Map.empty"
    using g by (simp_all add: gateway_inv_def forwarding_ok_def syslog_of_def store_inv_def writer_bounded_def)
  have "syslog_ok (gateway_of ienv a) (started_process a)"
  proof -
    have "listener_inv (fst x) (listening (syslog_of ?s))" if "sys = Some x" for x
      using syslog_startup_ok [OF sys] that by (cases x) (auto intro!: listening_inv [OF f])
    moreover have "(listening y)\<lparr>ln_state := y\<rparr> = listening y" for y :: "'l syslog_state" by (simp add: listening_def)
    ultimately show ?thesis
      by (auto simp: syslog_ok_def started_process_def gateway_of_def a listening_def)
  qed
  moreover have "ordered (started_process a :: 'l process)" using w by (simp add: ordered_def started_process_def phase_order)
  ultimately show ?thesis using g by (simp add: process_inv_def started_process_def)
qed

section \<open>Properties\<close>

text \<open>
  C11. The shutdown of the process, whatever runs beside it. The shared state keeps its invariant in
  every phase. When the deferred calls close the store, no server listens, every background loop but
  the usage writer has ended, the syslog server has returned with every connection ended and every
  collector connection closed, and proxied or admin requests still run only if the ten seconds are over. After the database is
  closed no table changes any more. And from every state the shutdown can complete with the requests
  that are in flight cut off as they are: the proxied and admin ones only when time has run out, but
  renewals at any time.
\<close>

theorem shutdown_ordered:
  fixes p :: "'l process" and ienv :: "('l, 'x) ingest_env"
  assumes start: "db_inv (sq_data (re_db env))" "run env = Serving a ts"
    and reach: "process_run (gateway_of ienv a) (started_process a) p"
  shows "gateway_inv (pr_state p) \<and>
    (CloseStore \<le> pr_phase p \<longrightarrow> pr_listening p = {} \<and> pr_loops p \<subseteq> {WriterLoop} \<and>
       (pr_expired p \<or> idle ProxyServer p \<and> idle AdminServer p) \<and>
       (\<forall>l. pr_syslog p = Some l \<longrightarrow> ln_phase l = listen_phase.Returned \<and> ln_running l = [] \<and> nt_open (snd (gs_pool (pr_state p))) = {})) \<and>
    (w_stopped (st_writer (gs_store (pr_state p))) \<longleftrightarrow> CloseDatabase \<le> pr_phase p) \<and>
    (pr_phase p = Closed \<longrightarrow> (\<forall>p'. process_run (gateway_of ienv a) p p' \<longrightarrow> tables (gs_db (pr_state p')) = tables (gs_db (pr_state p)))) \<and>
    (\<exists>p'. process_run (gateway_of ienv a) p p' \<and> pr_phase p' = Closed \<and> cut_off p p')"
proof -
  let ?g = "gateway_of ienv a"
  have inv: "process_inv ?g p" by (rule process.run_keeps [OF reach started_process_inv [OF start]])
  then have o: "ordered p" and g: "gateway_inv (pr_state p)" by (simp_all add: process_inv_def)
  have closing: "pr_listening p = {} \<and> pr_loops p \<subseteq> {WriterLoop} \<and> (pr_expired p \<or> idle ProxyServer p \<and> idle AdminServer p) \<and> syslog_joined p"
    if "CloseStore \<le> pr_phase p"
  proof -
    have "StopDownloads \<le> pr_phase p" "StopLimiter \<le> pr_phase p" "DrainAdmin \<le> pr_phase p" "JoinAll \<le> pr_phase p"
      using that by (cases "pr_phase p"; simp add: phase_order)+
    then have "RetentionLoop \<notin> pr_loops p" "DownloadLoop \<notin> pr_loops p" "LimiterLoop \<notin> pr_loops p" "pr_listening p = {}"
      "syslog_joined p" "pr_expired p \<or> idle ProxyServer p \<and> idle AdminServer p"
      using o that by (auto simp: ordered_def)
    moreover have "x = WriterLoop" if "x \<in> pr_loops p" for x using that calculation(1-3) by (cases x) auto
    ultimately show ?thesis by blast
  qed
  have joined: "ln_phase l = listen_phase.Returned \<and> ln_running l = [] \<and> nt_open (snd (gs_pool (pr_state p))) = {}"
    if "pr_syslog p = Some l" "syslog_joined p" for l
    using inv that by (auto simp: process_inv_def syslog_ok_def syslog_joined_def listener_inv_def syslog_of_def)
  have frozen: "tables (gs_db (pr_state p')) = tables (gs_db (pr_state p))" if "pr_phase p = Closed" "process_run ?g p p'" for p'
    using closed_process.run_keeps [OF that(2), of "tables (gs_db (pr_state p))"] inv that(1) by simp
  have stopped: "w_stopped (st_writer (gs_store (pr_state p))) \<longleftrightarrow> CloseDatabase \<le> pr_phase p" using o by (simp add: ordered_def)
  show ?thesis using g closing joined frozen stopped shutdown_path [OF inv] by blast
qed

theorem shutdown_ordered_witness:
  "\<exists>a ts p. run demo_run = Serving a ts \<and> pr_phase p = Closed \<and> pr_loops p \<subseteq> {WriterLoop} \<and>
     process_run (gateway_of Ingest_Handler.demo_env a) (started_process a) p"
proof -
  obtain a ts where run: "run demo_run = Serving a ts" by (rule demo_serving)
  have d: "db_inv (sq_data (re_db demo_run))" using demo_legacy_ok(1) by (simp add: demo_run_def)
  let ?g = "gateway_of Ingest_Handler.demo_env a"
  have "process_run ?g (started_process a) (started_process a)" by simp
  from shutdown_ordered [OF d run this] obtain p where p: "process_run ?g (started_process a) p" "pr_phase p = Closed" by blast
  from shutdown_ordered [OF d run p(1)] p run show ?thesis by (auto simp: phase_order)
qed

text \<open>
  C12. What the shutdown does to the accounting, when \<open>st.Close\<close> stops the usage writer on a database without
  failures. If the tenant of every waiting sample is on file, everything enqueued by then is committed,
  and if no proxied request is in flight any more nothing is left over, at that point or later; if one of
  these tenants is not, the counters stay as they were. A request that outlives the ten seconds and
  accounts itself afterwards is lost: its sample stays in the channel, no table ever has it, and it is not
  counted as dropped.
\<close>
theorem shutdown_saves_usage:
  fixes p :: "'l process" and ienv :: "('l, 'x) ingest_env"
  assumes start: "db_inv (sq_data (re_db env))" "run env = Serving a ts"
    and reach: "process_run (gateway_of ienv a) (started_process a) p"
    and close: "pr_phase p = CloseStore" "healthy (gs_db (pr_state p))"
  shows "\<exists>p'. main_step (gateway_of ienv a) p p' \<and> pr_phase p' = CloseDatabase \<and>
    (accountable (writer_of p) \<longrightarrow> committed (writer_of p) (writer_of p') \<and>
       (idle ProxyServer p \<longrightarrow> (\<forall>q. process_run (gateway_of ienv a) p' q \<longrightarrow> w_ch (fst (writer_of q)) = [] \<and> w_accum (fst (writer_of q)) = []))) \<and>
    (\<not> accountable (writer_of p) \<longrightarrow> t_usage_counters (gs_db (pr_state p')) = t_usage_counters (gs_db (pr_state p))) \<and>
    (\<forall>smp. [smp] \<in> set (pr_pending p) \<longrightarrow> (\<exists>q. process_run (gateway_of ienv a) p' q \<and> pr_phase q = Closed \<and>
       w_ch (fst (writer_of q)) = [smp] \<and> DroppedSamples (fst (writer_of q)) = DroppedSamples (fst (writer_of p')) \<and>
       t_usage_counters (gs_db (pr_state q)) = t_usage_counters (gs_db (pr_state p'))))"
proof -
  let ?g = "gateway_of ienv a"
  let ?p' = "p\<lparr>pr_phase := CloseDatabase, pr_loops := pr_loops p - {WriterLoop}, pr_state := gateway_step ?g (WriterTurn StopWriter) (pr_state p)\<rparr>"
  have inv: "process_inv ?g p" by (rule process.run_keeps [OF reach started_process_inv [OF start]])
  have step: "main_step ?g p ?p'" by (rule writer_stopped [OF close(1)])
  have running: "\<not> w_stopped (fst (writer_of p))" using inv close(1) by (simp add: process_inv_def ordered_def writer_of_def phase_order)
  have turn: "writer_of ?p' = writer_step StopWriter (writer_of p)" by (simp add: writer_of_def writer_turn)
  have "flushed (writer_of p) (writer_of ?p')" using flush_outcome [OF running, of StopWriter] turn by simp
  then have saved: "accountable (writer_of p) \<Longrightarrow> committed (writer_of p) (writer_of ?p')"
    and kept: "\<not> accountable (writer_of p) \<Longrightarrow> t_usage_counters (gs_db (pr_state ?p')) = t_usage_counters (gs_db (pr_state p))"
    using close(2) by (simp_all add: flushed_def writer_of_def)
  have quiet: "w_ch (fst (writer_of q)) = [] \<and> w_accum (fst (writer_of q)) = []"
    if "accountable (writer_of p)" "idle ProxyServer p" "process_run ?g ?p' q" for q
  proof -
    have "settled ?g ?p'" using main_step_inv [OF step inv] saved [OF that(1)] that(2) by (simp add: settled_def committed_def idle_def phase_order)
    from settled_process.run_keeps [OF that(3) this] show ?thesis by (simp add: settled_def)
  qed
  have lost: "\<exists>q. process_run ?g ?p' q \<and> pr_phase q = Closed \<and> w_ch (fst (writer_of q)) = [smp] \<and>
      DroppedSamples (fst (writer_of q)) = DroppedSamples (fst (writer_of ?p')) \<and>
      t_usage_counters (gs_db (pr_state q)) = t_usage_counters (gs_db (pr_state ?p'))" if "[smp] \<in> set (pr_pending p)" for smp
  proof -
    let ?q = "?p'\<lparr>pr_phase := Closed\<rparr>"
    let ?r = "?q\<lparr>pr_pending := remove1 [smp] (pr_pending ?q), pr_state := account [smp] (pr_state ?q)\<rparr>"
    have "main_step ?g ?p' ?q" using database_closed [of ?p' ?g] by simp
    moreover have "traffic_step ?g ?q ?r" using accounted [of "[smp]" ?q ?g] that by simp
    ultimately have reach: "process_run ?g ?p' ?r"
      using rtranclp.rtrancl_into_rtrancl [of "process_step ?g" ?p' ?q ?r] main_run by blast
    have "w_ch (fst (writer_of ?p')) = []" using running unfolding turn by (cases "writer_of p") (simp add: case_prod_unfold)
    then have "w_ch (st_writer (gs_store (pr_state ?q))) = []" by (simp add: writer_of_def)
    then show ?thesis using reach
      by (intro exI [of _ ?r]) (simp add: writer_of_def account_def record_sample_def usageWriterBufferSize_def DroppedSamples_def)
  qed
  show ?thesis
  proof (rule exI [of _ ?p'], intro conjI)
    show "main_step ?g p ?p'" "pr_phase ?p' = CloseDatabase" using step by simp_all
  qed (use saved kept quiet lost in blast)+
qed

text \<open>A quiet shutdown, up to the point where the store is closed, when no request is in flight and there is no syslog server.\<close>

lemma quiet_shutdown:
  assumes "pr_phase p = Up" "pr_active p = []" "pr_pending p = []" "pr_syslog p = None"
  shows "process_run g p (p\<lparr>pr_phase := CloseStore, pr_loops := pr_loops p - {RetentionLoop} - {DownloadLoop} - {LimiterLoop}, pr_listening := {}\<rparr>)"
proof -
  let ?q = "\<lambda>x L S. p\<lparr>pr_phase := x, pr_loops := L, pr_listening := S\<rparr>"
  let ?L = "pr_loops p - {RetentionLoop}" and ?S = "pr_listening p - {ProxyServer} - {AdminServer}"
  note step = signal proxy_drained admin_drained retention_ends joined_all downloads_stopped limiter_stopped
  have "?q DrainProxy (pr_loops p) (pr_listening p - {ProxyServer}) = p\<lparr>pr_phase := DrainProxy, pr_listening := pr_listening p - {ProxyServer}\<rparr>"
    by (cases p) simp
  then have "process_run g p (?q DrainProxy (pr_loops p) (pr_listening p - {ProxyServer}))"
    using main_run [OF step(1) [OF assms(1), of g]] by (simp only:)
  also have "process_run g \<dots> (?q DrainAdmin (pr_loops p) ?S)"
    by (rule main_run) (use step(2) [of "?q DrainProxy (pr_loops p) (pr_listening p - {ProxyServer})" g] assms in \<open>cases p; simp add: idle_def\<close>)
  also have "process_run g \<dots> (?q JoinAll (pr_loops p) ?S)"
    by (rule main_run) (use step(3) [of "?q DrainAdmin (pr_loops p) ?S" g] assms in \<open>cases p; simp add: idle_def\<close>)
  also have "process_run g \<dots> (?q JoinAll ?L ?S)"
    by (rule main_run) (use step(4) [of "?q JoinAll (pr_loops p) ?S" g] in \<open>cases p; simp\<close>)
  also have "process_run g \<dots> (?q JoinAll ?L {})" using servers_end [of g "?q JoinAll ?L ?S"] by simp
  also have "process_run g \<dots> (?q StopDownloads ?L {})"
    by (rule main_run) (use step(5) [of "?q JoinAll ?L {}" g] assms in \<open>cases p; simp add: syslog_joined_def\<close>)
  also have "process_run g \<dots> (?q StopLimiter (?L - {DownloadLoop}) {})"
    by (rule main_run) (use step(6) [of "?q StopDownloads ?L {}" g] in \<open>cases p; simp\<close>)
  also have "process_run g \<dots> (?q CloseStore (?L - {DownloadLoop} - {LimiterLoop}) {})"
    by (rule main_run) (use step(7) [of "?q StopLimiter (?L - {DownloadLoop}) {}" g] in \<open>cases p; simp\<close>)
  finally show ?thesis .
qed

lemma syslog_unbound: "process_run g (started_process a) ((started_process a)\<lparr>pr_syslog := None\<rparr>)"
proof (cases "app_syslog a")
  case None
  then show ?thesis by (simp add: started_process_def)
next
  case (Some x)
  have "traffic_step g (started_process a) ((started_process a)\<lparr>pr_syslog := None\<rparr>)"
    by (rule syslog_fails [of _ "listening (syslog_of (started a))"]) (simp_all add: started_process_def Some listening_def)
  then show ?thesis by blast
qed

theorem shutdown_saves_usage_witness:
  "\<exists>a ts p p'. run demo_run = Serving a ts \<and> process_run (gateway_of Ingest_Handler.demo_env a) (started_process a) p \<and>
     main_step (gateway_of Ingest_Handler.demo_env a) p p' \<and> committed (writer_of p) (writer_of p')"
proof -
  obtain a ts where run: "run demo_run = Serving a ts" by (rule demo_serving)
  have d: "db_inv (sq_data (re_db demo_run))" using demo_legacy_ok(1) by (simp add: demo_run_def)
  let ?g = "gateway_of Ingest_Handler.demo_env a" and ?p = "(started_process a)\<lparr>pr_syslog := None\<rparr> :: (int \<times> int \<times> int \<times> int) process"
  let ?q = "?p\<lparr>pr_state := gateway_step ?g (EngineFaults []) (pr_state ?p)\<rparr>"
  let ?r = "?q\<lparr>pr_phase := CloseStore, pr_loops := pr_loops ?q - {RetentionLoop} - {DownloadLoop} - {LimiterLoop}, pr_listening := {}\<rparr>"
  have "traffic_step ?g ?p ?q" by (rule failures [of _ _ "[]"]) (simp_all add: started_process_def)
  then have "process_run ?g ?p ?q" by blast
  moreover have "process_run ?g ?q ?r" by (rule quiet_shutdown) (simp_all add: started_process_def)
  ultimately have reach: "process_run ?g (started_process a) ?r"
    using rtranclp_trans [OF rtranclp_trans [OF syslog_unbound]] by blast
  have "st_writer (gs_store (started a :: (int \<times> int \<times> int \<times> int) gateway_state)) = NewUsageWriter"
    using started_writer_new [OF run] by (simp add: started_def)
  then have ok: "healthy (gs_db (pr_state ?r))" "accountable (writer_of ?r)"
    by (simp_all add: accountable_def writer_of_def started_process_def gateway_step_def put_db_def healthy_def NewUsageWriter_def)
  have "pr_phase ?r = CloseStore" by simp
  from shutdown_saves_usage [OF d run reach this ok(1)] ok(2) obtain p' where
    "main_step ?g ?r p'" "committed (writer_of ?r) (writer_of p')" by blast
  with run reach show ?thesis by (intro exI conjI)
qed

end
