(* ===== verification/Syslog_Rfc5424.thy ===== *)
theory Syslog_Rfc5424
  imports Syslog_Stamp
begin

text \<open>
  Stamping judged by the grammar of RFC 5424 (sections 6 and 6.3), not by the code's own parser: messages
  with structured-data elements, names, parameters and values, their printed form with its escapes, and
  the tenant elements among them.
\<close>

section \<open>The grammar\<close>

record sd_element =
  se_id :: string
  se_params :: "(string \<times> string) list"

record rfc_message =
  rm_pri :: string
  rm_header :: "string list"   \<comment> \<open>VERSION, TIMESTAMP, HOSTNAME, APP-NAME, PROCID, MSGID\<close>
  rm_sd :: "sd_element list"
  rm_msg :: string

definition print_us :: "char \<Rightarrow> bool" where
  "print_us c \<longleftrightarrow> 33 \<le> (of_char c :: nat) \<and> of_char c \<le> (126 :: nat)"

definition sd_name :: "string \<Rightarrow> bool" where
  "sd_name s \<longleftrightarrow> s \<noteq> '''' \<and> length s \<le> 32 \<and> list_all (\<lambda>c. print_us c \<and> c \<notin> {CHR ''='', CHR '']'', CHR 0x22}) s"

definition rfc_valid :: "rfc_message \<Rightarrow> bool" where
  "rfc_valid m \<longleftrightarrow> rm_pri m \<noteq> '''' \<and> length (rm_pri m) \<le> 3 \<and> list_all is_digit (rm_pri m) \<and>
     length (rm_header m) = 6 \<and> list_all (\<lambda>f. f \<noteq> '''' \<and> list_all print_us f) (rm_header m) \<and>
     list_all (\<lambda>e. sd_name (se_id e) \<and> list_all (\<lambda>(k, v). sd_name k) (se_params e)) (rm_sd m)"

text \<open>Inside a value a quote, a backslash and a closing bracket are escaped.\<close>

fun escape_value :: "string \<Rightarrow> string" where
  "escape_value [] = []"
| "escape_value (c # cs) = (if c \<in> {CHR 0x22, CHR 0x5C, CHR '']''} then [CHR 0x5C, c] else [c]) @ escape_value cs"

definition render_param :: "string \<times> string \<Rightarrow> string" where
  "render_param p = CHR '' '' # fst p @ CHR ''='' # CHR 0x22 # escape_value (snd p) @ [CHR 0x22]"

definition render_element :: "sd_element \<Rightarrow> string" where
  "render_element e = CHR ''['' # se_id e @ concat (map render_param (se_params e)) @ [CHR '']'']"

definition render_rfc :: "rfc_message \<Rightarrow> string" where
  "render_rfc m = CHR ''<'' # rm_pri m @ CHR ''>'' # join CHR '' '' (rm_header m) @ CHR '' '' #
     (if rm_sd m = [] then ''-'' else concat (map render_element (rm_sd m))) @ (if rm_msg m = '''' then '''' else CHR '' '' # rm_msg m)"

definition tenant_element :: "sd_element \<Rightarrow> bool" where
  "tenant_element e \<longleftrightarrow> has_prefix (se_id e) ''tenant@''"

definition server_element :: "int64 \<Rightarrow> sd_element" where
  "server_element i = \<lparr>se_id = ''tenant@'' @ format_int i, se_params = [(''tenant-id'', format_int i)]\<rparr>"

text \<open>The values that the code's search for the end of an element survives.\<close>

definition no_bracket_values :: "rfc_message \<Rightarrow> bool" where
  "no_bracket_values m \<longleftrightarrow> list_all (\<lambda>e. list_all (\<lambda>(k, v). CHR '']'' \<notin> set v) (se_params e)) (rm_sd m)"

section \<open>Elements as blocks\<close>

lemma sd_name_chars: "sd_name s \<Longrightarrow> CHR '']'' \<notin> set s"
  by (auto simp: sd_name_def list_all_iff)

lemma print_us_space: "list_all print_us f \<Longrightarrow> CHR '' '' \<notin> set f"
  by (auto simp: list_all_iff print_us_def)

lemma escape_value_bracket: "CHR '']'' \<notin> set v \<Longrightarrow> CHR '']'' \<notin> set (escape_value v)"
  by (induction v) auto

lemma escape_value_id: "set v \<inter> {CHR 0x22, CHR 0x5C, CHR '']''} = {} \<Longrightarrow> escape_value v = v"
  by (induction v) auto

lemma element_block:
  assumes "sd_name (se_id e)" "list_all (\<lambda>(k, v). sd_name k \<and> CHR '']'' \<notin> set v) (se_params e)"
  shows "wf_block (render_element e)"
proof -
  have "CHR '']'' \<notin> set (render_param p)" if "p \<in> set (se_params e)" for p
    using assms(2) that sd_name_chars escape_value_bracket by (auto simp: list_all_iff render_param_def)
  then have "CHR '']'' \<notin> set (se_id e @ concat (map render_param (se_params e)))"
    using sd_name_chars [OF assms(1)] by auto
  then show ?thesis unfolding wf_block_def render_element_def by (metis append.assoc append_Cons)
qed

lemma has_prefix_sep: "c \<notin> set p \<Longrightarrow> has_prefix (s @ c # r) p = has_prefix s p"
  by (induction s p rule: has_prefix.induct) auto

lemma block_tenant: "isTenantSDID (render_element e) = tenant_element e"
proof -
  obtain c r where "concat (map render_param (se_params e)) @ [CHR '']''] = c # r" "c = CHR '' '' \<or> c = CHR '']''"
    by (cases "se_params e") (auto simp: render_param_def)
  then have "render_element e = CHR ''['' # se_id e @ c # r" "c \<notin> set ''tenant@''" by (auto simp: render_element_def)
  then show ?thesis using has_prefix_sep [of c "''tenant@''" "se_id e" r]
    by (simp add: isTenantSDID_def tenantSDIDPrefix_def tenant_element_def)
qed

lemma server_block: "render_element (server_element i) = tenant_block i"
proof -
  have "set (format_int i) \<inter> {CHR 0x22, CHR 0x5C, CHR '']''} = {}"
    by (auto dest: format_int_chars simp: is_digit_def)
  then show ?thesis
    by (simp add: render_element_def server_element_def render_param_def tenant_block_def escape_value_id)
qed

lemma server_is_tenant: "tenant_element (server_element i)"
  by (simp add: tenant_element_def server_element_def)

text \<open>Forgetting the structure of the elements gives the code's view of the message.\<close>

definition as_blocks :: "rfc_message \<Rightarrow> syslog_message" where
  "as_blocks m = \<lparr>sm_pri = rm_pri m, sm_header = rm_header m, sm_sd = map render_element (rm_sd m), sm_msg = rm_msg m\<rparr>"

lemma render_as_blocks: "render_syslog (as_blocks m) = render_rfc m"
  by (simp add: render_syslog_def render_rfc_def as_blocks_def)

lemma as_blocks_wf:
  assumes "rfc_valid m" "no_bracket_values m"
  shows "wf_parts (as_blocks m)"
proof -
  have "wf_block (render_element e)" if "e \<in> set (rm_sd m)" for e
    by (rule element_block) (use assms that in \<open>auto simp: rfc_valid_def no_bracket_values_def list_all_iff\<close>)
  moreover have "CHR ''>'' \<notin> set (rm_pri m)" using assms(1) by (auto simp: rfc_valid_def list_all_iff is_digit_def)
  moreover have "list_all (\<lambda>f. CHR '' '' \<notin> set f) (rm_header m)"
    using assms(1) print_us_space by (auto simp: rfc_valid_def list_all_iff)
  moreover have "length (rm_header m) = 6" "hd (rm_header m) \<noteq> ''''"
    using assms(1) by (cases "rm_header m"; auto simp: rfc_valid_def)+
  ultimately show ?thesis by (simp add: wf_parts_def as_blocks_def list_all_iff)
qed

section \<open>Properties\<close>

text \<open>C20. A client cannot speak for another tenant in a valid RFC 5424 message, as long as no parameter value
  contains a closing bracket: the line that is sent on is the printed form of a message
  whose only tenant element is the server's, whose other elements are those of the client in order,
  with the same PRI and header, and whose MSG is the client's (less leading blanks) behind the
  tenant prefix, or still empty.\<close>

theorem syslog_identity_overridden:
  assumes "rfc_valid m" and "no_bracket_values m"
  shows "\<exists>m'. StampSyslogMessage (render_rfc m) i n = render_rfc m' \<and>
     filter tenant_element (rm_sd m') = [server_element i] \<and>
     filter (\<lambda>e. \<not> tenant_element e) (rm_sd m') = filter (\<lambda>e. \<not> tenant_element e) (rm_sd m) \<and>
     rm_pri m' = rm_pri m \<and> rm_header m' = rm_header m \<and>
     rm_msg m' = (let msg = trim_left (rm_msg m) CHR '' '' in if msg = '''' then '''' else msg_prefix i n @ msg)"
proof -
  let ?msg = "trim_left (rm_msg m) CHR '' ''"
  let ?m' = "m\<lparr>rm_sd := filter (\<lambda>e. \<not> tenant_element e) (rm_sd m) @ [server_element i],
      rm_msg := (if ?msg = '''' then '''' else msg_prefix i n @ ?msg)\<rparr>"
  have "parse_syslog (render_rfc m) = Some ((as_blocks m)\<lparr>sm_msg := ?msg\<rparr>)"
    using parse_render_parts [OF as_blocks_wf [OF assms]] by (simp add: render_as_blocks) (simp add: as_blocks_def)
  moreover have "stamp_message i n ((as_blocks m)\<lparr>sm_msg := ?msg\<rparr>) = as_blocks ?m'"
    by (simp add: stamp_message_def as_blocks_def filter_map comp_def block_tenant server_block)
  ultimately have "StampSyslogMessage (render_rfc m) i n = render_rfc ?m'"
    by (simp add: stamp_render render_as_blocks)
  then show ?thesis by (rule exI [of _ ?m', OF conjI]) (simp add: server_is_tenant Let_def)
qed

definition forged :: sd_element where
  "forged = \<lparr>se_id = ''tenant@9'', se_params = [(''tenant-id'', ''9'')]\<rparr>"

definition demo_rfc :: "string \<Rightarrow> rfc_message" where
  "demo_rfc v = \<lparr>rm_pri = ''34'', rm_header = [''1'', ''2024-01-01T00:00:00Z'', ''web1'', ''su'', ''77'', ''ID47''],
     rm_sd = [\<lparr>se_id = ''ex@1'', se_params = [(''a'', v)]\<rparr>, forged], rm_msg = '' it failed''\<rparr>"

lemma demo_rfc_valid: "rfc_valid (demo_rfc v)"
  by (simp add: rfc_valid_def demo_rfc_def forged_def sd_name_def print_us_def is_digit_def)

theorem syslog_identity_overridden_witness:
  "\<exists>m'. StampSyslogMessage (render_rfc (demo_rfc ''b'')) 1 ''acme'' = render_rfc m' \<and>
     filter tenant_element (rm_sd m') = [server_element 1] \<and> rm_msg m' = ''[1][acme] it failed''"
proof -
  have "no_bracket_values (demo_rfc ''b'')" by (simp add: no_bracket_values_def demo_rfc_def forged_def)
  from syslog_identity_overridden [OF demo_rfc_valid this, of 1 "''acme''"]
  have "\<exists>m'. StampSyslogMessage (render_rfc (demo_rfc ''b'')) 1 ''acme'' = render_rfc m' \<and>
     filter tenant_element (rm_sd m') = [server_element 1] \<and>
     rm_msg m' = (let msg = trim_left (rm_msg (demo_rfc ''b'')) CHR '' '' in if msg = '''' then '''' else msg_prefix 1 ''acme'' @ msg)"
    by blast
  moreover have "(let msg = trim_left (rm_msg (demo_rfc ''b'')) CHR '' '' in if msg = '''' then '''' else msg_prefix 1 ''acme'' @ msg)
    = ''[1][acme] it failed''" by code_simp
  ultimately show ?thesis by simp
qed

text \<open>
  With an escaped bracket in a value in front of it, the forged element of a valid message is still in
  the line that is sent on.
\<close>

lemma escaped_bracket_keeps_forgery:
  "rfc_valid (demo_rfc '']'') \<and> contains (StampSyslogMessage (render_rfc (demo_rfc '']'')) 1 ''acme'') (render_element forged)"
proof -
  have "contains (StampSyslogMessage (render_rfc (demo_rfc '']'')) 1 ''acme'') (render_element forged)" by code_simp
  then show ?thesis by (simp add: demo_rfc_valid)
qed

end
