(* ===== verification/Spec2Isabelle.thy ===== *)
theory Spec2Isabelle
  imports Proxy_Shutdown Syslog_Rfc5424
begin

text \<open>
  A multi-tenant ingestion gateway in front of an observability backend, written in Go. The theories
  model the whole of its own code under \<open>src/cmd\<close> and \<open>src/internal\<close> except what is listed at the end.

  \<^bold>\<open>The program.\<close> \<open>run\<close> (\<open>cmd/proxy/main.go\<close>) reads the environment, opens and migrates a SQLite
  database, and starts four servers over one store, one rate limiter and one login limiter:
  \<^item> the OTLP proxy (\<open>internal/ingest\<close>): authenticates a request by its API key, applies the limits of
    the tenant, writes the tenant's identity into every resource of the payload and forwards it;
  \<^item> the syslog listener (\<open>internal/syslog\<close>): authenticates a TLS connection by its client certificate,
    stamps every line it can parse and forwards it through a pool of collector connections;
  \<^item> the admin interface (\<open>internal/web\<close>): accounts, tenants, keys, certificates, usage pages;
  \<^item> the renewal server (\<open>internal/pki\<close>): a device exchanges a valid certificate for a new one.
  Usage samples of both ingestion servers go through a bounded channel to one writer goroutine, which
  aggregates them and flushes them into the database; the daily quota reads them back.

  \<^bold>\<open>How the model corresponds to the code.\<close> One definition per function, with the name of the source
  where it is free; a struct is a record, a tagged value a datatype, an error the left of a sum
  (\<open>'a result\<close> in \<^theory_text>\<open>Prelude\<close>). A function that changes state takes and returns it. Go's \<open>int64\<close> is an
  integer with \<open>wrap64\<close> at each addition that can wrap; bytes and the hash use machine words. Clock
  readings, random bytes, the environment and files are arguments. Each SQL statement is a function
  on the tables, run by \<open>sql_exec\<close> or \<open>sql_query\<close>, which consume a script of engine failures; so every
  theorem about the store holds for every pattern of failures unless it assumes \<open>healthy\<close>.

  \<^bold>\<open>Layers.\<close> Go's library as far as the program uses it:
  \<^item> \<^theory_text>\<open>Prelude\<close>: integers, errors, the locales \<open>step_machine\<close> and \<open>transitions\<close> (an invariant of each step
    is one of each run), collections of proof rules;
  \<^item> \<^theory_text>\<open>Go_Strings\<close>, \<^theory_text>\<open>Go_Time\<close>, \<^theory_text>\<open>Go_Crypto\<close> (SHA-256, HMAC, base64; test vectors in \<^theory_text>\<open>Crypto_Vectors\<close>),
    \<^theory_text>\<open>Go_Json\<close>, \<^theory_text>\<open>Go_Http\<close>, \<^theory_text>\<open>Go_Mux\<close> (patterns, path cleaning and method answers of \<open>http.ServeMux\<close>),
    \<^theory_text>\<open>Go_Proxy\<close> (the reverse proxy).
  The store, \<open>internal/store\<close>:
  \<^item> \<^theory_text>\<open>Store_Schema\<close>: tables, statements, \<open>db_inv\<close> (keys, uniqueness, foreign keys);
  \<^item> \<^theory_text>\<open>Store_Tenants\<close>, \<^theory_text>\<open>Store_Keys\<close> (\<open>tenants.go\<close>, \<open>apikeys.go\<close>), \<^theory_text>\<open>Store_Certs\<close>, \<^theory_text>\<open>Store_Users\<close>: the operations
    and, in the locale \<open>credential_source\<close>, the contract of a credential lookup, interpreted on API
    keys, on certificate fingerprints and on the gateway (\<^theory_text>\<open>Auth_Gateway\<close>) that dispatches to them;
  \<^item> \<^theory_text>\<open>Usage_Writer\<close>: the writer as a machine, conservation of samples, usage reports, retention;
    \<^theory_text>\<open>Usage_Lifecycle\<close>: \<open>FlushCounters\<close> against \<open>Stop\<close> as a step relation;
  \<^item> \<^theory_text>\<open>Store\<close>: all operations as events of one machine; \<^theory_text>\<open>Migrate\<close>: \<open>Open\<close> and the migrations, the
    rebuild of a legacy \<open>tenants\<close> table included: \<open>sq_rebuild\<close> is the table \<open>tenants_rebuild\<close>, into which
    the rows are copied before the old table is dropped.
  Authentication and limits:
  \<^item> \<^theory_text>\<open>Auth_Session\<close>: sessions, CSRF tokens, flash cookies; the locale \<open>signed_token\<close> has the laws of the
    common cookie format; \<^theory_text>\<open>Login_Limiter\<close>; \<^theory_text>\<open>Rate_Limit\<close> (\<open>internal/ratelimit\<close>: buckets, quota, eviction).
  The servers:
  \<^item> \<^theory_text>\<open>Otlp_Stamp\<close> and \<^theory_text>\<open>Ingest_Handler\<close> (\<open>stamp.go\<close>, \<open>handler.go\<close>);
  \<^item> \<^theory_text>\<open>Syslog_Frame\<close> (locale \<open>framing\<close>, interpreted on both framings), \<^theory_text>\<open>Syslog_Stamp\<close>,
    \<^theory_text>\<open>Syslog_Rfc5424\<close> (the grammar of RFC 5424, and what stamping does to its messages), \<^theory_text>\<open>Syslog_Pool\<close>
    (workers interleave), \<^theory_text>\<open>Syslog_Server\<close> (a connection; the slots), \<^theory_text>\<open>Syslog_Listener\<close> (accept loop and shutdown);
  \<^item> \<^theory_text>\<open>Web_Core\<close>, \<^theory_text>\<open>Web_Handlers\<close>, \<^theory_text>\<open>Web_Server\<close> (state and login; pages and forms; routing and
    middleware), \<^theory_text>\<open>Web_Frame\<close> (locales \<open>store_relation\<close> and \<open>store_change\<close>: what holds of the statements
    holds of every handler), \<^theory_text>\<open>Web_Security\<close> (the properties of whole requests; locale
    \<open>response_service\<close>: what holds of every answer a handler writes holds of the server's);
  \<^item> \<^theory_text>\<open>Pki_Client\<close>, \<^theory_text>\<open>Pki_Download\<close> (key memory explicit, so that wiping is visible), \<^theory_text>\<open>Pki_Renewal\<close>.
  The whole:
  \<^item> \<^theory_text>\<open>App_Config\<close> and \<^theory_text>\<open>Proxy_Main\<close>: the configuration and the startup sequence;
  \<^item> \<^theory_text>\<open>Gateway_System\<close>: the shared state of the running gateway and one step per request, connection,
    renewal, background turn or failure; the locale \<open>store_service\<close> extends \<open>store_change\<close> by the other
    servers and \<open>store_environment\<close> extends that by the engine's failures;
  \<^item> \<^theory_text>\<open>Gateway_Closed\<close>: the same operations once the database is closed (\<open>store_execution\<close>, a sublocale of
    \<open>store_service\<close>: what every executed or refused statement keeps, every server keeps);
  \<^item> \<^theory_text>\<open>Proxy_Shutdown\<close>: the running process with its requests in flight, the listener, the background loops and
    the main goroutine from the signal to the closed database, as a step relation.
  The present theory has the properties that cross the components.

  \<^bold>\<open>What is proved.\<close>
  \<^item> Identity: stamping overrides whatever the client claims, in OTLP messages and in valid RFC 5424 messages
    without a closing bracket in a parameter value (lemmas show that other lines keep a forged identity);
    what the upstream decodes is the client's message with the server's identity; only a live
    credential of an active tenant gets anything forwarded, under that tenant.
  \<^item> Credentials: exactly when a key or certificate authenticates; rotation, revocation and deletion
    end it at every entrance; the key revealed by the create form works; a renewal keeps the tenant.
  \<^item> Admin interface: no table changes without a session and the token of the csrf cookie, which is not tied
    to the session, the setup form apart; sessions are unforgeable given the HMAC and separate from flash cookies; login attempts are
    bounded; a download link works once and for ten minutes.
  \<^item> State: schema constraints, queue bound, connection ownership and connection limits are invariants of the
    components and of the whole gateway, for every sequence of events and failures; samples are
    conserved; no tenant id is used twice while the gateway runs; migrations lose nothing whichever statements
    fail, can be repeated and adopt legacy keys.
  \<^item> Progress: the frame loop and every other loop ends (all functions are total); the listener, the
    usage writer and the whole process can always complete their shutdown, which closes the store only after
    everything it waits for has ended and which saves the usage that was enqueued by then, on a database
    without failures that has the tenant of every waiting sample. Where the code can
    wait for ever (a flush that meets a stop, a listener with an idle connection, a writer with a sample of a
    deleted tenant) or loses something (a proxied request that outlives the ten seconds) a theorem says so.

  \<^bold>\<open>Fuel.\<close> Only the JSON parser of \<^theory_text>\<open>Go_Json\<close> takes fuel; it is started with twice the length of the text and
  two, and \<open>json_parse_fuel\<close> shows that more fuel never changes its answer, on any text. All other
  recursions are structural or have a measure.

  \<^bold>\<open>Parameters.\<close> Code from outside the repository is an argument: bcrypt, \<open>golang.org/x/time/rate\<close>, the
  OTLP codecs and gzip, PEM, X.509 and JWT, \<open>url.Parse\<close>, HTML templates, zip encoding, the TLS
  handshake and the peer certificates it yields, the upstream server, the certificate authority, and
  the floating-point fraction of \<open>time.ParseDuration\<close>. What a theorem needs of them is a
  hypothesis of it, met by a concrete function in its witness.

  \<^bold>\<open>Atomicity.\<close> In \<^theory_text>\<open>Gateway_System\<close> a whole request or connection is one step, so races between a request in
  flight and an administrator's change are outside of it (\<^theory_text>\<open>Proxy_Shutdown\<close> has requests in flight for the
  shutdown, \<^theory_text>\<open>Syslog_Pool\<close>, \<^theory_text>\<open>Syslog_Server\<close>, \<^theory_text>\<open>Usage_Writer\<close> and \<^theory_text>\<open>Usage_Lifecycle\<close> interleave their own steps).

  \<^bold>\<open>Not modelled.\<close> HTML templates, style sheets and scripts, with the helpers that only format for them
  (\<open>megaBytes\<close> and \<open>daysUntil\<close>, in floating point); the bytes of the zip archive and of \<open>install.sh\<close> in it; the
  accept loops of \<open>net/http\<close> and the clock behind the tickers (a listening server can accept, and a background
  loop can take a turn, at any time until it ends); log output; the point where SQLite turns a usage counter
  beyond \<open>2^63\<close> into a floating-point number (the counters are integers here); installation scripts, container files, tests
  and documentation.
\<close>

section \<open>Properties of the running gateway\<close>

text \<open>C5. The started gateway never leaves its invariant: from a database that satisfies the schema constraints,
  whatever requests, connections, renewals and background turns follow in whatever order, with
  whatever engine and network failures, the schema constraints hold, the usage queue is bounded, no
  collector connection is shared or leaked, no connection slot stays taken, no login window counts
  more than five attempts and no used download link is kept. And no tenant id is used twice while the
  gateway runs: an id that was on file at some point of the run and is not at a later one is never on
  file again, and neither is an id up to the AUTOINCREMENT mark at the start that was not on file then.\<close>

theorem gateway_invariant:
  fixes es1 es2 es3 :: "gateway_event list" and ienv :: "('l, 'x) ingest_env"
  assumes "db_inv (sq_data (re_db env))" and "run env = Serving a ts"
  defines "s1 \<equiv> fold (gateway_step (gateway_of ienv a)) es1 (started a)"
  defines "s2 \<equiv> fold (gateway_step (gateway_of ienv a)) es2 s1"
  defines "s3 \<equiv> fold (gateway_step (gateway_of ienv a)) es3 s2"
  shows "gateway_inv s3 \<and>
    (\<forall>tid. tid \<in> tenant_ids (gs_db s1) \<and> tid \<notin> tenant_ids (gs_db s2) \<longrightarrow> tid \<notin> tenant_ids (gs_db s3)) \<and>
    (\<forall>tid \<le> seq_tenants (st_db (app_store a)). tid \<notin> tenant_ids (st_db (app_store a)) \<longrightarrow> tid \<notin> tenant_ids (gs_db s3))"
proof (intro conjI allI impI)
  note inv = gateway_run.inv_run [OF started_inv [OF assms(1,2)]]
  have s3: "s3 = fold (gateway_step (gateway_of ienv a)) (es1 @ es2 @ es3) (started a)" by (simp add: s1_def s2_def s3_def)
  show "gateway_inv s3" unfolding s3 by (rule inv)
  show "tid \<notin> tenant_ids (gs_db s3)" if "tid \<in> tenant_ids (gs_db s1) \<and> tid \<notin> tenant_ids (gs_db s2)" for tid
  proof -
    have "db_inv (gs_db s1)" using inv [of "gateway_of ienv a" es1] by (simp add: s1_def gateway_inv_def store_inv_def)
    then have "tid \<le> seq_tenants (gs_db s1)" using that by (auto simp: db_inv_def ids_ok_def tenant_ids_def)
    moreover have "ids_grow (gs_db s1) (gs_db s2)" "ids_grow (gs_db s2) (gs_db s3)" unfolding s2_def s3_def by (rule gateway_ids_run)+
    ultimately show ?thesis using that by (auto simp: ids_grow_def)
  qed
  show "tid \<notin> tenant_ids (gs_db s3)" if "tid \<le> seq_tenants (st_db (app_store a))" "tid \<notin> tenant_ids (st_db (app_store a))" for tid
    using gateway_ids_run [of "started a" "gateway_of ienv a" "es1 @ es2 @ es3"] that unfolding s3
    by (auto simp: ids_grow_def started_def)
qed

text \<open>C7. A deleted tenant is cut off from every entrance: after an administrator's delete form on a database
  without failures, whatever follows, no OTLP request is forwarded under its id, no syslog connection is served for it and no
  certificate is renewed for it.\<close>

theorem deleted_tenant_cut_off:
  fixes es :: "gateway_event list"
  assumes inv: "gateway_inv s" and h: "healthy (gs_db s)" and tid: "tid \<in> tenant_ids (gs_db s)" "in_int64 tid"
    and form: "form_post (gw_web g) env r (web_of s) [Lit ''tenants'', Wild ''id'', Lit ''delete''] [(''id'', format_int tid)]"
  defines "s' \<equiv> fold (gateway_step g) es (gateway_step g (AdminRequest env r) s)"
  shows "(\<forall>clk q upstream out p i. otlp g clk q upstream s' = (out, Some p, i) \<longrightarrow>
       (\<exists>row sig b. key_holds (gs_db s') (header_get (rq_Header q) ''X-Tenant-Key'') row \<and> tr_id row \<noteq> tid \<and> rq_Body q = Some b \<and>
          stampTenantIdentity (ie_codec (gw_ingest g)) (ie_gzip (gw_ingest g)) (rb_bytes b) (header_get (rq_Header q) ''Content-Type'')
            (header_get (rq_Header q) ''Content-Encoding'') sig (format_int (tr_id row)) (tr_name row) = Inr (pr_Body p))) \<and>
    (\<forall>cfg clk conn t err fs y. syslog g cfg clk conn s' = (Served t err fs, y) \<longrightarrow> ID t \<noteq> tid) \<and>
    (\<forall>ops post rnd now ca req w reqs d. handleRenew ops post rnd now ca req (gs_db s') = (w, reqs, d) \<and> rs_status w = 200 \<longrightarrow>
       (\<exists>row. fp_holds (gs_db s') (fingerprint_of (hd (rr_peers req))) row \<and> tr_id row \<noteq> tid))"
proof -
  let ?s1 = "gateway_step g (AdminRequest env r) s"
  have d: "db_inv (gs_db s)" using inv by (simp add: gateway_inv_def store_inv_def)
  have "path_id (r\<lparr>rq_PathValue := [(''id'', format_int tid)]\<rparr>) ''id'' = tid" using tid(2) by (simp add: path_id_format [OF refl])
  then have "gs_db ?s1 = snd (DeleteTenant tid (gs_db s))"
    using form_dispatch [OF form, of tenantDelete] h
    by (simp add: gateway_step_def admin_def put_web_def put_db_def tenantDelete_def form_routes_def web_of_def split: prod.splits sum.splits)
  moreover have "fst (DeleteTenant tid (gs_db s)) = Inr ()" using h by (simp add: DeleteTenant_def sql_exec_healthy delete_tenant_def)
  ultimately have "tid \<notin> tenant_ids (gs_db ?s1)" "tid \<le> seq_tenants (gs_db ?s1)" using DeleteTenant_gone [OF d tid(1)] by simp_all
  then have gone: "tid \<notin> tenant_ids (gs_db s')"
    using gateway_ids_run [of ?s1 g es] by (auto simp: s'_def ids_grow_def not_less)
  have "gateway_inv s'" unfolding s'_def by (rule gateway_run.inv_run [OF gateway_step_inv [OF inv]])
  then have inv': "db_inv (gs_db s')" by (simp add: gateway_inv_def store_inv_def)
  have other: "tr_id row \<noteq> tid" if "row \<in> set (t_tenants (gs_db s'))" for row using gone that by (auto simp: tenant_ids_def)
  show ?thesis
  proof (intro conjI allI impI)
    fix clk q upstream out p i assume "otlp g clk q upstream s' = (out, Some p, i)"
    from otlp_tenant [OF inv' this] show "\<exists>row sig b. key_holds (gs_db s') (header_get (rq_Header q) ''X-Tenant-Key'') row \<and> tr_id row \<noteq> tid \<and>
        rq_Body q = Some b \<and> stampTenantIdentity (ie_codec (gw_ingest g)) (ie_gzip (gw_ingest g)) (rb_bytes b)
          (header_get (rq_Header q) ''Content-Type'') (header_get (rq_Header q) ''Content-Encoding'') sig
          (format_int (tr_id row)) (tr_name row) = Inr (pr_Body p)"
      using other by metis
  next
    fix cfg clk conn t err fs y assume "syslog g cfg clk conn s' = (Served t err fs, y)"
    from syslog_tenant [OF inv' this] show "ID t \<noteq> tid" using other by auto
  next
    fix ops post rnd now ca req w reqs d assume "handleRenew ops post rnd now ca req (gs_db s') = (w, reqs, d) \<and> rs_status w = 200"
    then show "\<exists>row. fp_holds (gs_db s') (fingerprint_of (hd (rr_peers req))) row \<and> tr_id row \<noteq> tid"
      using renew_tenant [OF inv'] other by blast
  qed
qed

text \<open>C8. Onboarding works end to end: when an administrator's form creates a tenant (with a name in UTF-8, on a
  database without failures), the response carries a flash
  cookie which the next page reads back, and the key in it authenticates OTLP requests of a new
  active tenant with the name and the limits of the form.\<close>

theorem onboarding_round_trip:
  assumes inv: "gateway_inv s" and h: "healthy (gs_db s)" and rnd: "length (we_rnd_key env) = 24"
    and form: "form_post (gw_web g) env r (web_of s) [Lit ''tenants''] []" and name: "valid_utf8 (FormValue r ''name'')"
    and answer: "rs_status (fst (admin g env r s)) = 303"
  shows "\<exists>f t. (\<exists>c \<in> set (rs_cookies (fst (admin g env r s))). ck_Name c = ''flash'' \<and>
        (\<forall>r'. Cookie r' ''flash'' = Some (ck_Value c) \<longrightarrow> Flash_Get (signing_key (gw_web g)) r' = Some f)) \<and>
     fl_Kind f = ''apikey'' \<and>
     (\<forall>now q. header_get (rq_Header q) ''X-Tenant-Key'' = fl_Key f \<longrightarrow>
        fst (authenticate now q (ingest_of (gateway_step g (AdminRequest env r) s))) = Inr t) \<and>
     ID t \<notin> tenant_ids (gs_db s) \<and> Name t = FormValue r ''name'' \<and> Active t \<and>
     RateLimitRPS t = lim_RateLimitRPS (parseRateLimits r) \<and> BurstBytes t = lim_BurstBytes (parseRateLimits r) \<and>
     DailyByteQuota t = lim_DailyByteQuota (parseRateLimits r)"
proof -
  let ?sv = "gw_web g" and ?d = "gs_db s" and ?n = "FormValue r ''name''" and ?s1 = "gateway_step g (AdminRequest env r) s"
  let ?limits = "parseRateLimits r"
  have d: "db_inv ?d" using inv by (simp add: gateway_inv_def store_inv_def)
  have run: "admin g env r s = tenantCreate env ?sv (r\<lparr>rq_PathValue := []\<rparr>) (secured_response new_response) (web_of s)"
    using form_dispatch [OF form, of tenantCreate] h by (simp add: admin_def form_routes_def web_of_def)
  obtain res d' where c: "CreateTenant (we_rnd_key env) (we_now env) ?n (FormValue r ''description'') (Some ?limits) ?d = (res, d')" by fastforce
  then obtain t where res: "res = Inr t"
    using answer unfolding run by (cases res) (simp_all add: tenantCreate_def FormValue_def parseRateLimits_def positive_field_def web_of_def)
  then have c: "CreateTenant (we_rnd_key env) (we_now env) ?n (FormValue r ''description'') (Some ?limits) ?d = (Inr t, d')" using c by simp
  then obtain key: "APIKey t = GenerateAPIKeyV2 (we_rnd_key env) (ID t)" and nm: "Name t = ?n" by (rule CreateTenant_Inr)
  let ?f = "apikey_flash (APIKey t) (Name t)"
  have w: "fst (admin g env r s) = Redirect (r\<lparr>rq_PathValue := []\<rparr>) ''/'' 303 (Flash_Set (signing_key ?sv) (cookie_secure ?sv) ?f (secured_response new_response))"
    and v: "wb_db (snd (admin g env r s)) = d'"
    using c by (simp_all add: run tenantCreate_def FormValue_def parseRateLimits_def positive_field_def web_of_def)
  have ok: "flash_ok ?f"
    using name key_ascii by (simp add: apikey_flash_def flash_ok_def no_flash_def nm key valid_utf8_ascii)
  have db: "ig_db (ingest_of ?s1) = d'" using v by (simp add: gateway_step_def put_web_def put_db_def ingest_of_def)
  have "healthy d'" using CreateTenant_healthy [OF h] c by (metis snd_conv)
  then have "\<not> next_fault d'" by simp
  from create_then_lookup [OF d rnd c this] obtain t' where t': "\<And>now. fst (LookupTenantByKey now (APIKey t) d') = Inr (Some t')"
    "ID t' \<notin> tenant_ids ?d" "Name t' = ?n" "Active t'" "RateLimitRPS t' = lim_RateLimitRPS ?limits"
    "BurstBytes t' = lim_BurstBytes ?limits" "DailyByteQuota t' = lim_DailyByteQuota ?limits" by metis
  have "APIKey t \<noteq> ''''" by (simp add: key GenerateAPIKeyV2_def)
  then have auth: "fst (authenticate now q (ingest_of ?s1)) = Inr t'" if "header_get (rq_Header q) ''X-Tenant-Key'' = APIKey t" for now q
    by (rule authenticate_key [OF that]) (simp add: db t'(1))
  show ?thesis
    by (rule exI [of _ ?f], rule exI [of _ t'])
       (use t'(2-) auth Flash_Get_Set [OF ok] in \<open>auto simp: w Flash_Set_def flash_cookie_def apikey_flash_def\<close>)
qed

text \<open>C9. Revocation takes effect everywhere at once: after an administrator's revoke form, if neither the database nor
  the certificate authority fails, a new syslog connection with that certificate is refused as revoked without touching the collector pool, a renewal with it is
  answered 401, and no other certificate is affected.\<close>

theorem revocation_enforced:
  assumes inv: "gateway_inv s" and h: "healthy (gs_db s)"
    and c: "c \<in> set (t_certificates (gs_db s))" "in_int64 (ct_id c)" "in_int64 (ct_tenant_id c)" "ct_fingerprint c = fingerprint_of leaf"
    and form: "form_post (gw_web g) env r (web_of s) [Lit ''tenants'', Wild ''id'', Lit ''certificates'', Wild ''certId'', Lit ''revoke'']
       [(''id'', format_int (ct_tenant_id c)), (''certId'', format_int (ct_id c))]"
    and ca: "\<And>ca. ws_caClient (gw_web g) = Some ca \<Longrightarrow>
       fst (Revoke (we_pki env) (we_post env) (we_rnd_jti env) (we_now env) ca (ct_serial_number c) ''unspecified'') = Inr ()"
  defines "s' \<equiv> gateway_step g (AdminRequest env r) s"
  shows "(\<forall>cfg clk conn rest. tc_handshake conn = Inr () \<and> tc_peers conn = leaf # rest \<longrightarrow>
       fst (syslog g cfg clk conn s') = CertRevoked \<and> sy_pool (snd (syslog g cfg clk conn s')) = gs_pool s) \<and>
    (\<forall>ops post rnd now ca req rest. rr_peers req = leaf # rest \<longrightarrow> rs_status (fst (handleRenew ops post rnd now ca req (gs_db s'))) = 401) \<and>
    (\<forall>fp. fp \<noteq> fingerprint_of leaf \<longrightarrow> fst (LookupTenantByFingerprint fp (gs_db s')) = fst (LookupTenantByFingerprint fp (gs_db s)))"
proof -
  let ?r = "r\<lparr>rq_PathValue := [(''id'', format_int (ct_tenant_id c)), (''certId'', format_int (ct_id c))]\<rparr>" and ?fp = "fingerprint_of leaf"
  have d: "db_inv (gs_db s)" using inv by (simp add: gateway_inv_def store_inv_def)
  have "path_id ?r ''id'' = ct_tenant_id c" "path_id ?r ''certId'' = ct_id c" using c(2,3) by (simp_all add: path_id_format [OF refl])
  then have own: "lookup_own_cert ?r (gs_db s) = (Some (scanCertificate c), gs_db s)" using own_cert_found [OF d h c(1)] by simp
  obtain d' where rev: "RevokeCertificate (we_now env) ?fp (gs_db s) = (Inr (), d')"
    using h by (simp add: RevokeCertificate_def sql_exec_healthy revoke_certificate_def)
  have "admin g env r s = certRevoke env (gw_web g) ?r (secured_response new_response) (web_of s)"
    using form_dispatch [OF form, of certRevoke] h by (simp add: admin_def form_routes_def web_of_def)
  then have "wb_db (snd (admin g env r s)) = d'"
    using own ca rev c(4)
    by (cases "ws_caClient (gw_web g)") (simp_all add: certRevoke_def web_of_def scanCertificate_def)
  then have db: "gs_db s' = d'" and pool: "gs_pool s' = gs_pool s" by (simp_all add: s'_def gateway_step_def put_web_def put_db_def)
  note row = revoked_row [OF rev h c(1,4)]
  then obtain cert where cert: "LookupCertificateByFingerprint ?fp d' = (Inr (Some cert), d')" "cert_RevokedAt cert \<noteq> None" by blast
  have gone: "fst (LookupTenantByFingerprint ?fp d') = Inr None"
    and others: "fp \<noteq> ?fp \<Longrightarrow> fst (LookupTenantByFingerprint fp d') = fst (LookupTenantByFingerprint fp (gs_db s))" for fp
    using revoked_certificate_rejected [OF d rev] h row(1) by auto
  have nobody: "ResolveTenant now (NewCertCredential ?fp) d' = (Inr None, d')" for now
    using gone row(1) by (simp add: ResolveTenant_def NewCertCredential_def LookupTenantByFingerprint_def sql_query_healthy)
  show ?thesis
    using nobody cert others
    by (auto simp: syslog_def handleConnection_def syslog_of_def db pool reject_reason_def handleRenew_def fingerprint_of_def Let_def)
qed

section \<open>The properties at work\<close>

theorem gateway_invariant_witness:
  "\<exists>a ts. run demo_run = Serving a ts \<and>
     gateway_inv (fold (gateway_step (gateway_of Ingest_Handler.demo_env a)) [LimiterTurn 8]
       (fold (gateway_step (gateway_of Ingest_Handler.demo_env a)) [RetentionTurn 7]
         (fold (gateway_step (gateway_of Ingest_Handler.demo_env a)) [EngineFaults [True]] (started a))))"
proof -
  obtain a ts where run: "run demo_run = Serving a ts" by (rule demo_serving)
  have "db_inv (sq_data (re_db demo_run))" using demo_legacy_ok(1) by (simp add: demo_run_def)
  from gateway_invariant [OF this run] run show ?thesis by blast
qed
theorem deleted_tenant_cut_off_witness:
  "\<not> (\<exists>cfg clk conn t err fs y. syslog demo_gateway cfg clk conn (fold (gateway_step demo_gateway) [RetentionTurn 9]
      (gateway_step demo_gateway (AdminRequest Web_Security.demo_env (demo_form ''/tenants/1/delete'' [])) demo_gateway_state))
     = (Served t err fs, y) \<and> ID t = 1)"
proof -
  have "match_segs [Lit ''tenants'', Wild ''id'', Lit ''delete''] (path_segs ''/tenants/1/delete'') = Some [(''id'', format_int 1)]"
    "cleanPath ''/tenants/1/delete'' = ''/tenants/1/delete''" by code_simp+
  note form = demo_form_post [OF this, of "[]"]
  have "1 \<in> tenant_ids (gs_db demo_gateway_state)"
    using renew_db_eq(3) by (simp add: demo_gateway_state_def demo_gateway_db_def tenant_ids_def demo_tenant_def)
  moreover have "in_int64 1" by (simp add: in_int64_def)
  ultimately show ?thesis using deleted_tenant_cut_off [OF demo_gateway_ok _ _ form] by blast
qed

theorem onboarding_round_trip_witness:
  "\<exists>(f :: FlashData) t. Name t = ''beta'' \<and> ID t \<notin> {1} \<and> fl_Kind f = ''apikey'' \<and>
     fst (authenticate 5 (Ingest_Handler.demo_request (fl_Key f) []) (ingest_of (gateway_step demo_gateway
       (AdminRequest Web_Security.demo_env (demo_form ''/tenants'' [(''name'', ''beta'')])) demo_gateway_state))) = Inr t"
proof -
  let ?r = "demo_form ''/tenants'' [(''name'', ''beta'')]" and ?s = "demo_gateway_state"
  have "match_segs [Lit ''tenants''] (path_segs ''/tenants'') = Some []" "cleanPath ''/tenants'' = ''/tenants''" by code_simp+
  note form = demo_form_post [OF this, of "[(''name'', ''beta'')]"]
  have name: "FormValue ?r ''name'' = ''beta''" by (simp add: FormValue_def demo_form_def demo_request_def)
  have utf: "valid_utf8 (FormValue ?r ''name'')" unfolding name by code_simp
  have rnd: "length (we_rnd_key Web_Security.demo_env) = 24" by (simp add: demo_env_def)
  have "admin demo_gateway Web_Security.demo_env ?r ?s
      = tenantCreate Web_Security.demo_env demo_server (?r\<lparr>rq_PathValue := []\<rparr>) (secured_response new_response) (web_of ?s)"
    using form_dispatch [OF form, of tenantCreate] demo_gateway_ok(2) by (simp add: admin_def form_routes_def web_of_def demo_gateway_def)
  moreover have "\<exists>t d. CreateTenant rn now ''beta'' ds l demo_gateway_db = (Inr t, d)" for rn now ds l
    by (simp add: CreateTenant_def insert_tenant_def insert_api_key_def sql_exec_def next_fault_def pop_fault_def demo_gateway_db_def renew_db_def
        demo_db_def empty_db_def next_id_def tenant_ids_def Let_def demo_tenant_def)
  then obtain t d where "CreateTenant (we_rnd_key Web_Security.demo_env) (we_now Web_Security.demo_env) ''beta'' (FormValue ?r ''description'')
      (Some (parseRateLimits ?r)) demo_gateway_db = (Inr t, d)" by metis
  moreover have "wb_db (web_of ?s) = demo_gateway_db" by (simp add: web_of_def demo_gateway_state_def)
  ultimately have "rs_status (fst (admin demo_gateway Web_Security.demo_env ?r ?s)) = 303"
    using name by (simp add: tenantCreate_def Flash_Set_def FormValue_def parseRateLimits_def positive_field_def)
  from onboarding_round_trip [OF demo_gateway_ok rnd form utf this] obtain f :: FlashData and t where
    a: "\<forall>now q. header_get (rq_Header q) ''X-Tenant-Key'' = fl_Key f \<longrightarrow> fst (authenticate now q (ingest_of
       (gateway_step demo_gateway (AdminRequest Web_Security.demo_env ?r) ?s))) = Inr t"
    and t: "ID t \<notin> tenant_ids (gs_db ?s)" "Name t = ''beta''" "fl_Kind f = ''apikey''" unfolding name by blast
  have "tenant_ids (gs_db ?s) = {1}"
    using renew_db_eq(3) by (simp add: demo_gateway_state_def demo_gateway_db_def tenant_ids_def demo_tenant_def)
  moreover have "header_get (rq_Header (Ingest_Handler.demo_request (fl_Key f) [])) ''X-Tenant-Key'' = fl_Key f"
    by (simp add: Ingest_Handler.demo_request_def header_get_def)
  ultimately show ?thesis using a t by metis
qed

theorem revocation_enforced_witness:
  "fst (syslog demo_gateway \<lparr>cfg_MaxFrameBytes = 100, cfg_MaxConnections = 10, cfg_MaxConnsPerTenant = 5, cfg_CollectorAddr = ''c:5140''\<rparr> (\<lambda>_. 6)
     \<lparr>tc_handshake = Inr (), tc_peers = [bytes_of ''abc''], tc_stream = []\<rparr>
     (gateway_step demo_gateway (AdminRequest Web_Security.demo_env (demo_form ''/tenants/1/certificates/1/revoke'' [])) demo_gateway_state)) = CertRevoked"
proof -
  have "match_segs [Lit ''tenants'', Wild ''id'', Lit ''certificates'', Wild ''certId'', Lit ''revoke''] (path_segs ''/tenants/1/certificates/1/revoke'')
      = Some [(''id'', format_int 1), (''certId'', format_int 1)]"
    "cleanPath ''/tenants/1/certificates/1/revoke'' = ''/tenants/1/certificates/1/revoke''" by code_simp+
  note form = demo_form_post [OF this, of "[]"]
  have c: "renew_cert_row \<in> set (t_certificates (gs_db demo_gateway_state))" "in_int64 (ct_id renew_cert_row)"
    "in_int64 (ct_tenant_id renew_cert_row)" "ct_fingerprint renew_cert_row = fingerprint_of (bytes_of ''abc'')"
    by (simp_all add: demo_gateway_state_def demo_gateway_db_def renew_db_def renew_cert_row_def in_int64_def fingerprint_of_def)
  have "form_post (gw_web demo_gateway) Web_Security.demo_env (demo_form ''/tenants/1/certificates/1/revoke'' []) (web_of demo_gateway_state)
      [Lit ''tenants'', Wild ''id'', Lit ''certificates'', Wild ''certId'', Lit ''revoke'']
      [(''id'', format_int (ct_tenant_id renew_cert_row)), (''certId'', format_int (ct_id renew_cert_row))]"
    using form by (simp add: renew_cert_row_def)
  from revocation_enforced [OF demo_gateway_ok c this] show ?thesis by (simp add: demo_gateway_def demo_server_def)
qed
end
